(* ===== verification/Base.thy ===== *)
theory Base
  imports Main "HOL-Library.Char_ord"
begin

text \<open>
  The prelude of the development: the exceptions of the library as values, the result and
  state-and-result monads the handlers are written in, the C character classes in the ``C''
  locale, the members of \<open>std::string\<close> that the sources use, decimal printing, and the
  collections of lemmas the component theories share.
\<close>

named_theorems result_simps \<open>evaluation of the result and state monads\<close>
named_theorems stream_simps \<open>evaluation of input streams\<close>
named_theorems char_simps \<open>character classes\<close>

section \<open>Exceptions\<close>

text \<open>
  The exception types of \<^verbatim>\<open>nanonet/exception.h\<close> and the standard ones that the sources throw.
  Four further values stand for control flow that no \<^verbatim>\<open>catch\<close> clause sees: \<open>Abort\<close> for a
  failed \<^verbatim>\<open>assert()\<close>, \<open>Undefined\<close> for undefined behaviour, \<open>Hang\<close> for a system call that does
  not return and \<open>Fuel\<close> for a recursion bound of the model, which the development proves is never
  reached.
\<close>

datatype exc =
    Runtime_error string
  | Parse_error string
  | Assertion_failure string
  | Timeout_exception string
  | Shutdown_exception string
  | Logic_error string
  | Abort string
  | Undefined string
  | Hang
  | Fuel

fun what :: "exc \<Rightarrow> string" where
  "what (Runtime_error s) = s"
| "what (Parse_error s) = s"
| "what (Assertion_failure s) = s"
| "what (Timeout_exception s) = s"
| "what (Shutdown_exception s) = s"
| "what (Logic_error s) = s"
| "what (Abort s) = s"
| "what (Undefined s) = s"
| "what Hang = []"
| "what Fuel = []"

text \<open>What a \<^verbatim>\<open>catch (std::runtime_error const&)\<close> and a
  \<^verbatim>\<open>catch (std::exception const&)\<close> clause catch.\<close>

fun is_runtime_error :: "exc \<Rightarrow> bool" where
  "is_runtime_error (Runtime_error _) = True"
| "is_runtime_error (Parse_error _) = True"
| "is_runtime_error (Assertion_failure _) = True"
| "is_runtime_error (Timeout_exception _) = True"
| "is_runtime_error (Shutdown_exception _) = True"
| "is_runtime_error _ = False"

fun is_std_exception :: "exc \<Rightarrow> bool" where
  "is_std_exception (Logic_error _) = True"
| "is_std_exception e = is_runtime_error e"

lemma runtime_is_std: "is_runtime_error e \<Longrightarrow> is_std_exception e"
  by (cases e) auto

section \<open>Results\<close>

type_synonym 'a result = "exc + 'a"

definition rbind :: "'a result \<Rightarrow> ('a \<Rightarrow> 'b result) \<Rightarrow> 'b result" where
  "rbind m f = (case m of Inl e \<Rightarrow> Inl e | Inr x \<Rightarrow> f x)"

text \<open>\<^verbatim>\<open>try { m } catch (std::runtime_error const& e) { h(e) }\<close>.\<close>

definition catch_runtime :: "'a result \<Rightarrow> (exc \<Rightarrow> 'a result) \<Rightarrow> 'a result" where
  "catch_runtime m h =
     (case m of Inl e \<Rightarrow> (if is_runtime_error e then h e else Inl e) | Inr x \<Rightarrow> Inr x)"

definition is_ok :: "'a result \<Rightarrow> bool" where
  "is_ok m = (case m of Inl _ \<Rightarrow> False | Inr _ \<Rightarrow> True)"

lemma rbind_simps [simp, result_simps]:
  "rbind (Inl e) f = Inl e"
  "rbind (Inr x) f = f x"
  by (simp_all add: rbind_def)

lemma rbind_Inr_iff: "rbind m f = Inr y \<longleftrightarrow> (\<exists>x. m = Inr x \<and> f x = Inr y)"
  by (cases m) auto

lemma rbind_assoc: "rbind (rbind m f) g = rbind m (\<lambda>x. rbind (f x) g)"
  by (cases m) auto

lemma catch_runtime_simps [simp, result_simps]:
  "catch_runtime (Inr x) h = Inr x"
  "is_runtime_error e \<Longrightarrow> catch_runtime (Inl e) h = h e"
  "\<not> is_runtime_error e \<Longrightarrow> catch_runtime (Inl e) h = Inl e"
  by (simp_all add: catch_runtime_def)

lemma is_ok_simps [simp]: "is_ok (Inr x)" "\<not> is_ok (Inl e)"
  by (simp_all add: is_ok_def)

section \<open>State and result\<close>

text \<open>
  A member function that may throw: the state is returned on both paths, because what an
  object has consumed or stored before it throws stays consumed or stored.
\<close>

type_synonym ('s, 'a) sx = "'s \<Rightarrow> 'a result \<times> 's"

definition sret :: "'a \<Rightarrow> ('s, 'a) sx" where
  "sret x s = (Inr x, s)"

definition sthrow :: "exc \<Rightarrow> ('s, 'a) sx" where
  "sthrow e s = (Inl e, s)"

definition sbind :: "('s, 'a) sx \<Rightarrow> ('a \<Rightarrow> ('s, 'b) sx) \<Rightarrow> ('s, 'b) sx" where
  "sbind m f s = (case m s of (Inl e, s') \<Rightarrow> (Inl e, s') | (Inr x, s') \<Rightarrow> f x s')"

definition sgets :: "('s \<Rightarrow> 'a) \<Rightarrow> ('s, 'a) sx" where
  "sgets g s = (Inr (g s), s)"

definition smod :: "('s \<Rightarrow> 's) \<Rightarrow> ('s, unit) sx" where
  "smod g s = (Inr (), g s)"

lemma sx_apply [simp, result_simps]:
  "sret x s = (Inr x, s)"
  "sthrow e s = (Inl e, s)"
  "sgets g s = (Inr (g s), s)"
  "smod h s = (Inr (), h s)"
  by (simp_all add: sret_def sthrow_def sgets_def smod_def)

lemma sbind_ok: "m s = (Inr x, s') \<Longrightarrow> sbind m f s = f x s'"
  by (simp add: sbind_def)

lemma sbind_err: "m s = (Inl e, s') \<Longrightarrow> sbind m f s = (Inl e, s')"
  by (simp add: sbind_def)

lemma sbind_apply [simp, result_simps]:
  "sbind (sret x) f s = f x s"
  "sbind (sthrow e) f s = (Inl e, s)"
  "sbind (sgets g) f s = f (g s) s"
  "sbind (smod h) k s = k () (h s)"
  by (simp_all add: sbind_def)

lemma sbind_InrE:
  assumes "sbind m f s = (Inr y, t)"
  obtains x s' where "m s = (Inr x, s')" "f x s' = (Inr y, t)"
  using assms by (auto simp: sbind_def split: prod.splits sum.splits)

lemma sbind_InlE:
  assumes "sbind m f s = (Inl e, t)"
  obtains "m s = (Inl e, t)" | x s' where "m s = (Inr x, s')" "f x s' = (Inl e, t)"
  using assms by (auto simp: sbind_def split: prod.splits sum.splits)

lemma sbind_assoc: "sbind (sbind m f) g = sbind m (\<lambda>x. sbind (f x) g)"
  by (rule ext) (auto simp: sbind_def split: prod.splits sum.splits)

text \<open>
  \<^verbatim>\<open>try { m } catch (std::exception const& e) { h(e) }\<close>; and a destructor \<open>h\<close> that runs when \<open>m\<close> is
  left, normally or by an exception. A program that aborts, hangs or is undefined does not unwind.
\<close>

definition scatch :: "('s, 'a) sx \<Rightarrow> (exc \<Rightarrow> ('s, 'a) sx) \<Rightarrow> ('s, 'a) sx" where
  "scatch m h s =
     (case m s of (Inl e, s') \<Rightarrow> (if is_std_exception e then h e s' else (Inl e, s')) | (Inr x, s') \<Rightarrow> (Inr x, s'))"

definition sfinally :: "('s, 'a) sx \<Rightarrow> ('s, unit) sx \<Rightarrow> ('s, 'a) sx" where
  "sfinally m h s =
     (case m s of
        (Inl e, s') \<Rightarrow> (if is_std_exception e then sbind h (\<lambda>_. sthrow e) s' else (Inl e, s'))
      | (Inr x, s') \<Rightarrow> sbind h (\<lambda>_. sret x) s')"

definition slift :: "'a result \<Rightarrow> ('s, 'a) sx" where
  "slift r s = (r, s)"

definition sskip :: "('s, unit) sx" where
  "sskip = sret ()"

lemma slift_simps [simp, result_simps]:
  "slift (Inr x) s = (Inr x, s)"
  "slift (Inl e) s = (Inl e, s)"
  "sskip s = (Inr (), s)"
  "sbind (slift (Inr x)) f s = f x s"
  "sbind (slift (Inl e)) f s = (Inl e, s)"
  "sbind sskip k s = k () s"
  by (simp_all add: slift_def sskip_def sbind_def)

text \<open>Postconditions for the normal and for the exceptional exit, with the calculus that the
  component proofs run by \<open>simp add: wp_simps\<close>.\<close>

named_theorems wp_simps \<open>weakest preconditions of the state monad\<close>

definition wp :: "('s, 'a) sx \<Rightarrow> ('a \<Rightarrow> 's \<Rightarrow> bool) \<Rightarrow> (exc \<Rightarrow> 's \<Rightarrow> bool) \<Rightarrow> 's \<Rightarrow> bool" where
  "wp m Q E s = (case m s of (Inl e, s') \<Rightarrow> E e s' | (Inr x, s') \<Rightarrow> Q x s')"

lemma wp_bind [wp_simps]: "wp (sbind m f) Q E = wp m (\<lambda>x. wp (f x) Q E) E"
  by (simp add: wp_def sbind_def fun_eq_iff split: prod.splits sum.splits)

lemma wp_basic [wp_simps]:
  "wp (sret x) Q E = Q x"
  "wp (sthrow e) P E = E e"
  "wp (sgets g) R E = (\<lambda>s. R (g s) s)"
  "wp (smod h) U E = (\<lambda>s. U () (h s))"
  by (simp_all add: wp_def fun_eq_iff)

lemma wp_if [wp_simps]: "wp (if b then m else k) Q E = (if b then wp m Q E else wp k Q E)"
  by simp

lemma wp_catch [wp_simps]:
  "wp (scatch m h) Q E = wp m Q (\<lambda>e s. if is_std_exception e then wp (h e) Q E s else E e s)"
  by (auto simp: wp_def scatch_def fun_eq_iff split: prod.splits sum.splits)

lemma wp_finally [wp_simps]:
  "wp (sfinally m h) Q E =
     wp m (\<lambda>x. wp h (\<lambda>_. Q x) E) (\<lambda>e s. if is_std_exception e then wp h (\<lambda>_. E e) E s else E e s)"
  by (auto simp: wp_def sfinally_def sbind_def fun_eq_iff split: prod.splits sum.splits)

lemma wp_lift [wp_simps]:
  "wp (slift r) Q E = (case r of Inl e \<Rightarrow> E e | Inr x \<Rightarrow> Q x)"
  "wp sskip U F = U ()"
  by (auto simp: wp_def fun_eq_iff split: sum.splits)

lemma wp_mono:
  "wp m Q E s \<Longrightarrow> (\<And>x s'. Q x s' \<Longrightarrow> Q' x s') \<Longrightarrow> (\<And>e s'. E e s' \<Longrightarrow> E' e s') \<Longrightarrow> wp m Q' E' s"
  by (auto simp: wp_def split: prod.splits sum.splits)

lemma wpI:
  "(\<And>x s'. m s = (Inr x, s') \<Longrightarrow> Q x s') \<Longrightarrow> (\<And>e s'. m s = (Inl e, s') \<Longrightarrow> E e s') \<Longrightarrow> wp m Q E s"
  by (auto simp: wp_def split: prod.splits sum.splits)

lemma wp_cong: "m s = m' s \<Longrightarrow> wp m Q E s = wp m' Q E s"
  by (simp add: wp_def)

lemma wp_Inr: "wp m Q E s \<Longrightarrow> m s = (Inr x, s') \<Longrightarrow> Q x s'"
  by (simp add: wp_def)

lemma wp_Inl: "wp m Q E s \<Longrightarrow> m s = (Inl e, s') \<Longrightarrow> E e s'"
  by (simp add: wp_def)

lemma sbind_cong_at:
  "(\<And>x s'. m s = (Inr x, s') \<Longrightarrow> f x s' = g x s') \<Longrightarrow> sbind m f s = sbind m g s"
  by (auto simp: sbind_def split: prod.splits sum.splits)

subsection \<open>Recursion bounds\<close>

text \<open>
  \<open>m\<close> is approximated by \<open>m'\<close> when they agree wherever \<open>m\<close> does not run out of its bound.
  The monad's operations are monotone for it, so a recursion with a larger bound approximates
  the one with a smaller bound, by one induction over these rules.
\<close>

named_theorems fuel_intros \<open>monotonicity in the recursion bound\<close>

definition fuel_le :: "('s, 'a) sx \<Rightarrow> ('s, 'a) sx \<Rightarrow> bool" where
  "fuel_le m m' \<longleftrightarrow> (\<forall>s. fst (m s) \<noteq> Inl Fuel \<longrightarrow> m' s = m s)"

lemma fuel_leD: "fuel_le m m' \<Longrightarrow> fst (m s) \<noteq> Inl Fuel \<Longrightarrow> m' s = m s"
  by (simp add: fuel_le_def)

lemma fuel_le_refl [fuel_intros]: "fuel_le m m"
  by (simp add: fuel_le_def)

lemma fuel_le_trans: "fuel_le m m' \<Longrightarrow> fuel_le m' m'' \<Longrightarrow> fuel_le m m''"
  by (simp add: fuel_le_def)

lemma fuel_le_throw [fuel_intros]: "fuel_le (sthrow Fuel) m"
  by (simp add: fuel_le_def)

lemma fuel_le_bind [fuel_intros]:
  assumes "fuel_le m m'" "\<And>x. fuel_le (f x) (f' x)"
  shows "fuel_le (sbind m f) (sbind m' f')"
  using assms unfolding fuel_le_def sbind_def
  by (auto split: prod.splits sum.splits)

lemma fuel_le_if [fuel_intros]:
  "(b \<Longrightarrow> fuel_le m m') \<Longrightarrow> (\<not> b \<Longrightarrow> fuel_le k k') \<Longrightarrow> fuel_le (if b then m else k) (if b then m' else k')"
  by simp

lemma fuel_le_chain:
  assumes "\<And>n. fuel_le (f n) (f (Suc n))" "n \<le> m"
  shows "fuel_le (f n) (f m)"
  using assms(2) by (induction m rule: dec_induct) (auto intro: fuel_intros fuel_le_trans assms(1))

section \<open>Character classes of the C locale\<close>

definition in_range :: "char \<Rightarrow> nat \<Rightarrow> nat \<Rightarrow> bool" where
  "in_range c lo hi \<longleftrightarrow> lo \<le> of_char c \<and> of_char c \<le> hi"

text \<open>Space, \<^verbatim>\<open>\t\<close>, \<^verbatim>\<open>\n\<close>, \<^verbatim>\<open>\v\<close>, \<^verbatim>\<open>\f\<close> and \<^verbatim>\<open>\r\<close>; no
  character above 127 belongs to any class.\<close>

definition isspace :: "char \<Rightarrow> bool" where
  "isspace c \<longleftrightarrow> of_char c = (32::nat) \<or> in_range c 9 13"

definition isdigit :: "char \<Rightarrow> bool" where
  "isdigit c \<longleftrightarrow> in_range c 48 57"

definition isupper :: "char \<Rightarrow> bool" where
  "isupper c \<longleftrightarrow> in_range c 65 90"

definition islower :: "char \<Rightarrow> bool" where
  "islower c \<longleftrightarrow> in_range c 97 122"

definition isalpha :: "char \<Rightarrow> bool" where
  "isalpha c \<longleftrightarrow> isupper c \<or> islower c"

definition isalnum :: "char \<Rightarrow> bool" where
  "isalnum c \<longleftrightarrow> isalpha c \<or> isdigit c"

definition c_toupper :: "char \<Rightarrow> char" where
  "c_toupper c = (if islower c then char_of (of_char c - (32::nat)) else c)"

definition c_tolower :: "char \<Rightarrow> char" where
  "c_tolower c = (if isupper c then char_of (of_char c + (32::nat)) else c)"

lemmas char_class_defs [char_simps] =
  in_range_def isspace_def isdigit_def isupper_def islower_def isalpha_def isalnum_def

abbreviation newline_char :: char where
  "newline_char \<equiv> CHR 0x0A"

abbreviation dquote :: char where
  "dquote \<equiv> CHR 0x22"

abbreviation squote :: char where
  "squote \<equiv> CHR 0x27"

abbreviation backslash :: char where
  "backslash \<equiv> CHR 0x5C"

lemma class_disjoint:
  "isdigit c \<Longrightarrow> \<not> isalpha c" "isdigit c \<Longrightarrow> \<not> isspace c" "isalpha c \<Longrightarrow> \<not> isspace c"
  by (auto simp: char_simps)

section \<open>Members of std::string\<close>

text \<open>\<^verbatim>\<open>npos\<close> is \<open>None\<close>.\<close>

fun find_index :: "('a \<Rightarrow> bool) \<Rightarrow> 'a list \<Rightarrow> nat option" where
  "find_index P [] = None"
| "find_index P (x # xs) = (if P x then Some 0 else map_option Suc (find_index P xs))"

definition str_find :: "string \<Rightarrow> char \<Rightarrow> nat option" where
  "str_find s c = find_index (\<lambda>x. x = c) s"

definition find_first_of :: "string \<Rightarrow> string \<Rightarrow> nat option" where
  "find_first_of s cs = find_index (\<lambda>x. x \<in> set cs) s"

definition find_first_not_of :: "string \<Rightarrow> string \<Rightarrow> nat option" where
  "find_first_not_of s cs = find_index (\<lambda>x. x \<notin> set cs) s"

definition find_last_not_of :: "string \<Rightarrow> string \<Rightarrow> nat option" where
  "find_last_not_of s cs =
     map_option (\<lambda>i. length s - 1 - i) (find_index (\<lambda>x. x \<notin> set cs) (rev s))"

lemma find_index_Some:
  "find_index P xs = Some i \<Longrightarrow>
     i < length xs \<and> P (xs ! i) \<and> (\<forall>x \<in> set (take i xs). \<not> P x)"
proof (induction xs arbitrary: i)
  case (Cons x xs)
  then show ?case by (cases i) (auto split: if_splits)
qed simp

lemma find_index_None [simp]: "find_index P xs = None \<longleftrightarrow> (\<forall>x \<in> set xs. \<not> P x)"
  by (induction xs) auto

lemma find_index_append:
  "(\<forall>x \<in> set xs. \<not> P x) \<Longrightarrow> find_index P (xs @ ys) = map_option (\<lambda>i. length xs + i) (find_index P ys)"
proof (induction xs)
  case Nil
  then show ?case by (simp add: option.map_ident)
next
  case (Cons x xs)
  then show ?case by (simp add: option.map_comp comp_def)
qed

lemma find_index_takeWhile:
  "find_index P xs = Some i \<Longrightarrow>
     takeWhile (\<lambda>x. \<not> P x) xs = take i xs \<and> dropWhile (\<lambda>x. \<not> P x) xs = drop i xs"
proof (induction xs arbitrary: i)
  case (Cons x xs)
  then show ?case by (cases i) (auto split: if_splits)
qed simp

lemma length_filter_update:
  "i < length xs \<Longrightarrow>
     length (filter P (xs[i := y])) + (if P (xs ! i) then 1 else 0) = length (filter P xs) + (if P y then 1 else 0)"
proof (induction xs arbitrary: i)
  case (Cons x xs)
  then show ?case by (cases i) auto
qed simp

section \<open>Decimal printing\<close>

definition digit_char :: "nat \<Rightarrow> char" where
  "digit_char d = char_of (48 + d)"

definition digit_val :: "char \<Rightarrow> nat" where
  "digit_val c = of_char c - 48"

fun nat_to_string :: "nat \<Rightarrow> string" where
  "nat_to_string n =
     (if n < 10 then [digit_char n] else nat_to_string (n div 10) @ [digit_char (n mod 10)])"

declare nat_to_string.simps [simp del]

text \<open>\<^verbatim>\<open>std::to_string\<close> on an integer.\<close>

definition int_to_string :: "int \<Rightarrow> string" where
  "int_to_string i = (if i < 0 then CHR ''-'' # nat_to_string (nat (- i)) else nat_to_string (nat i))"

lemma of_char_digit_char: "d < 10 \<Longrightarrow> of_char (digit_char d) = 48 + d"
  by (simp add: digit_char_def)

lemma digit_char_props [simp]:
  "d < 10 \<Longrightarrow> isdigit (digit_char d)"
  "d < 10 \<Longrightarrow> digit_val (digit_char d) = d"
  by (simp_all add: char_simps digit_val_def of_char_digit_char)

lemma nat_to_string_nonempty [simp]: "nat_to_string n \<noteq> []"
  by (subst nat_to_string.simps) simp

lemma nat_to_string_digits: "c \<in> set (nat_to_string n) \<Longrightarrow> isdigit c"
proof (induction n rule: nat_to_string.induct)
  case (1 n)
  then show ?case
    by (cases "n < 10") (auto simp: nat_to_string.simps [of n])
qed

definition digits_val :: "nat \<Rightarrow> string \<Rightarrow> nat" where
  "digits_val = foldl (\<lambda>a c. 10 * a + digit_val c)"

lemma digits_val_simps [simp]:
  "digits_val a [] = a"
  "digits_val a (c # cs) = digits_val (10 * a + digit_val c) cs"
  "digits_val a (xs @ ys) = digits_val (digits_val a xs) ys"
  by (simp_all add: digits_val_def)

lemma digits_val_nat_to_string: "digits_val 0 (nat_to_string n) = n"
proof (induction n rule: nat_to_string.induct)
  case (1 n)
  then show ?case
    by (cases "n < 10") (simp_all add: nat_to_string.simps [of n])
qed

section \<open>Assertions\<close>

text \<open>
  \<^verbatim>\<open>nanonet::util::assertion\<close> and \<^verbatim>\<open>verify\<close> of \<^verbatim>\<open>src/util.cpp\<close>. The macro
  \<^verbatim>\<open>always_assert( e )\<close> is \<open>assertion\<close> applied to the text of \<open>e\<close>, the file (here
  relative to the repository) and the line.
\<close>

definition assertion :: "bool \<Rightarrow> string \<Rightarrow> string \<Rightarrow> nat \<Rightarrow> unit result" where
  "assertion expr expr_string file line =
     (if expr then Inr ()
      else Inl (Assertion_failure
        (''Assertion failed: '' @ expr_string @ '' ('' @ file @ '':'' @ nat_to_string line @ '')'')))"

definition verify :: "bool \<Rightarrow> string \<Rightarrow> unit result" where
  "verify expression message = (if expression then Inr () else Inl (Runtime_error message))"

text \<open>\<^verbatim>\<open>assert()\<close> ends the program.\<close>

definition c_assert :: "bool \<Rightarrow> string \<Rightarrow> unit result" where
  "c_assert expr expr_string = (if expr then Inr () else Inl (Abort expr_string))"

lemma assertion_simps [simp, result_simps]:
  "assertion True e f n = Inr ()"
  "verify True m = Inr ()"
  "verify False m = Inl (Runtime_error m)"
  "c_assert True e = Inr ()"
  "c_assert False e = Inl (Abort e)"
  by (simp_all add: assertion_def verify_def c_assert_def)

lemma assertion_Inr [simp]: "assertion b e f n = Inr x \<longleftrightarrow> b"
  by (simp add: assertion_def)

end
