(* ===== verification/Streams.thy ===== *)
theory Streams
  imports Base
begin

text \<open>
  Input streams over characters: the unformatted input functions of \<^verbatim>\<open>std::istream\<close> that the
  sources call (\<^verbatim>\<open>get\<close>, \<^verbatim>\<open>peek\<close>, \<^verbatim>\<open>ignore\<close>, \<^verbatim>\<open>putback\<close>), with the state bits they
  set. A stream is a finite sequence of characters followed by end of file; a network stream on
  which the peer stops sending is the case where the sequence ends.
\<close>

record istream =
  ibuf :: string
  eofbit :: bool
  failbit :: bool

definition istream_of :: "string \<Rightarrow> istream" where
  "istream_of s = \<lparr>ibuf = s, eofbit = False, failbit = False\<rparr>"

definition good :: "istream \<Rightarrow> bool" where
  "good s \<longleftrightarrow> \<not> eofbit s \<and> \<not> failbit s"

text \<open>\<^verbatim>\<open>is.get(c)\<close>: \<open>None\<close> when nothing was extracted.\<close>

definition is_get :: "istream \<Rightarrow> char option \<times> istream" where
  "is_get s =
     (if \<not> good s then (None, s\<lparr>failbit := True\<rparr>)
      else case ibuf s of
        [] \<Rightarrow> (None, s\<lparr>eofbit := True, failbit := True\<rparr>)
      | c # cs \<Rightarrow> (Some c, s\<lparr>ibuf := cs\<rparr>))"

text \<open>\<^verbatim>\<open>is.peek()\<close>: \<open>None\<close> is \<^verbatim>\<open>traits::eof()\<close>; at the end of the input it sets
  \<^verbatim>\<open>eofbit\<close> only.\<close>

definition is_peek :: "istream \<Rightarrow> char option \<times> istream" where
  "is_peek s =
     (if \<not> good s then (None, s\<lparr>failbit := True\<rparr>)
      else case ibuf s of
        [] \<Rightarrow> (None, s\<lparr>eofbit := True\<rparr>)
      | c # cs \<Rightarrow> (Some c, s))"

text \<open>\<^verbatim>\<open>is.ignore()\<close>: extract one character and drop it.\<close>

definition is_ignore :: "istream \<Rightarrow> istream" where
  "is_ignore s =
     (if \<not> good s then s\<lparr>failbit := True\<rparr>
      else case ibuf s of [] \<Rightarrow> s\<lparr>eofbit := True\<rparr> | c # cs \<Rightarrow> s\<lparr>ibuf := cs\<rparr>)"

text \<open>\<^verbatim>\<open>is.putback(c)\<close> of the character extracted last; it clears \<^verbatim>\<open>eofbit\<close> first.\<close>

definition is_putback :: "char \<Rightarrow> istream \<Rightarrow> istream" where
  "is_putback c s = (if failbit s then s\<lparr>eofbit := False\<rparr> else s\<lparr>ibuf := c # ibuf s, eofbit := False\<rparr>)"

lemma istream_of_sel [simp, stream_simps]:
  "ibuf (istream_of s) = s" "eofbit (istream_of s) = False" "failbit (istream_of s) = False"
  by (simp_all add: istream_of_def)

lemma ibuf_upd_of [simp, stream_simps]: "(istream_of s)\<lparr>ibuf := t\<rparr> = istream_of t"
  by (simp add: istream_of_def)

lemma good_istream_of [simp]: "good (istream_of s)"
  by (simp add: good_def)

lemma good_ibuf_upd [simp]: "good (s\<lparr>ibuf := x\<rparr>) = good s"
  by (simp add: good_def)

lemma good_fail_upd [simp]: "\<not> good (s\<lparr>failbit := True\<rparr>)" "\<not> good (s\<lparr>eofbit := True\<rparr>)"
  by (simp_all add: good_def)

lemma good_eq_istream_of: "good s \<Longrightarrow> s = istream_of (ibuf s)"
  by (cases s) (simp add: good_def istream_of_def)

lemma is_get_of [simp, stream_simps]:
  "is_get (istream_of (c # cs)) = (Some c, istream_of cs)"
  "is_get (istream_of []) = (None, \<lparr>ibuf = [], eofbit = True, failbit = True\<rparr>)"
  by (simp_all add: is_get_def istream_of_def good_def)

lemma is_get_bad [simp]: "\<not> good s \<Longrightarrow> is_get s = (None, s\<lparr>failbit := True\<rparr>)"
  by (simp add: is_get_def)

lemma is_peek_of [simp, stream_simps]:
  "is_peek (istream_of (c # cs)) = (Some c, istream_of (c # cs))"
  "is_peek (istream_of []) = (None, \<lparr>ibuf = [], eofbit = True, failbit = False\<rparr>)"
  by (simp_all add: is_peek_def istream_of_def good_def)

lemma is_ignore_of [simp, stream_simps]: "is_ignore (istream_of (c # cs)) = istream_of cs"
  by (simp add: is_ignore_def istream_of_def good_def)

lemma is_putback_of [simp, stream_simps]: "is_putback c (istream_of cs) = istream_of (c # cs)"
  by (simp add: is_putback_def istream_of_def)

lemma is_get_Some:
  "is_get s = (Some c, s') \<longleftrightarrow> good s \<and> (\<exists>cs. ibuf s = c # cs \<and> s' = s\<lparr>ibuf := cs\<rparr>)"
  by (auto simp: is_get_def split: list.splits if_splits)

lemma is_get_Some_good: "is_get s = (Some c, s') \<Longrightarrow> good s'"
  by (auto simp: is_get_Some)

lemma is_get_Some_length: "is_get s = (Some c, s') \<Longrightarrow> length (ibuf s) = Suc (length (ibuf s'))"
  by (auto simp: is_get_Some)

lemma is_get_None:
  "is_get s = (None, s') \<Longrightarrow> \<not> good s' \<and> failbit s' \<and> ibuf s' = ibuf s \<and> (good s \<longrightarrow> ibuf s = [] \<and> eofbit s')
     \<and> (eofbit s \<longrightarrow> eofbit s')"
  by (auto simp: is_get_def good_def split: list.splits if_splits)

lemma is_peek_keeps:
  "is_peek s = (r, s') \<Longrightarrow> ibuf s' = ibuf s"
  by (auto simp: is_peek_def split: list.splits if_splits)

lemma is_peek_Some: "is_peek s = (Some c, s') \<longleftrightarrow> good s \<and> s' = s \<and> (\<exists>cs. ibuf s = c # cs)"
  by (auto simp: is_peek_def split: list.splits if_splits)

lemma is_ignore_length: "length (ibuf (is_ignore s)) \<le> length (ibuf s)"
  by (auto simp: is_ignore_def split: list.splits)

section \<open>Character loops\<close>

text \<open>\<^verbatim>\<open>while (is.get(c) && P(c)) {}\<close>: the character that stopped the loop, if one did, the
  characters consumed before it, and the stream.\<close>

function get_while :: "(char \<Rightarrow> bool) \<Rightarrow> istream \<Rightarrow> string \<times> char option \<times> istream" where
  "get_while P s =
     (case is_get s of
        (None, s') \<Rightarrow> ([], None, s')
      | (Some c, s') \<Rightarrow>
          if P c then (case get_while P s' of (cs, r, t) \<Rightarrow> (c # cs, r, t)) else ([], Some c, s'))"
  by pat_completeness auto
termination
  by (relation "measure (\<lambda>(P, s). length (ibuf s))") (auto dest!: is_get_Some_length [OF sym])

declare get_while.simps [simp del]

lemma get_while_of:
  "get_while P (istream_of s) =
     (takeWhile P s,
      (case dropWhile P s of [] \<Rightarrow> (None, \<lparr>ibuf = [], eofbit = True, failbit = True\<rparr>)
       | c # cs \<Rightarrow> (Some c, istream_of cs)))"
  by (induction s) (simp_all add: get_while.simps split: list.splits)

lemma get_while_bad: "\<not> good s \<Longrightarrow> get_while P s = ([], None, s\<lparr>failbit := True\<rparr>)"
  by (simp add: get_while.simps)

lemma get_while_length:
  "get_while P s = (cs, r, t) \<Longrightarrow>
     length (ibuf t) + length cs + (if r = None then 0 else 1) \<le> length (ibuf s)"
proof (cases "good s")
  case True
  assume "get_while P s = (cs, r, t)"
  with good_eq_istream_of [OF True] have "get_while P (istream_of (ibuf s)) = (cs, r, t)"
    by simp
  moreover have "length (takeWhile P (ibuf s)) + length (dropWhile P (ibuf s)) = length (ibuf s)"
    by (simp flip: length_append)
  ultimately show ?thesis
    by (auto simp: get_while_of split: list.splits)
next
  case False
  assume "get_while P s = (cs, r, t)"
  with False show ?thesis by (auto simp: get_while_bad)
qed

lemma get_while_Some_good:
  assumes "get_while P s = (cs, Some c, t)"
  shows "good s" "good t" "\<not> P c"
proof -
  show g: "good s"
    using assms by (rule contrapos_pp) (simp add: get_while_bad)
  have "get_while P (istream_of (ibuf s)) = (cs, Some c, t)"
    using assms good_eq_istream_of [OF g] by simp
  then show "good t" "\<not> P c"
    by (auto simp: get_while_of split: list.splits dest: dropWhile_eq_Cons_conv [THEN iffD1])
qed

lemma get_while_split:
  assumes "get_while P s = (cs, oc, t)"
  shows "ibuf s = cs @ (case oc of None \<Rightarrow> [] | Some c \<Rightarrow> [c]) @ ibuf t"
    and "\<forall>c \<in> set cs. P c"
    and "good s \<Longrightarrow> oc = None \<longleftrightarrow> eofbit t"
proof -
  have "ibuf s = cs @ (case oc of None \<Rightarrow> [] | Some c \<Rightarrow> [c]) @ ibuf t \<and> (\<forall>c \<in> set cs. P c)
    \<and> (good s \<longrightarrow> (oc = None \<longleftrightarrow> eofbit t))"
  proof (cases "good s")
    case True
    with assms good_eq_istream_of [OF True] have "get_while P (istream_of (ibuf s)) = (cs, oc, t)"
      by simp
    moreover have "dropWhile P (ibuf s) = [] \<Longrightarrow> takeWhile P (ibuf s) = ibuf s"
      by (metis append_Nil2 takeWhile_dropWhile_id)
    moreover have "dropWhile P (ibuf s) = a # l \<Longrightarrow> takeWhile P (ibuf s) @ a # l = ibuf s" for a l
      by (metis takeWhile_dropWhile_id)
    ultimately show ?thesis
      by (auto simp: get_while_of dest: set_takeWhileD split: list.splits)
  next
    case False
    with assms show ?thesis by (auto simp: get_while_bad)
  qed
  then show "ibuf s = cs @ (case oc of None \<Rightarrow> [] | Some c \<Rightarrow> [c]) @ ibuf t"
    "\<forall>c \<in> set cs. P c" "good s \<Longrightarrow> oc = None \<longleftrightarrow> eofbit t"
    by blast+
qed

end
