(* ===== verification/Doubles.thy ===== *)
theory Doubles
  imports Base Complex_Main "HOL-Library.Log_Nat"
begin

text \<open>
  IEEE 754 binary64 values, as the C++ \<^verbatim>\<open>double\<close>: a finite value is the rational number it
  denotes (the two zeros, which no comparison of the sources tells apart, are one value), and
  every operation rounds its exact result to nearest, ties to even. \<open>to_double\<close> is executable,
  so a witness computes with the very values the program has.
\<close>

datatype double = Fin rat | Inf bool | NaN
  \<comment> \<open>\<open>Inf True\<close> is negative infinity\<close>

section \<open>Rounding\<close>

text \<open>Round a rational to an integer, ties to even (\<^verbatim>\<open>llrint\<close>), and ties away from
  zero (\<^verbatim>\<open>std::round\<close>).\<close>

definition round_even :: "rat \<Rightarrow> int" where
  "round_even x =
     (let n = \<lfloor>x\<rfloor>; d = x - of_int n
      in if d < 1/2 then n else if d > 1/2 then n + 1 else if even n then n else n + 1)"

definition round_away :: "rat \<Rightarrow> int" where
  "round_away x = (if 0 \<le> x then \<lfloor>x + 1/2\<rfloor> else - \<lfloor>- x + 1/2\<rfloor>)"

text \<open>The exponent \<open>e\<close> with \<open>2 ^ e \<le> m < 2 ^ (e + 1)\<close>, for positive \<open>m\<close>.\<close>

definition pow2 :: "int \<Rightarrow> rat" where
  "pow2 e = (if 0 \<le> e then 2 ^ nat e else 1 / 2 ^ nat (- e))"

definition exponent :: "rat \<Rightarrow> int" where
  "exponent m =
     (case quotient_of m of (p, q) \<Rightarrow>
        let e = int (floorlog 2 (nat p)) - int (floorlog 2 (nat q))
        in if pow2 e \<le> m then e else e - 1)"

text \<open>
  The spacing of binary64 values at \<open>m\<close>: 53 significant bits, and no finer than
  \<open>2 ^ (- 1074)\<close>.
\<close>

definition ulp_exp :: "rat \<Rightarrow> int" where
  "ulp_exp m = max (exponent m - 52) (- 1074)"

definition max_double :: rat where
  "max_double = (2 ^ 53 - 1) * 2 ^ 971"

definition to_double :: "rat \<Rightarrow> double" where
  "to_double x =
     (if x = 0 then Fin 0
      else let u = pow2 (ulp_exp \<bar>x\<bar>); r = of_int (round_even (x / u)) * u
           in if \<bar>r\<bar> \<le> max_double then Fin r else Inf (x < 0))"

section \<open>Comparisons and arithmetic\<close>

fun dless :: "double \<Rightarrow> double \<Rightarrow> bool" where
  "dless (Fin x) (Fin y) = (x < y)"
| "dless (Fin _) (Inf n) = (\<not> n)"
| "dless (Inf n) (Fin _) = n"
| "dless (Inf m) (Inf n) = (m \<and> \<not> n)"
| "dless NaN _ = False"
| "dless _ NaN = False"

text \<open>\<^verbatim>\<open>==\<close>: a NaN equals nothing, itself included.\<close>

fun deq :: "double \<Rightarrow> double \<Rightarrow> bool" where
  "deq NaN _ = False"
| "deq _ NaN = False"
| "deq x y = (x = y)"

definition dle :: "double \<Rightarrow> double \<Rightarrow> bool" where
  "dle x y \<longleftrightarrow> dless x y \<or> deq x y"

fun dneg :: "double \<Rightarrow> double" where
  "dneg (Fin x) = Fin (- x)"
| "dneg (Inf n) = Inf (\<not> n)"
| "dneg NaN = NaN"

fun dadd :: "double \<Rightarrow> double \<Rightarrow> double" where
  "dadd (Fin x) (Fin y) = to_double (x + y)"
| "dadd (Fin _) (Inf n) = Inf n"
| "dadd (Inf n) (Fin _) = Inf n"
| "dadd (Inf m) (Inf n) = (if m = n then Inf m else NaN)"
| "dadd NaN _ = NaN"
| "dadd _ NaN = NaN"

definition dsub :: "double \<Rightarrow> double \<Rightarrow> double" where
  "dsub x y = dadd x (dneg y)"

fun dmul :: "double \<Rightarrow> double \<Rightarrow> double" where
  "dmul (Fin x) (Fin y) = to_double (x * y)"
| "dmul (Fin x) (Inf n) = (if x = 0 then NaN else Inf ((x < 0) \<noteq> n))"
| "dmul (Inf n) (Fin x) = (if x = 0 then NaN else Inf ((x < 0) \<noteq> n))"
| "dmul (Inf m) (Inf n) = Inf (m \<noteq> n)"
| "dmul NaN _ = NaN"
| "dmul _ NaN = NaN"

text \<open>Division by the (positive) zero gives an infinity, as IEEE 754 prescribes.\<close>

fun ddiv :: "double \<Rightarrow> double \<Rightarrow> double" where
  "ddiv (Fin x) (Fin y) =
     (if y = 0 then (if x = 0 then NaN else Inf (x < 0)) else to_double (x / y))"
| "ddiv (Fin _) (Inf _) = Fin 0"
| "ddiv (Inf n) (Fin y) = Inf (n \<noteq> (y < 0))"
| "ddiv (Inf _) (Inf _) = NaN"
| "ddiv NaN _ = NaN"
| "ddiv _ NaN = NaN"

text \<open>\<^verbatim>\<open>std::floor\<close> and \<^verbatim>\<open>std::round\<close>: exact, since every double of at least \<open>2 ^ 52\<close> is an
  integer.\<close>

fun dfloor :: "double \<Rightarrow> double" where
  "dfloor (Fin x) = Fin (of_int \<lfloor>x\<rfloor>)"
| "dfloor x = x"

fun dround :: "double \<Rightarrow> double" where
  "dround (Fin x) = Fin (of_int (round_away x))"
| "dround x = x"

section \<open>Exactness\<close>

text \<open>A \<^verbatim>\<open>long\<close> has 64 bits; converting a double to it truncates towards zero, and is undefined for a
  value outside its range and for a NaN.\<close>

definition long_min :: int where "long_min = - (2 ^ 63)"
definition long_max :: int where "long_max = 2 ^ 63 - 1"

text \<open>Conversion of a double to \<^verbatim>\<open>long\<close> truncates towards zero.\<close>

definition trunc :: "rat \<Rightarrow> int" where
  "trunc x = (if 0 \<le> x then \<lfloor>x\<rfloor> else - \<lfloor>- x\<rfloor>)"

fun to_long :: "double \<Rightarrow> int result" where
  "to_long (Fin x) =
     (if long_min \<le> trunc x \<and> trunc x \<le> long_max then Inr (trunc x)
      else Inl (Undefined ''double out of range of long''))"
| "to_long _ = Inl (Undefined ''double out of range of long'')"

lemma round_even_of_int [simp]: "round_even (of_int n) = n"
  by (simp add: round_even_def)

lemma round_even_nonneg: "0 \<le> x \<Longrightarrow> 0 \<le> round_even x"
  by (auto simp: round_even_def Let_def)

lemma round_even_nonpos: "x \<le> 0 \<Longrightarrow> round_even x \<le> 0"
proof -
  assume x: "x \<le> 0"
  show ?thesis
  proof (cases "x = 0")
    case False
    with x have "\<lfloor>x\<rfloor> \<le> -1" by (simp add: floor_le_iff)
    then show ?thesis by (auto simp: round_even_def Let_def)
  qed (simp add: round_even_def)
qed

lemma pow2_pos [simp]: "0 < pow2 e"
  by (simp add: pow2_def)

lemma pow2_nonpos: "e \<le> 0 \<Longrightarrow> pow2 e = 1 / 2 ^ nat (- e)"
  by (auto simp: pow2_def)

lemma exponent_of_nat_less:
  assumes "n < 2 ^ k"
  shows "exponent (of_nat n) < int k"
proof -
  have "floorlog 2 n \<le> k"
    using assms by (intro floorlog_leI) simp_all
  moreover have "floorlog 2 (Suc 0) = 1"
    by (simp add: floorlog_def)
  ultimately show ?thesis
    by (simp add: exponent_def Let_def)
qed

lemma int_le_max_double: "\<bar>i\<bar> < 2 ^ 53 \<Longrightarrow> \<bar>rat_of_int i\<bar> \<le> max_double"
proof -
  assume "\<bar>i\<bar> < 2 ^ 53"
  then have "rat_of_int \<bar>i\<bar> \<le> of_int (2 ^ 53 - 1)"
    by (simp only: of_int_le_iff)
  also have "\<dots> \<le> (2 ^ 53 - 1) * 2 ^ 971"
    by (rule order_trans [OF _ mult_left_mono [OF one_le_power]]) simp_all
  finally show ?thesis by (simp only: max_double_def of_int_abs)
qed

lemma to_double_of_int [simp]:
  assumes "\<bar>i\<bar> < 2 ^ 53"
  shows "to_double (of_int i) = Fin (of_int i)"
proof (cases "i = 0")
  case False
  let ?n = "nat \<bar>i\<bar>"
  have abs: "\<bar>rat_of_int i\<bar> = of_nat ?n" by simp
  have "?n < 2 ^ 53" using assms by simp
  then have "exponent (of_nat ?n) < int 53" by (rule exponent_of_nat_less)
  then have u: "ulp_exp \<bar>rat_of_int i\<bar> \<le> 0" unfolding abs ulp_exp_def by linarith
  define k where "k = nat (- ulp_exp \<bar>rat_of_int i\<bar>)"
  have p: "pow2 (ulp_exp \<bar>rat_of_int i\<bar>) = 1 / 2 ^ k"
    using u by (simp add: pow2_nonpos k_def)
  have "rat_of_int i / (1 / 2 ^ k) = of_int (i * 2 ^ k)" by simp
  then have "of_int (round_even (rat_of_int i / (1 / 2 ^ k))) * (1 / 2 ^ k) = rat_of_int i"
    by (simp only: round_even_of_int) simp
  moreover have "\<bar>rat_of_int i\<bar> \<le> max_double"
    using int_le_max_double [OF assms] .
  ultimately show ?thesis
    using False unfolding to_double_def Let_def p by simp
qed (simp add: to_double_def)

lemma to_double_of_nat [simp]: "n < 2 ^ 53 \<Longrightarrow> to_double (of_nat n) = Fin (of_nat n)"
  using to_double_of_int [of "int n"] by simp

text \<open>Rounding keeps the sign.\<close>

lemma to_double_nonneg:
  assumes "0 \<le> x"
  shows "dle (Fin 0) (to_double x)"
proof -
  define r where "r = rat_of_int (round_even (x / pow2 (ulp_exp \<bar>x\<bar>))) * pow2 (ulp_exp \<bar>x\<bar>)"
  have "0 \<le> r"
    unfolding r_def using assms
    by (intro mult_nonneg_nonneg) (simp_all add: round_even_nonneg less_imp_le)
  moreover have "to_double x = (if x = 0 then Fin 0 else if \<bar>r\<bar> \<le> max_double then Fin r else Inf (x < 0))"
    by (simp add: to_double_def Let_def r_def)
  ultimately show ?thesis
    using assms by (auto simp: dle_def)
qed

lemma pow2_powi: "pow2 e = 2 powi e"
  by (cases "0 \<le> e") (auto simp: pow2_def power_int_def power_one_over inverse_eq_divide)

lemma pow2_exponent_le:
  assumes "0 < m"
  shows "pow2 (exponent m) \<le> m"
proof -
  obtain p q where pq: "quotient_of m = (p, q)" by (cases "quotient_of m")
  have m: "m = of_int p / of_int q" "q > 0"
    using quotient_of_div [OF pq] quotient_of_denom_pos [OF pq] by simp_all
  then have p: "p > 0" using assms by (simp add: zero_less_divide_iff)
  let ?a = "floorlog 2 (nat p)" and ?b = "floorlog 2 (nat q)"
  have "2 ^ (?a - 1) \<le> nat p" "?a \<noteq> 0" using floorlog_bounds [of "nat p" 2] p by (auto simp: floorlog_eq_zero_iff)
  then have "2 ^ (?a - 1) \<le> p" using p by (simp add: le_nat_iff)
  then have a: "2 ^ (?a - 1) \<le> rat_of_int p" by (metis of_int_le_iff of_int_numeral of_int_power)
  have "nat q < 2 ^ ?b" using floorlog_bounds [of "nat q" 2] m(2) by simp
  then have "q \<le> 2 ^ ?b" using m(2) by (simp add: nat_less_iff)
  then have b: "rat_of_int q \<le> 2 ^ ?b" by (metis of_int_le_iff of_int_numeral of_int_power)
  have "pow2 (int ?a - int ?b - 1) = 2 ^ (?a - 1) / 2 ^ ?b"
    using \<open>?a \<noteq> 0\<close> by (simp add: pow2_powi power_int_diff power_diff)
  also have "\<dots> \<le> m" unfolding m(1) using a b m(2) p by (intro frac_le) simp_all
  finally show ?thesis by (simp add: exponent_def pq Let_def)
qed

lemma exponent_less:
  assumes "0 < m" "m < 2 ^ k"
  shows "exponent m < int k"
proof (rule ccontr)
  assume "\<not> exponent m < int k"
  then have "(2::rat) powi int k \<le> 2 powi exponent m" by (intro power_int_increasing) simp_all
  with pow2_exponent_le [OF assms(1)] assms(2) show False by (simp add: pow2_powi)
qed

lemma round_even_le: "x \<le> of_int n \<Longrightarrow> round_even x \<le> n"
proof -
  assume x: "x \<le> of_int n"
  show ?thesis
  proof (cases "x = of_int n")
    case False
    with x have "\<lfloor>x\<rfloor> < n" by (simp add: floor_less_iff)
    then show ?thesis by (auto simp: round_even_def Let_def)
  qed simp
qed

lemma round_even_ge: "of_int n \<le> x \<Longrightarrow> n \<le> round_even x"
  using le_floor_iff [of n x] by (auto simp: round_even_def Let_def)

text \<open>Rounding does not cross an integer.\<close>

lemma to_double_between:
  assumes "0 \<le> a" "of_int a \<le> x" "x \<le> of_int n" "n < 2 ^ 53"
  obtains r where "to_double x = Fin r" "of_int a \<le> r" "r \<le> of_int n"
proof (cases "x = 0")
  case True
  with that [of 0] assms show ?thesis by (simp add: to_double_def)
next
  case False
  have x0: "0 \<le> x" using assms(1,2) by (metis of_int_0_le_iff order_trans)
  have "rat_of_int n < of_int (2 ^ 53)" using assms(4) by (simp only: of_int_less_iff)
  then have "x < 2 ^ 53" using assms(3) by simp
  with False x0 have "exponent \<bar>x\<bar> < int 53" using exponent_less [of "\<bar>x\<bar>" 53] by simp
  then have u: "ulp_exp \<bar>x\<bar> \<le> 0" unfolding ulp_exp_def by linarith
  define k where "k = nat (- ulp_exp \<bar>x\<bar>)"
  have p: "pow2 (ulp_exp \<bar>x\<bar>) = 1 / 2 ^ k" using u by (simp add: pow2_nonpos k_def)
  define r where "r = of_int (round_even (x * 2 ^ k)) * (1 / 2 ^ k :: rat)"
  have "x * 2 ^ k \<le> of_int (n * 2 ^ k)" "of_int (a * 2 ^ k) \<le> x * 2 ^ k" using assms(2,3) by simp_all
  then have "rat_of_int (round_even (x * 2 ^ k)) \<le> of_int (n * 2 ^ k)"
    "rat_of_int (a * 2 ^ k) \<le> of_int (round_even (x * 2 ^ k))"
    by (simp_all only: of_int_le_iff round_even_le round_even_ge)
  then have r1: "r \<le> of_int n" "of_int a \<le> r" by (simp_all add: r_def divide_simps)
  have r0: "0 \<le> r" using x0 by (simp add: r_def round_even_nonneg)
  have "0 \<le> n" using x0 assms(3) by (metis of_int_0_le_iff order_trans)
  then have "\<bar>r\<bar> \<le> max_double" using int_le_max_double [of n] r0 r1 assms(4) by simp
  then have "to_double x = Fin r"
    using False p by (simp add: to_double_def Let_def r_def)
  with r1 that show ?thesis by blast
qed

text \<open>A number with 53 significant bits and few of them behind the point is a double.\<close>

lemma exponent_less_pow2:
  assumes "0 < m" "m < pow2 k"
  shows "exponent m < k"
proof (rule ccontr)
  assume "\<not> exponent m < k"
  then have "(2::rat) powi k \<le> 2 powi exponent m" by (intro power_int_increasing) simp_all
  with pow2_exponent_le [OF assms(1)] assms(2) show False by (simp add: pow2_powi)
qed

lemma to_double_dyadic:
  assumes "\<bar>i\<bar> < 2 ^ 53" "j \<le> 1000"
  shows "to_double (of_int i / 2 ^ j) = Fin (of_int i / 2 ^ j)"
proof (cases "i = 0")
  case False
  let ?x = "rat_of_int i / 2 ^ j"
  have "rat_of_int \<bar>i\<bar> < of_int (2 ^ 53)" using assms(1) by (simp only: of_int_less_iff)
  then have a: "rat_of_int \<bar>i\<bar> < 2 ^ 53" by simp
  have "\<bar>?x\<bar> = rat_of_int \<bar>i\<bar> / 2 ^ j" by (simp add: abs_divide)
  also have "\<dots> < 2 ^ 53 / 2 ^ j" using a by (simp add: divide_strict_right_mono)
  also have "\<dots> = pow2 (53 - int j)" by (simp add: pow2_powi power_int_diff)
  finally have "exponent \<bar>?x\<bar> < 53 - int j" using False by (intro exponent_less_pow2) simp_all
  then have u: "ulp_exp \<bar>?x\<bar> \<le> - int j" using assms(2) unfolding ulp_exp_def by linarith
  define k where "k = nat (- ulp_exp \<bar>?x\<bar>)"
  have p: "pow2 (ulp_exp \<bar>?x\<bar>) = 1 / 2 ^ k" and jk: "j \<le> k"
    using u by (simp_all add: pow2_nonpos k_def)
  from jk obtain d where k: "k = j + d" using le_Suc_ex by blast
  have "?x / (1 / 2 ^ k) = of_int (i * 2 ^ d)"
    by (simp add: k power_add)
  then have r: "of_int (round_even (?x / (1 / 2 ^ k))) * (1 / 2 ^ k) = ?x"
    by (simp only: round_even_of_int) (simp add: k power_add)
  have "\<bar>?x\<bar> \<le> \<bar>rat_of_int i\<bar>" by (simp add: abs_divide divide_le_eq mult_le_cancel_left1)
  then have "\<bar>?x\<bar> \<le> max_double" using int_le_max_double [OF assms(1)] by linarith
  then show ?thesis using False r unfolding to_double_def Let_def p by simp
qed (simp add: to_double_def)

lemma half_double: "to_double (1 / 2) = Fin (1 / 2)"
  using to_double_dyadic [of 1 1] by simp

section \<open>Printing\<close>

text \<open>\<^verbatim>\<open>os << x\<close> with the default format: \<open>%g\<close>, six significant digits.\<close>

definition pow10 :: "int \<Rightarrow> rat" where
  "pow10 e = (if 0 \<le> e then 10 ^ nat e else 1 / 10 ^ nat (- e))"

definition dec_exponent :: "rat \<Rightarrow> int" where
  "dec_exponent m =
     (case quotient_of m of (p, q) \<Rightarrow>
        let e = int (length (nat_to_string (nat p))) - int (length (nat_to_string (nat q)))
        in if pow10 e \<le> m then e else e - 1)"

definition pad_zeros :: "nat \<Rightarrow> string \<Rightarrow> string" where
  "pad_zeros w s = replicate (w - length s) CHR ''0'' @ s"

text \<open>A nonnegative rational with \<open>d\<close> decimals (\<open>%.df\<close>).\<close>

definition fixed_digits :: "nat \<Rightarrow> rat \<Rightarrow> string" where
  "fixed_digits d m =
     (let n = nat (round_even (m * 10 ^ d)); s = pad_zeros (Suc d) (nat_to_string n)
      in if d = 0 then s
         else take (length s - d) s @ ''.'' @ drop (length s - d) s)"

definition strip_trailing_zeros :: "string \<Rightarrow> string" where
  "strip_trailing_zeros s =
     (if CHR ''.'' \<in> set s
      then let t = rev (dropWhile (\<lambda>c. c = CHR ''0'') (rev s))
           in if last t = CHR ''.'' then butlast t else t
      else s)"

definition show_pos :: "rat \<Rightarrow> string" where
  "show_pos m =
     (let e = dec_exponent m;
          e' = (if round_even (m / pow10 (e - 5)) = 10 ^ 6 then e + 1 else e)
      in if - 4 \<le> e' \<and> e' < 6 then strip_trailing_zeros (fixed_digits (nat (5 - e')) m)
         else strip_trailing_zeros (fixed_digits 5 (of_int (round_even (m / pow10 (e' - 5))) / 10 ^ 5))
                @ ''e'' @ (if e' < 0 then ''-'' else ''+'')
                @ pad_zeros 2 (nat_to_string (nat \<bar>e'\<bar>)))"

fun show_double :: "double \<Rightarrow> string" where
  "show_double (Fin x) =
     (if x = 0 then ''0'' else if x < 0 then CHR ''-'' # show_pos (- x) else show_pos x)"
| "show_double (Inf n) = (if n then ''-inf'' else ''inf'')"
| "show_double NaN = ''nan''"

text \<open>\<open>%.df\<close> of a double, and the zero padded \<open>%0w.df\<close>.\<close>

fun fixed_double :: "nat \<Rightarrow> double \<Rightarrow> string" where
  "fixed_double d (Fin x) = (if x < 0 then CHR ''-'' # fixed_digits d (- x) else fixed_digits d x)"
| "fixed_double d (Inf n) = (if n then ''-inf'' else ''inf'')"
| "fixed_double d NaN = ''nan''"

definition pad_double :: "nat \<Rightarrow> nat \<Rightarrow> double \<Rightarrow> string" where
  "pad_double w d x =
     (let s = fixed_double d x
      in case x of
           Fin r \<Rightarrow> (if r < 0 then CHR ''-'' # pad_zeros (w - 1) (tl s) else pad_zeros w s)
         | _ \<Rightarrow> replicate (w - length s) CHR '' '' @ s)"

text \<open>\<^verbatim>\<open>std::to_string(double)\<close>: \<open>%f\<close>, six decimals.\<close>

fun double_to_string :: "double \<Rightarrow> string" where
  "double_to_string (Fin x) = (if x < 0 then CHR ''-'' # fixed_digits 6 (- x) else fixed_digits 6 x)"
| "double_to_string (Inf n) = (if n then ''-inf'' else ''inf'')"
| "double_to_string NaN = ''nan''"

end
