(* ===== verification/Lexer.thy ===== *)
theory Lexer
  imports Streams Doubles
begin

text \<open>
  The lexer of \<^verbatim>\<open>nanonet/registry.h\<close> and \<^verbatim>\<open>src/registry.cpp\<close>: tokens and styles, the
  object state as a record, \<open>get_token\<close> with its comment, string, number and identifier branches
  and every throw, and the functions that read one expected token. The extraction of a number,
  \<^verbatim>\<open>is >> num_value_ue_\<close>, is the standard library's (libstdc++, C locale).
\<close>

section \<open>Tokens and styles\<close>

datatype token =
    END | LP | RP | LB | RB | LBRACKET | RBRACKET | ASTERISKS | SLASH | HASH | PERCENT
  | ASSIGN | COMMA | DOUBLE_QUOTE | SINGLE_QUOTE | STRING | IDENT | NUM | NO_TOKEN

text \<open>The numeric values of the enumeration.\<close>

definition all_tokens :: "token list" where
  "all_tokens =
     [END, LP, RP, LB, RB, LBRACKET, RBRACKET, ASTERISKS, SLASH, HASH, PERCENT,
      ASSIGN, COMMA, DOUBLE_QUOTE, SINGLE_QUOTE, STRING, IDENT, NUM, NO_TOKEN]"

primrec token_index :: "token \<Rightarrow> nat" where
  "token_index END = 0"
| "token_index LP = 1"
| "token_index RP = 2"
| "token_index LB = 3"
| "token_index RB = 4"
| "token_index LBRACKET = 5"
| "token_index RBRACKET = 6"
| "token_index ASTERISKS = 7"
| "token_index SLASH = 8"
| "token_index HASH = 9"
| "token_index PERCENT = 10"
| "token_index ASSIGN = 11"
| "token_index COMMA = 12"
| "token_index DOUBLE_QUOTE = 13"
| "token_index SINGLE_QUOTE = 14"
| "token_index STRING = 15"
| "token_index IDENT = 16"
| "token_index NUM = 17"
| "token_index NO_TOKEN = 18"

lemma all_tokens_index [simp]: "all_tokens ! token_index t = t"
  by (cases t) (simp_all add: all_tokens_def)

lemma token_index_inject: "token_index s = token_index t \<longleftrightarrow> s = t"
  by (metis all_tokens_index)

text \<open>The comparison of enumerators, which \<^verbatim>\<open>token_name\<close> relies on.\<close>

instantiation token :: linorder
begin

definition less_eq_token :: "token \<Rightarrow> token \<Rightarrow> bool" where
  "less_eq_token s t \<longleftrightarrow> token_index s \<le> token_index t"

definition less_token :: "token \<Rightarrow> token \<Rightarrow> bool" where
  "less_token s t \<longleftrightarrow> token_index s < token_index t"

instance
  by standard (auto simp: less_eq_token_def less_token_def token_index_inject)

end

text \<open>\<^verbatim>\<open>static_cast<token>(static_cast<int>(t) + 1)\<close>; the value one past the last enumerator
  has no name and does not occur.\<close>

definition closing_token :: "token \<Rightarrow> token" where
  "closing_token t = (if Suc (token_index t) < length all_tokens then all_tokens ! Suc (token_index t) else NO_TOKEN)"

datatype comment_style_t = c_comments | hash_comments | percent_comments

datatype string_quote_style_t = single_quote | double_quote

record lexer_style_t =
  comment_style :: comment_style_t
  string_quote_style :: string_quote_style_t

definition default_lexer_style :: lexer_style_t where
  "default_lexer_style = \<lparr>comment_style = hash_comments, string_quote_style = double_quote\<rparr>"

definition token_name_table :: "string list" where
  "token_name_table =
     [''end of file'', ''left parenthesis'', ''right parenthesis'', ''left brace'', ''right brace'',
      ''left bracket'', ''right bracket'', ''`*'' @ [squote], ''`/'' @ [squote], ''`#'' @ [squote],
      ''`%'' @ [squote], ''`='' @ [squote], ''comma'', ''double quote'', ''single quote'',
      ''character string'', ''identifier'', ''number'']"

definition token_name :: "token \<Rightarrow> string result" where
  "token_name t =
     (if length token_name_table \<noteq> token_index NO_TOKEN \<or> \<not> t < NO_TOKEN
      then Inl (Assertion_failure ''token_name'')
      else Inr (token_name_table ! token_index t))"

definition char_token :: "char \<Rightarrow> token result" where
  "char_token c =
     (if c = CHR ''('' then Inr LP
      else if c = CHR '')'' then Inr RP
      else if c = CHR ''{'' then Inr LB
      else if c = CHR ''}'' then Inr RB
      else if c = CHR ''['' then Inr LBRACKET
      else if c = CHR '']'' then Inr RBRACKET
      else if c = CHR ''/'' then Inr SLASH
      else if c = CHR ''#'' then Inr HASH
      else if c = CHR ''%'' then Inr PERCENT
      else if c = CHR '','' then Inr COMMA
      else if c = CHR ''='' then Inr ASSIGN
      else if c = CHR ''*'' then Inr ASTERISKS
      else Inl (Runtime_error (''unknown input character: '' @ [c])))"

definition isnewline :: "char \<Rightarrow> bool" where
  "isnewline c \<longleftrightarrow> c = newline_char"

section \<open>Extraction of a number\<close>

text \<open>The characters that \<^verbatim>\<open>num_get\<close> accumulates for a floating point field, after the sign;
  the flags record a digit, a decimal point and an exponent seen so far.\<close>

fun scan_float :: "bool \<Rightarrow> bool \<Rightarrow> bool \<Rightarrow> string \<Rightarrow> string \<times> string" where
  "scan_float mant dec sci [] = ([], [])"
| "scan_float mant dec sci (c # cs) =
     (if isdigit c then (case scan_float True dec sci cs of (f, r) \<Rightarrow> (c # f, r))
      else if c = CHR ''.'' \<and> \<not> dec \<and> \<not> sci then
        (case scan_float mant True sci cs of (f, r) \<Rightarrow> (c # f, r))
      else if (c = CHR ''e'' \<or> c = CHR ''E'') \<and> \<not> sci \<and> mant then
        (case cs of
           [] \<Rightarrow> ([CHR ''e''], [])
         | d # ds \<Rightarrow>
             if d = CHR ''+'' \<or> d = CHR ''-'' then
               (case scan_float mant dec True ds of (f, r) \<Rightarrow> (CHR ''e'' # d # f, r))
             else (case scan_float mant dec True cs of (f, r) \<Rightarrow> (CHR ''e'' # f, r)))
      else ([], c # cs))"

definition float_field :: "string \<Rightarrow> string \<times> string" where
  "float_field s =
     (case s of
        c # cs \<Rightarrow>
          if c = CHR ''+'' \<or> c = CHR ''-'' then
            (case scan_float False False False cs of (f, r) \<Rightarrow> (c # f, r))
          else scan_float False False False s
      | [] \<Rightarrow> ([], []))"

definition split_sign :: "string \<Rightarrow> bool \<times> string" where
  "split_sign s =
     (case s of c # cs \<Rightarrow> (if c = CHR ''-'' then (True, cs) else if c = CHR ''+'' then (False, cs) else (False, s))
      | [] \<Rightarrow> (False, []))"

text \<open>\<^verbatim>\<open>strtod\<close> on an accumulated field: \<open>None\<close> when it does not convert the whole field.\<close>

definition strtod_exact :: "string \<Rightarrow> rat option" where
  "strtod_exact field =
     (let (neg, f) = split_sign field;
          ip = takeWhile isdigit f; f1 = dropWhile isdigit f;
          fp = (case f1 of c # g \<Rightarrow> if c = CHR ''.'' then takeWhile isdigit g else [] | [] \<Rightarrow> []);
          f2 = (case f1 of c # g \<Rightarrow> if c = CHR ''.'' then dropWhile isdigit g else f1 | [] \<Rightarrow> []);
          (eneg, ed) = split_sign (tl f2);
          m = of_nat (digits_val 0 (ip @ fp)) / 10 ^ length fp;
          x = digits_val 0 ed;
          v = (if eneg then m / 10 ^ x else m * 10 ^ x)
      in if ip @ fp = [] \<or> (f2 \<noteq> [] \<and> ed = []) then None
         else Some (if neg then - v else v))"

text \<open>\<^verbatim>\<open>is >> x\<close> for a \<^verbatim>\<open>double\<close> on a stream whose next character is not a space: the
  value stored and the stream, whose \<^verbatim>\<open>failbit\<close> reports a field that is no number or overflows.\<close>

definition extract_double :: "istream \<Rightarrow> double \<times> istream" where
  "extract_double s =
     (let (field, rest) = float_field (ibuf s);
          t = s\<lparr>ibuf := rest, eofbit := (rest = [])\<rparr>
      in case strtod_exact field of
           None \<Rightarrow> (Fin 0, t\<lparr>failbit := True\<rparr>)
         | Some v \<Rightarrow>
             (case to_double v of
                Inf n \<Rightarrow> (Fin (if n then - max_double else max_double), t\<lparr>failbit := True\<rparr>)
              | d \<Rightarrow> (d, t)))"

section \<open>The lexer object\<close>

record lexer =
  is_stream :: istream
  style :: lexer_style_t
  current_token :: token
  string_val :: string
  num_val :: double
  line_no :: nat
  lex_filename :: string
  hold :: bool
  lex_state :: bool

definition new_lexer :: "istream \<Rightarrow> string \<Rightarrow> lexer_style_t \<Rightarrow> lexer" where
  "new_lexer is fname s =
     \<lparr>is_stream = is, style = s, current_token = END, string_val = [], num_val = Fin 0,
      line_no = 1, lex_filename = fname, hold = False, lex_state = True\<rparr>"

definition set_style :: "lexer_style_t \<Rightarrow> lexer \<Rightarrow> lexer" where
  "set_style ls lx = lx\<lparr>style := ls\<rparr>"

definition set_state :: "bool \<Rightarrow> lexer \<Rightarrow> lexer" where
  "set_state b lx = lx\<lparr>lex_state := b\<rparr>"

definition putback :: "lexer \<Rightarrow> lexer" where
  "putback lx = lx\<lparr>hold := True\<rparr>"

definition string_value :: "(lexer, string) sx" where
  "string_value lx =
     (if current_token lx = STRING \<or> current_token lx = IDENT then (Inr (string_val lx), lx)
      else (Inl (Abort ''string_value''), lx))"

definition num_value :: "(lexer, double) sx" where
  "num_value lx =
     (if current_token lx = NUM then (Inr (num_val lx), lx) else (Inl (Abort ''num_value''), lx))"

definition quote_char :: "lexer \<Rightarrow> char" where
  "quote_char lx = (if string_quote_style (style lx) = single_quote then squote else dquote)"

definition comment_char :: "lexer \<Rightarrow> char" where
  "comment_char lx = (if comment_style (style lx) = hash_comments then CHR ''#'' else CHR ''%'')"

definition location :: "lexer \<Rightarrow> string" where
  "location lx = lex_filename lx @ '':'' @ nat_to_string (line_no lx) @ '': ''"

definition lex_error :: "lexer \<Rightarrow> string \<Rightarrow> exc" where
  "lex_error lx msg = Runtime_error (location lx @ msg)"

definition newlines :: "string \<Rightarrow> nat" where
  "newlines s = length (filter isnewline s)"

section \<open>get\_token\<close>

function munch_till_asterisks_slash :: "lexer \<Rightarrow> lexer" where
  "munch_till_asterisks_slash lx =
     (case get_while (\<lambda>c. c \<noteq> CHR ''*'') (is_stream lx) of
        (cs, oc, s) \<Rightarrow>
          let lx1 = lx\<lparr>is_stream := s, line_no := line_no lx + newlines cs\<rparr>
          in case oc of
               None \<Rightarrow> lx1
             | Some _ \<Rightarrow>
                 (case is_peek s of
                    (None, s') \<Rightarrow> lx1\<lparr>is_stream := s'\<rparr>
                  | (Some c, s') \<Rightarrow>
                      if c \<noteq> CHR ''/'' then munch_till_asterisks_slash (lx1\<lparr>is_stream := s'\<rparr>)
                      else lx1\<lparr>is_stream := is_ignore s'\<rparr>))"
  by pat_completeness auto
termination
  by (relation "measure (\<lambda>lx. length (ibuf (is_stream lx)))")
     (auto dest!: get_while_length [OF sym] is_peek_keeps [OF sym])

declare munch_till_asterisks_slash.simps [simp del]

text \<open>The \<^verbatim>\<open>while( 1 )\<close> loop of a quoted string: an error message or none, the value
  collected so far, and the stream.\<close>

function lex_string_loop :: "char \<Rightarrow> istream \<Rightarrow> string \<Rightarrow> string option \<times> string \<times> istream" where
  "lex_string_loop q s acc =
     (case is_get s of
        (None, s') \<Rightarrow> (Some ''unterminated string'', acc, s')
      | (Some c, s') \<Rightarrow>
          if isnewline c then (Some ''unterminated string'', acc, s')
          else if c = q then (None, acc, s')
          else if c = backslash then
            (case is_get s' of
               (None, t) \<Rightarrow> (Some ''bad escape sequence'', acc, t)
             | (Some cc, t) \<Rightarrow>
                 if q \<noteq> cc \<and> CHR ''n'' \<noteq> cc \<and> backslash \<noteq> cc
                 then (Some ''bad escape sequence'', acc, t)
                 else lex_string_loop q t
                        (acc @ [if q = cc then q else if CHR ''n'' = cc then newline_char else backslash]))
          else lex_string_loop q s' (acc @ [c]))"
  by pat_completeness auto
termination
  by (relation "measure (\<lambda>(q, s, acc). length (ibuf s))") (auto dest!: is_get_Some_length [OF sym])

declare lex_string_loop.simps [simp del]

text \<open>What the switch of \<^verbatim>\<open>get_token\<close> does with a character: return a token or throw, or
  \<^verbatim>\<open>goto restart\<close>.\<close>

datatype lexed = Done "token result" | Restart

definition return_token :: "token \<Rightarrow> lexer \<Rightarrow> lexed \<times> lexer" where
  "return_token t lx = (Done (Inr t), lx\<lparr>current_token := t\<rparr>)"

definition return_char_token :: "char \<Rightarrow> lexer \<Rightarrow> lexed \<times> lexer" where
  "return_char_token c lx =
     (case char_token c of Inl e \<Rightarrow> (Done (Inl e), lx) | Inr t \<Rightarrow> return_token t lx)"

text \<open>Munch a comment till end of line.\<close>

definition lex_line_comment :: "lexer \<Rightarrow> lexed \<times> lexer" where
  "lex_line_comment lx =
     (case get_while (\<lambda>c. \<not> isnewline c) (is_stream lx) of
        (_, _, s) \<Rightarrow>
          let lx1 = lx\<lparr>is_stream := s\<rparr>
          in if eofbit s then return_token END lx1
             else (Restart, lx1\<lparr>line_no := Suc (line_no lx1)\<rparr>))"

definition lex_hash_percent :: "char \<Rightarrow> lexer \<Rightarrow> lexed \<times> lexer" where
  "lex_hash_percent c lx =
     (if comment_style (style lx) = c_comments \<or> comment_char lx \<noteq> c
      then return_char_token c lx
      else lex_line_comment lx)"

definition lex_slash :: "lexer \<Rightarrow> lexed \<times> lexer" where
  "lex_slash lx =
     (case is_peek (is_stream lx) of
        (None, s) \<Rightarrow> return_token SLASH (lx\<lparr>is_stream := s\<rparr>)
      | (Some c, s) \<Rightarrow>
          if c = CHR ''/'' then
            (if comment_style (style lx) = hash_comments
             then return_token SLASH (lx\<lparr>is_stream := s\<rparr>)
             else lex_line_comment (lx\<lparr>is_stream := s\<rparr>))
          else if c = CHR ''*'' then
            (if comment_style (style lx) \<noteq> c_comments
             then return_token ASTERISKS (lx\<lparr>is_stream := s\<rparr>)
             else (Restart, munch_till_asterisks_slash (lx\<lparr>is_stream := is_ignore s\<rparr>)))
          else (Done (Inl (lex_error lx ''invalid start of C-style comment'')), lx\<lparr>is_stream := s\<rparr>))"

definition lex_quote :: "char \<Rightarrow> lexer \<Rightarrow> lexed \<times> lexer" where
  "lex_quote c lx =
     (if quote_char lx \<noteq> c then return_char_token c lx
      else case lex_string_loop (quote_char lx) (is_stream lx) [] of
             (Some msg, v, s) \<Rightarrow>
               (Done (Inl (lex_error lx msg)), lx\<lparr>is_stream := s, string_val := v\<rparr>)
           | (None, v, s) \<Rightarrow> return_token STRING (lx\<lparr>is_stream := s, string_val := v\<rparr>))"

definition lex_number :: "char \<Rightarrow> lexer \<Rightarrow> lexed \<times> lexer" where
  "lex_number c lx =
     (case extract_double (is_putback c (is_stream lx)) of
        (x, s) \<Rightarrow>
          let lx1 = lx\<lparr>is_stream := s, num_val := x\<rparr>
          in if failbit s then (Done (Inl (lex_error lx1 ''error reading floating point value'')), lx1)
             else return_token NUM lx1)"

definition lex_ident :: "char \<Rightarrow> lexer \<Rightarrow> lexed \<times> lexer" where
  "lex_ident c lx =
     (case get_while (\<lambda>d. isalnum d \<or> d = CHR ''_'') (is_stream lx) of
        (cs, oc, s) \<Rightarrow>
          return_token IDENT
            (lx\<lparr>is_stream := (case oc of None \<Rightarrow> s | Some d \<Rightarrow> is_putback d s),
                string_val := c # cs\<rparr>))"

definition lex_char :: "char \<Rightarrow> lexer \<Rightarrow> lexed \<times> lexer" where
  "lex_char c lx =
     (if c = CHR ''#'' \<or> c = CHR ''%'' then lex_hash_percent c lx
      else if c = CHR ''/'' then lex_slash lx
      else if c \<in> set ''=(){}[],'' then return_char_token c lx
      else if c = dquote \<or> c = squote then lex_quote c lx
      else if isdigit c \<or> c = CHR ''.'' \<or> c = CHR ''+'' \<or> c = CHR ''-'' then lex_number c lx
      else if isalpha c then lex_ident c lx
      else (Done (Inl (lex_error lx (''bad character in input ('' @ [c] @ '')''))), lx))"

text \<open>From the label \<^verbatim>\<open>restart\<close> to the switch: skip white space and read one character.\<close>

definition lex_start :: "lexer \<Rightarrow> token result option \<times> char \<times> lexer" where
  "lex_start lx =
     (case get_while isspace (is_stream lx) of
        (cs, oc, s) \<Rightarrow>
          let lx1 = lx\<lparr>is_stream := s, line_no := line_no lx + newlines cs\<rparr>
          in if eofbit s then (Some (Inr END), CHR 0x00, lx1\<lparr>current_token := END\<rparr>)
             else case oc of
                    None \<Rightarrow> (Some (Inl (lex_error lx1 ''read error'')), CHR 0x00, lx1)
                  | Some c \<Rightarrow> (None, c, lx1))"

function get_token_loop :: "lexer \<Rightarrow> token result \<times> lexer" where
  "get_token_loop lx =
     (case lex_start lx of
        (Some r, _, lx1) \<Rightarrow> (r, lx1)
      | (None, c, lx1) \<Rightarrow>
          (case lex_char c lx1 of
             (Done r, lx2) \<Rightarrow> (r, lx2)
           | (Restart, lx2) \<Rightarrow> get_token_loop lx2))"
  by pat_completeness auto

text \<open>No branch of the switch gives characters back beyond the one it was entered with, so a
  \<^verbatim>\<open>goto restart\<close> has consumed input.\<close>

abbreviation input_len :: "lexer \<Rightarrow> nat" where
  "input_len lx \<equiv> length (ibuf (is_stream lx))"

lemma lex_start_None:
  "lex_start lx = (None, c, lx1) \<Longrightarrow>
     input_len lx1 < input_len lx \<and> good (is_stream lx1) \<and> \<not> isspace c \<and> current_token lx1 = current_token lx"
  by (auto simp: lex_start_def Let_def split: prod.splits if_splits option.splits
      dest: get_while_length get_while_Some_good)

lemma munch_input_len: "input_len (munch_till_asterisks_slash lx) \<le> input_len lx"
proof (induction lx rule: munch_till_asterisks_slash.induct)
  case (1 lx)
  obtain cs oc s where g: "get_while (\<lambda>c. c \<noteq> CHR ''*'') (is_stream lx) = (cs, oc, s)"
    by (cases "get_while (\<lambda>c. c \<noteq> CHR ''*'') (is_stream lx)") auto
  obtain r s' where p: "is_peek s = (r, s')" by (cases "is_peek s") auto
  have len: "length (ibuf s) \<le> input_len lx" and s': "ibuf s' = ibuf s"
    using get_while_length [OF g] is_peek_keeps [OF p] by simp_all
  show ?case
  proof (cases "oc \<noteq> None \<and> (\<exists>c. r = Some c \<and> c \<noteq> CHR ''/'')")
    case True
    then obtain d c where oc: "oc = Some d" and r: "r = Some c" and c: "c \<noteq> CHR ''/''" by auto
    have "input_len (munch_till_asterisks_slash
        (lx\<lparr>line_no := line_no lx + newlines cs, is_stream := s'\<rparr>)) \<le> length (ibuf s')"
      using "1.IH" [OF g [symmetric] refl refl oc p [symmetric] r c] by simp
    with len s' oc r c g p show ?thesis
      by (subst munch_till_asterisks_slash.simps) simp
  next
    case False
    then consider "oc = None" | d where "oc = Some d" "r = None"
      | d where "oc = Some d" "r = Some CHR ''/''"
      by (cases oc; cases r) auto
    then show ?thesis
      using len s' g p is_ignore_length [of s']
      by cases (simp_all add: munch_till_asterisks_slash.simps [of lx] Let_def)
  qed
qed

lemma lex_line_comment_len: "lex_line_comment lx = (r, lx') \<Longrightarrow> input_len lx' \<le> input_len lx"
  by (auto simp: lex_line_comment_def return_token_def Let_def split: prod.splits if_splits
      dest: get_while_length)

lemma lex_char_Restart: "lex_char c lx = (Restart, lx') \<Longrightarrow> input_len lx' \<le> input_len lx"
  by (auto simp: lex_char_def lex_hash_percent_def lex_slash_def lex_quote_def lex_number_def
      lex_ident_def return_token_def return_char_token_def Let_def
      split: prod.splits if_splits option.splits sum.splits
      dest!: lex_line_comment_len is_peek_keeps
      intro!: order_trans [OF munch_input_len] order_trans [OF is_ignore_length])

termination get_token_loop
  by (relation "measure input_len")
     (auto dest!: lex_start_None [OF sym] lex_char_Restart [OF sym])

declare get_token_loop.simps [simp del]

definition get_token :: "(lexer, token) sx" where
  "get_token lx =
     (if hold lx then (Inr (current_token lx), lx\<lparr>hold := False\<rparr>) else get_token_loop lx)"

definition peek_token :: "(lexer, token) sx" where
  "peek_token lx =
     (if hold lx then (Inr (current_token lx), lx)
      else sbind get_token (\<lambda>ret. sbind (smod putback) (\<lambda>_. sret ret)) lx)"

text \<open>The work left in a lexer: its input, and the token it holds back.\<close>

definition pending :: "lexer \<Rightarrow> nat" where
  "pending lx = input_len lx + (if hold lx \<and> current_token lx \<noteq> END then 1 else 0)"

section \<open>Functions on the lexer\<close>

definition next_or_current :: "bool \<Rightarrow> (lexer, token) sx" where
  "next_or_current read = (if read then get_token else sgets current_token)"

definition expect :: "token \<Rightarrow> bool \<Rightarrow> (lexer, unit) sx" where
  "expect t read =
     sbind (next_or_current read) (\<lambda>tt lx.
       if tt \<noteq> t
       then (case token_name t of
               Inl e \<Rightarrow> (Inl e, lx)
             | Inr n \<Rightarrow> (Inl (lex_error lx (n @ '' expected'')), lx))
       else (Inr (), lx))"

definition expect_ident :: "string \<Rightarrow> bool \<Rightarrow> (lexer, unit) sx" where
  "expect_ident s read =
     sbind (next_or_current read) (\<lambda>tt lx.
       if tt \<noteq> IDENT then (Inl (lex_error lx (''identifier expected ('' @ s @ '')'')), lx)
       else sbind string_value (\<lambda>v lx1.
              if v \<noteq> s then (Inl (lex_error lx1 (''identifier expected ('' @ s @ '')'')), lx1)
              else (Inr (), lx1)) lx)"

definition get_double :: "(lexer, double) sx" where
  "get_double = sbind (expect NUM True) (\<lambda>_. num_value)"

definition get_nonneg :: "(lexer, double) sx" where
  "get_nonneg =
     sbind get_double (\<lambda>ret lx.
       if dless ret (Fin 0) then (Inl (lex_error lx ''nonnegative number expected''), lx)
       else (Inr ret, lx))"

definition get_positive :: "(lexer, double) sx" where
  "get_positive =
     sbind get_double (\<lambda>ret lx.
       if dle ret (Fin 0) then (Inl (lex_error lx ''positive number expected''), lx)
       else (Inr ret, lx))"

text \<open>\<^verbatim>\<open>read_numbers\<close> into a range of \<open>n\<close> doubles: the values stored before a throw are
  stored, so they are part of the state.\<close>

fun read_numbers :: "nat \<Rightarrow> (lexer \<times> double list, unit) sx" where
  "read_numbers 0 s = (Inr (), s)"
| "read_numbers (Suc n) s =
     (case get_double (fst s) of
        (Inl e, lx1) \<Rightarrow> (Inl e, lx1, snd s)
      | (Inr x, lx1) \<Rightarrow> read_numbers n (lx1, snd s @ [x]))"

end
