(* ===== verification/Parser.thy ===== *)
theory Parser
  imports Lexer
begin

text \<open>
  The parser of \<^verbatim>\<open>nanonet/registry.h\<close> and \<^verbatim>\<open>src/registry.cpp\<close>: the values a registry
  stores, the parser styles and grammars, and the mutually recursive \<open>parse_term\<close> and
  \<open>parse_list\<close> over the lexer's state.
\<close>

section \<open>Values\<close>

text \<open>
  \<^verbatim>\<open>std::any\<close>, restricted to the types that the sources put into it or ask it for:
  the parser stores \<^verbatim>\<open>double\<close>, \<^verbatim>\<open>std::string\<close>, \<^verbatim>\<open>std::vector<std::any>\<close> and
  \<^verbatim>\<open>expression\<close> (head and tail); a client can add the other two with \<^verbatim>\<open>add_any\<close>.
\<close>

datatype any =
    A_empty
  | A_num double
  | A_str string
  | A_list "any list"
  | A_expr string "any list"
  | A_vec_double "double list"
  | A_vec_string "string list"

section \<open>Styles\<close>

datatype comma_style_t = comma_required | comma_optional

record parser_style_t =
  comma_style :: comma_style_t
  list_delimiter :: token
  expression_delimiter :: token

definition default_parser_style :: parser_style_t where
  "default_parser_style =
     \<lparr>comma_style = comma_required, list_delimiter = LB, expression_delimiter = LP\<rparr>"

record grammar =
  parser_style :: parser_style_t
  lexer_style :: lexer_style_t

definition default_grammar :: grammar where
  "default_grammar = \<lparr>parser_style = default_parser_style, lexer_style = default_lexer_style\<rparr>"

definition config_style :: grammar where
  "config_style =
     \<lparr>parser_style = \<lparr>comma_style = comma_optional, list_delimiter = LB, expression_delimiter = LP\<rparr>,
      lexer_style = \<lparr>comment_style = c_comments, string_quote_style = double_quote\<rparr>\<rparr>"

definition matlab_style :: grammar where
  "matlab_style =
     \<lparr>parser_style = \<lparr>comma_style = comma_optional, list_delimiter = LBRACKET, expression_delimiter = LP\<rparr>,
      lexer_style = \<lparr>comment_style = percent_comments, string_quote_style = single_quote\<rparr>\<rparr>"

definition list_open_token :: "parser_style_t \<Rightarrow> token" where
  "list_open_token ps = list_delimiter ps"

definition list_close_token :: "parser_style_t \<Rightarrow> token" where
  "list_close_token ps = closing_token (list_delimiter ps)"

definition expression_open_token :: "parser_style_t \<Rightarrow> token" where
  "expression_open_token ps = expression_delimiter ps"

definition expression_close_token :: "parser_style_t \<Rightarrow> token" where
  "expression_close_token ps = closing_token (expression_delimiter ps)"

section \<open>Terms and lists\<close>

text \<open>
  \<open>parse_term_f\<close> and \<open>parse_list_f\<close> carry a bound on the depth of the recursion; the loop of
  \<^verbatim>\<open>parse_list\<close> passes the elements read so far and whether it is in its first round.
  \<open>parse_term\<close> and \<open>parse_list\<close> below instantiate the bound with one that is never reached.
\<close>

text \<open>What \<^verbatim>\<open>parse_list\<close> does between reading a token other than the closing one and parsing
  the next element.\<close>

definition list_separator :: "parser_style_t \<Rightarrow> bool \<Rightarrow> token \<Rightarrow> (lexer, unit) sx" where
  "list_separator ps first t =
     (if \<not> first then
        (if comma_style ps = comma_required then expect COMMA False
         else if t \<noteq> COMMA then smod putback else sret ())
      else smod putback)"

fun parse_term_f :: "nat \<Rightarrow> parser_style_t \<Rightarrow> (lexer, any) sx"
  and parse_list_f :: "nat \<Rightarrow> parser_style_t \<Rightarrow> token \<Rightarrow> any list \<Rightarrow> bool \<Rightarrow> (lexer, any list) sx"
where
  "parse_term_f 0 ps = sthrow Fuel"
| "parse_term_f (Suc n) ps =
     sbind get_token (\<lambda>t.
       if t = NUM then sbind num_value (\<lambda>x. sret (A_num x))
       else if t = STRING then sbind string_value (\<lambda>s. sret (A_str s))
       else if t = IDENT then
         sbind string_value (\<lambda>ident.
           sbind get_token (\<lambda>t2.
             if t2 = expression_open_token ps
             then sbind (parse_list_f n ps (expression_close_token ps) [] True)
                    (\<lambda>vs. sret (A_expr ident vs))
             else sbind (smod putback) (\<lambda>_. sret (A_str ident))))
       else if t = list_open_token ps then
         sbind (parse_list_f n ps (list_close_token ps) [] True) (\<lambda>vs. sret (A_list vs))
       else (\<lambda>lx. (Inl (lex_error lx ''number, string, identifier or list expected''), lx)))"
| "parse_list_f 0 ps close v first = sthrow Fuel"
| "parse_list_f (Suc n) ps close v first =
     sbind get_token (\<lambda>t.
       if t = close then sret v
       else sbind (list_separator ps first t) (\<lambda>_.
              sbind (parse_term_f n ps) (\<lambda>x. parse_list_f n ps close (v @ [x]) False)))"

declare parse_term_f.simps [simp del] parse_list_f.simps [simp del]

definition parse_term :: "parser_style_t \<Rightarrow> (lexer, any) sx" where
  "parse_term ps lx = parse_term_f (2 * pending lx + 1) ps lx"

definition parse_list :: "parser_style_t \<Rightarrow> token \<Rightarrow> (lexer, any list) sx" where
  "parse_list ps close lx = parse_list_f (2 * pending lx + 2) ps close [] True lx"

section \<open>Pairs\<close>

record parser =
  lex :: lexer
  pstyle :: parser_style_t
  pstate :: bool

definition new_parser :: "lexer \<Rightarrow> parser_style_t \<Rightarrow> parser" where
  "new_parser lx ps = \<lparr>lex = lx, pstyle = ps, pstate = True\<rparr>"

definition on_lex :: "(lexer, 'a) sx \<Rightarrow> (parser, 'a) sx" where
  "on_lex m p = (case m (lex p) of (r, lx) \<Rightarrow> (r, p\<lparr>lex := lx\<rparr>))"

text \<open>\<open>None\<close> when the parser's state is false on return; the out parameters are then untouched.\<close>

definition parse_pair :: "(parser, (string \<times> any \<times> nat \<times> string) option) sx" where
  "parse_pair p =
     (if \<not> pstate p then (Inr None, p)
      else sbind (on_lex get_token) (\<lambda>t.
             if t \<noteq> IDENT then sbind (smod (\<lambda>q. q\<lparr>pstate := False\<rparr>)) (\<lambda>_. sret None)
             else
               sbind (sgets (\<lambda>q. line_no (lex q))) (\<lambda>lno.
               sbind (sgets (\<lambda>q. lex_filename (lex q))) (\<lambda>fn.
               sbind (on_lex string_value) (\<lambda>key.
               sbind (on_lex (expect ASSIGN True)) (\<lambda>_.
               sbind (on_lex (parse_term (pstyle p))) (\<lambda>val.
               sret (Some (key, val, lno, fn)))))))) p)"

end
