(* ===== verification/Registry.thy ===== *)
theory Registry
  imports Parser
begin

text \<open>
  The registry of \<^verbatim>\<open>nanonet/registry.h\<close> and \<^verbatim>\<open>src/registry.cpp\<close>: typed access to a
  key/value store with the message of every error, the conversions of stored values, and
  \<open>read_from\<close>, which fills the store from a lexer or a named file.
\<close>

section \<open>Conversions of stored values\<close>

datatype value_type =
    T_double | T_string | T_expression | T_list | T_vec_double | T_nested_list
  | T_vec_vec_double | T_vec_string

fun hr_type :: "value_type \<Rightarrow> string" where
  "hr_type T_double = ''number''"
| "hr_type T_string = ''string''"
| "hr_type T_expression = ''expression''"
| "hr_type T_list = ''list''"
| "hr_type T_vec_double = ''list of double''"
| "hr_type T_nested_list = ''nested list''"
| "hr_type T_vec_vec_double = ''list of list of double''"
| "hr_type T_vec_string = ''list of strings''"

text \<open>\<^verbatim>\<open>std::any_cast< T >( &a )\<close>, one for each type the library instantiates.\<close>

fun cast_double :: "any \<Rightarrow> double option" where
  "cast_double (A_num x) = Some x"
| "cast_double _ = None"

fun cast_string :: "any \<Rightarrow> string option" where
  "cast_string (A_str s) = Some s"
| "cast_string _ = None"

fun cast_list :: "any \<Rightarrow> any list option" where
  "cast_list (A_list vs) = Some vs"
| "cast_list _ = None"

fun cast_expression :: "any \<Rightarrow> (string \<times> any list) option" where
  "cast_expression (A_expr h t) = Some (h, t)"
| "cast_expression _ = None"

fun cast_vec_double :: "any \<Rightarrow> double list option" where
  "cast_vec_double (A_vec_double xs) = Some xs"
| "cast_vec_double _ = None"

fun cast_vec_string :: "any \<Rightarrow> string list option" where
  "cast_vec_string (A_vec_string xs) = Some xs"
| "cast_vec_string _ = None"

definition convert :: "value_type \<Rightarrow> (any \<Rightarrow> 'a option) \<Rightarrow> any \<Rightarrow> 'a result" where
  "convert T cast a =
     (case cast a of
        None \<Rightarrow> Inl (Runtime_error (''should be a '' @ hr_type T))
      | Some x \<Rightarrow> Inr x)"

definition throw_should_have :: "int \<Rightarrow> string \<Rightarrow> 'a result" where
  "throw_should_have n thing = Inl (Runtime_error (''should have '' @ int_to_string n @ '' '' @ thing))"

text \<open>The element loop of the list conversion, with the index \<open>i\<close> of the first element.\<close>

fun convert_elements :: "value_type \<Rightarrow> (any \<Rightarrow> 'a option) \<Rightarrow> nat \<Rightarrow> any list \<Rightarrow> 'a list result" where
  "convert_elements T cast i [] = Inr []"
| "convert_elements T cast i (a # as) =
     rbind (catch_runtime (convert T cast a)
              (\<lambda>e. Inl (Runtime_error (''element '' @ nat_to_string (i + 1) @ what e))))
       (\<lambda>x. rbind (convert_elements T cast (Suc i) as) (\<lambda>xs. Inr (x # xs)))"

definition convert_vector :: "value_type \<Rightarrow> (any \<Rightarrow> 'a option) \<Rightarrow> any \<Rightarrow> int \<Rightarrow> 'a list result" where
  "convert_vector T cast a n =
     rbind (assertion (n \<ge> - 1) ''n >= -1'' ''include/nanonet/registry.h'' 938) (\<lambda>_.
     rbind (convert T_list cast_list a) (\<lambda>v.
     if n \<ge> 0 \<and> length v \<noteq> nat n then throw_should_have n ''element(s)''
     else convert_elements T cast 0 v))"

text \<open>The row loop of the matrix conversion; \<open>front\<close> is the first row once there is one.\<close>

fun convert_rows :: "int \<Rightarrow> nat \<Rightarrow> double list \<Rightarrow> any list \<Rightarrow> double list list result" where
  "convert_rows columns i front [] = Inr []"
| "convert_rows columns i front (a # as) =
     rbind
       (catch_runtime
          (rbind (convert_vector T_double cast_double a (- 1)) (\<lambda>row.
             if (columns \<ge> 0 \<and> length row \<noteq> nat columns)
                \<or> (columns = - 2 \<and> i \<ge> 1 \<and> length row \<noteq> length front)
             then throw_should_have (if columns = - 2 then int (length front) else columns) ''column(s)''
             else Inr row))
          (\<lambda>e. Inl (Runtime_error (''row '' @ nat_to_string (i + 1) @ '': '' @ what e))))
       (\<lambda>row. rbind (convert_rows columns (Suc i) (if i = 0 then row else front) as)
                (\<lambda>rows. Inr (row # rows)))"

definition convert_matrix :: "any \<Rightarrow> int \<Rightarrow> int \<Rightarrow> double list list result" where
  "convert_matrix a rows columns =
     rbind (c_assert (rows \<ge> - 1) ''rows >= -1'') (\<lambda>_.
     rbind (c_assert (columns \<ge> - 2) ''columns >= -2'') (\<lambda>_.
     rbind (convert T_list cast_list a) (\<lambda>v.
     if rows \<ge> 0 \<and> length v \<noteq> nat rows then throw_should_have rows ''row(s)''
     else convert_rows columns 0 [] v)))"

text \<open>\<^verbatim>\<open>nanonet::util::check_long\<close>.\<close>

definition util_check_long :: "double \<Rightarrow> double \<Rightarrow> double \<Rightarrow> int result" where
  "util_check_long x mn mx =
     (if dless x mn \<or> dless mx x
      then Inl (Runtime_error (''should be between '' @ show_double mn @ '' and '' @ show_double mx))
      else rbind (to_long x) (\<lambda>n.
             if \<not> deq (Fin (of_int n)) x then Inl (Runtime_error ''should be an integer'')
             else Inr n))"

section \<open>The store\<close>

record mapped =
  mvalue :: any
  mdefined_at :: string

record registry =
  kv_map :: "string \<rightharpoonup> mapped"
  reg_filename :: string

definition empty_registry :: registry where
  "empty_registry = \<lparr>kv_map = Map.empty, reg_filename = []\<rparr>"

definition defined_at_msg :: "nat \<Rightarrow> string \<Rightarrow> string" where
  "defined_at_msg lno fname = ''(line '' @ nat_to_string lno @ '' in '' @ fname @ '')''"

definition not_defined :: "string \<Rightarrow> exc" where
  "not_defined key = Runtime_error (''key '' @ key @ '': not defined'')"

definition get_any :: "registry \<Rightarrow> string \<Rightarrow> any result" where
  "get_any r key = (case kv_map r key of None \<Rightarrow> Inl (not_defined key) | Some m \<Rightarrow> Inr (mvalue m))"

definition defined_at :: "registry \<Rightarrow> string \<Rightarrow> string result" where
  "defined_at r key =
     (case kv_map r key of None \<Rightarrow> Inl (not_defined key) | Some m \<Rightarrow> Inr (mdefined_at m))"

definition key_defined_at :: "registry \<Rightarrow> string \<Rightarrow> string result" where
  "key_defined_at r key = rbind (defined_at r key) (\<lambda>d. Inr (''key '' @ key @ '' '' @ d))"

definition is_set :: "registry \<Rightarrow> string \<Rightarrow> bool" where
  "is_set r key \<longleftrightarrow> kv_map r key \<noteq> None"

definition is_defined :: "registry \<Rightarrow> string \<Rightarrow> bool" where
  "is_defined r key = is_set r key"

definition check_key :: "registry \<Rightarrow> string \<Rightarrow> unit result" where
  "check_key r key =
     (if kv_map r key \<noteq> None
      then rbind (defined_at r key) (\<lambda>d. Inl (Runtime_error (key @ '' redefined '' @ d)))
      else Inr ())"

definition add_any :: "string \<Rightarrow> any \<Rightarrow> string \<Rightarrow> bool \<Rightarrow> (registry, unit) sx" where
  "add_any key v dat throw_on_redefinition r =
     (case (if throw_on_redefinition then check_key r key else Inr ()) of
        Inl e \<Rightarrow> (Inl e, r)
      | Inr _ \<Rightarrow> (Inr (), r\<lparr>kv_map := (kv_map r)(key \<mapsto> \<lparr>mvalue = v, mdefined_at = dat\<rparr>)\<rparr>))"

definition clear_registry :: "registry \<Rightarrow> registry" where
  "clear_registry r = r\<lparr>kv_map := Map.empty\<rparr>"

text \<open>Rethrow \<open>e\<close> with the definition point in front: \<open>key_defined_at(key) + sep + e.what()\<close> and
  \<open>key + " " + defined_at(key) + sep + e.what()\<close>.\<close>

definition at_key :: "registry \<Rightarrow> string \<Rightarrow> string \<Rightarrow> 'a result" where
  "at_key r key msg = rbind (key_defined_at r key) (\<lambda>d. Inl (Runtime_error (d @ '': '' @ msg)))"

definition with_location :: "registry \<Rightarrow> string \<Rightarrow> string \<Rightarrow> exc \<Rightarrow> 'a result" where
  "with_location r key sep e =
     rbind (defined_at r key) (\<lambda>d. Inl (Runtime_error (key @ '' '' @ d @ sep @ what e)))"

definition get :: "value_type \<Rightarrow> (any \<Rightarrow> 'a option) \<Rightarrow> registry \<Rightarrow> string \<Rightarrow> 'a result" where
  "get T cast r key =
     rbind (get_any r key) (\<lambda>a. catch_runtime (convert T cast a) (with_location r key '': ''))"

definition check_positive :: "registry \<Rightarrow> string \<Rightarrow> double result" where
  "check_positive r key =
     rbind (get T_double cast_double r key) (\<lambda>ret.
       if dle ret (Fin 0) then at_key r key ''should be > 0'' else Inr ret)"

definition check_nonneg :: "registry \<Rightarrow> string \<Rightarrow> double result" where
  "check_nonneg r key =
     rbind (get T_double cast_double r key) (\<lambda>ret.
       if dless ret (Fin 0) then at_key r key ''should be >= 0'' else Inr ret)"

definition check_long :: "registry \<Rightarrow> string \<Rightarrow> double \<Rightarrow> double \<Rightarrow> int result" where
  "check_long r key mn mx =
     rbind (get T_double cast_double r key) (\<lambda>d.
       catch_runtime (util_check_long d mn mx) (with_location r key '': ''))"

definition check_port :: "registry \<Rightarrow> string \<Rightarrow> int result" where
  "check_port r key =
     rbind (get T_double cast_double r key) (\<lambda>d.
       catch_runtime (util_check_long d (Fin 0) (Fin 65535))
         (with_location r key '': not a valid TCP/UDP port value: ''))"

definition check_string :: "registry \<Rightarrow> string \<Rightarrow> string result" where
  "check_string r key = get T_string cast_string r key"

definition check_vector_vector_double :: "registry \<Rightarrow> string \<Rightarrow> int \<Rightarrow> int \<Rightarrow> double list list result" where
  "check_vector_vector_double r key rows columns =
     rbind (get_any r key) (\<lambda>a.
       catch_runtime (convert_matrix a rows columns) (\<lambda>e. at_key r key (what e)))"

definition check_vector_string :: "registry \<Rightarrow> string \<Rightarrow> int \<Rightarrow> string list result" where
  "check_vector_string r key n =
     rbind (get_any r key) (\<lambda>a.
       catch_runtime (convert_vector T_string cast_string a n) (\<lambda>e. at_key r key (what e)))"

definition check_vector_double :: "registry \<Rightarrow> string \<Rightarrow> int \<Rightarrow> double list result" where
  "check_vector_double r key n =
     rbind (get_any r key) (\<lambda>a.
       catch_runtime (convert_vector T_double cast_double a n) (\<lambda>e. at_key r key (what e)))"

definition check_vector_any :: "registry \<Rightarrow> string \<Rightarrow> int \<Rightarrow> any list result" where
  "check_vector_any r key n =
     rbind (c_assert (n \<ge> - 1) ''n >= -1'') (\<lambda>_.
       catch_runtime
         (rbind (get_any r key) (\<lambda>a. rbind (convert T_list cast_list a) (\<lambda>ret.
            if n \<ge> 0 \<and> length ret \<noteq> nat n then throw_should_have n ''element(s)'' else Inr ret)))
         (\<lambda>e. at_key r key (what e)))"

definition check_bool :: "registry \<Rightarrow> string \<Rightarrow> bool result" where
  "check_bool r key =
     rbind (get T_string cast_string r key) (\<lambda>s.
       if s = ''true'' then Inr True
       else if s = ''false'' then Inr False
       else at_key r key ''should be true or false'')"

definition is_set_and_true :: "registry \<Rightarrow> string \<Rightarrow> bool result" where
  "is_set_and_true r key = (if is_set r key then check_bool r key else Inr False)"

section \<open>Lookup with a default\<close>

definition get_default_internal ::
  "value_type \<Rightarrow> (any \<Rightarrow> 'a option) \<Rightarrow> registry \<Rightarrow> string \<Rightarrow> 'a \<Rightarrow> 'a result" where
  "get_default_internal T cast r key dflt =
     (if \<not> is_defined r key then Inr dflt else get T cast r key)"

definition get_default_string :: "registry \<Rightarrow> string \<Rightarrow> string \<Rightarrow> string result" where
  "get_default_string = get_default_internal T_string cast_string"

definition get_default_double :: "registry \<Rightarrow> string \<Rightarrow> double \<Rightarrow> double result" where
  "get_default_double = get_default_internal T_double cast_double"

definition get_default_vec_double :: "registry \<Rightarrow> string \<Rightarrow> double list \<Rightarrow> double list result" where
  "get_default_vec_double = get_default_internal T_vec_double cast_vec_double"

definition get_default_vec_string :: "registry \<Rightarrow> string \<Rightarrow> string list \<Rightarrow> string list result" where
  "get_default_vec_string = get_default_internal T_vec_string cast_vec_string"

definition get_default_bool :: "registry \<Rightarrow> string \<Rightarrow> bool \<Rightarrow> bool result" where
  "get_default_bool r key dflt = (if \<not> is_defined r key then Inr dflt else check_bool r key)"

definition get_default_long :: "registry \<Rightarrow> string \<Rightarrow> int \<Rightarrow> double \<Rightarrow> double \<Rightarrow> int result" where
  "get_default_long r key dflt mn mx =
     (if \<not> is_defined r key then Inr dflt else check_long r key mn mx)"

section \<open>Reading\<close>

text \<open>The loop over the pairs; the bound is on the number of rounds.\<close>

fun read_pairs :: "nat \<Rightarrow> bool \<Rightarrow> (parser \<times> registry, unit) sx" where
  "read_pairs 0 thr s = (Inl Fuel, s)"
| "read_pairs (Suc n) thr s =
     (case parse_pair (fst s) of
        (Inl e, p1) \<Rightarrow> (Inl e, p1, snd s)
      | (Inr None, p1) \<Rightarrow> (Inr (), p1, snd s)
      | (Inr (Some (key, val, lno, fname)), p1) \<Rightarrow>
          (case add_any key val (defined_at_msg lno fname) thr (snd s) of
             (Inl e, r1) \<Rightarrow>
               (Inl (if is_runtime_error e then Runtime_error (location (lex p1) @ what e) else e), p1, r1)
           | (Inr _, r1) \<Rightarrow> read_pairs n thr (p1, r1)))"

definition read_from ::
  "lexer_style_t \<Rightarrow> parser_style_t \<Rightarrow> bool \<Rightarrow> (lexer \<times> registry, unit) sx" where
  "read_from ls ps thr s =
     (case s of (lx, r) \<Rightarrow>
        let p = new_parser (set_style ls lx) ps
        in case read_pairs (Suc (pending lx)) thr (p, r) of
             (Inl e, p1, r1) \<Rightarrow> (Inl e, lex p1, r1)
           | (Inr _, p1, r1) \<Rightarrow> (Inr (), putback (lex p1), r1))"

definition read_from_grammar :: "grammar \<Rightarrow> bool \<Rightarrow> (lexer \<times> registry, unit) sx" where
  "read_from_grammar g thr = read_from (lexer_style g) (parser_style g) thr"

text \<open>Reading from a named file; \<open>fs\<close> is the content of the files that can be opened.\<close>

definition read_from_file ::
  "(string \<rightharpoonup> string) \<Rightarrow> string \<Rightarrow> lexer_style_t \<Rightarrow> parser_style_t \<Rightarrow> bool \<Rightarrow> (registry, unit) sx" where
  "read_from_file fs name ls ps thr r =
     (case fs name of
        None \<Rightarrow> (Inl (Runtime_error (''could not open: '' @ name)), r)
      | Some content \<Rightarrow>
          (case read_from ls ps thr (new_lexer (istream_of content) name default_lexer_style, r) of
             (Inl e, lx1, r1) \<Rightarrow> (Inl e, r1)
           | (Inr _, lx1, r1) \<Rightarrow>
               (case expect END True lx1 of
                  (Inl e, _) \<Rightarrow> (Inl e, r1)
                | (Inr _, _) \<Rightarrow> (Inr (), r1\<lparr>reg_filename := name\<rparr>))))"

definition read_from_file_grammar ::
  "(string \<rightharpoonup> string) \<Rightarrow> string \<Rightarrow> grammar \<Rightarrow> bool \<Rightarrow> (registry, unit) sx" where
  "read_from_file_grammar fs name g thr = read_from_file fs name (lexer_style g) (parser_style g) thr"

definition last_filename :: "registry \<Rightarrow> string" where
  "last_filename r = reg_filename r"

text \<open>The constructors from a named file and from a stream.\<close>

definition registry_from_file ::
  "(string \<rightharpoonup> string) \<Rightarrow> string \<Rightarrow> grammar \<Rightarrow> bool \<Rightarrow> unit result \<times> registry" where
  "registry_from_file fs name g thr = read_from_file_grammar fs name g thr empty_registry"

definition registry_from_stream :: "istream \<Rightarrow> grammar \<Rightarrow> bool \<Rightarrow> unit result \<times> registry" where
  "registry_from_stream is g thr =
     (case read_from_grammar g thr (new_lexer is ''(unknown file)'' (lexer_style g), empty_registry) of
        (res, _, r) \<Rightarrow> (res, r))"

text \<open>The output operator is a stub in the source.\<close>

definition write_registry :: "registry \<Rightarrow> string" where
  "write_registry r = ''*** FIXME: registry output not yet implemented.'' @ [newline_char]"

end
