(* ===== verification/Lexer_Facts.thy ===== *)
theory Lexer_Facts
  imports Lexer
begin

text \<open>
  Facts about the lexer that its clients use: every token but the end of file consumes input,
  no operation of the lexer runs out of a bound, and the interface \<open>token_source\<close> under which
  the parser's termination is proved.
\<close>

section \<open>The token interface\<close>

text \<open>
  What a parser relies on: reading a token other than the end marker leaves less to read, and
  putting a token back undoes at most that. \<open>pend\<close> measures what is left.
\<close>

locale token_source =
  fixes get :: "('l, 't) sx"
    and unget :: "'l \<Rightarrow> 'l"
    and pend :: "'l \<Rightarrow> nat"
    and end_tok :: 't
    and cur :: "'l \<Rightarrow> 't"
  assumes get_less: "get l = (Inr t, l') \<Longrightarrow> t \<noteq> end_tok \<Longrightarrow> pend l' < pend l"
    and get_end: "get l = (Inr end_tok, l') \<Longrightarrow> pend l' \<le> pend l"
    and get_cur: "get l = (Inr t, l') \<Longrightarrow> cur l' = t"
    and unget_le: "pend (unget l) \<le> Suc (pend l)"
    and unget_end: "cur l = end_tok \<Longrightarrow> pend (unget l) \<le> pend l"
    and get_bounded: "get l = (Inl e, l') \<Longrightarrow> e \<noteq> Fuel"
begin

lemma get_le: "get l = (Inr t, l') \<Longrightarrow> pend l' \<le> pend l"
  by (cases "t = end_tok") (auto dest: get_less get_end)

lemma get_unget: "get l = (Inr t, l') \<Longrightarrow> pend (unget l') \<le> pend l"
proof -
  assume g: "get l = (Inr t, l')"
  show ?thesis
  proof (cases "t = end_tok")
    case True
    with g get_cur [OF g] show ?thesis by (auto intro: order_trans [OF unget_end get_end])
  next
    case False
    with get_less [OF g] unget_le [of l'] show ?thesis by simp
  qed
qed

lemma get_fuel: "fst (get l) \<noteq> Inl Fuel"
  using get_bounded [of l Fuel "snd (get l)"] by (cases "get l") auto

end

section \<open>Consumption\<close>

declare scan_float.simps(2) [simp del]

lemma not_digit_newline: "\<not> isdigit newline_char"
  by (simp add: char_simps)

text \<open>The characters of a field are a prefix of the input without a newline.\<close>

lemma scan_float_prefix:
  "scan_float m d e s = (f, r) \<Longrightarrow> \<exists>p. s = p @ r \<and> length p = length f \<and> newline_char \<notin> set p"
proof (induction s arbitrary: m d e f r rule: length_induct)
  case (1 s)
  have IH: "scan_float m d e ys = (f, r) \<Longrightarrow> s = qs @ ys \<Longrightarrow> length qs = Suc n \<Longrightarrow>
      newline_char \<notin> set qs \<Longrightarrow>
      \<exists>p. s = p @ r \<and> length p = length qs + length f \<and> newline_char \<notin> set p" for m d e ys f r qs n
  proof -
    assume a: "scan_float m d e ys = (f, r)" "s = qs @ ys" "length qs = Suc n" "newline_char \<notin> set qs"
    then obtain p where "ys = p @ r \<and> length p = length f \<and> newline_char \<notin> set p"
      using "1.IH" [rule_format, of ys m d e f r] by auto
    with a show ?thesis by (intro exI [of _ "qs @ p"]) auto
  qed
  have nil: "\<exists>p. s = p @ s \<and> length p = length [] \<and> newline_char \<notin> set p" by simp
  show ?case
  proof (cases s)
    case (Cons c cs)
    have un: "scan_float m d e (c # cs) = (f, r)" using "1.prems" Cons by simp
    consider (digit) "isdigit c" | (dot) "\<not> isdigit c" "c = CHR ''.''" "\<not> d" "\<not> e"
      | (exp) "\<not> isdigit c" "c = CHR ''e'' \<or> c = CHR ''E''" "\<not> e" "m"
      | (stop) "f = []" "r = s"
      using un Cons unfolding scan_float.simps(2) by (auto split: if_splits)
    then show ?thesis
    proof cases
      case digit
      with un not_digit_newline IH [of True d e cs _ r "[c]"] Cons show ?thesis
        unfolding scan_float.simps(2) by (fastforce split: prod.splits)
    next
      case dot
      with un IH [of m True e cs _ r "[c]"] Cons show ?thesis
        unfolding scan_float.simps(2) by (fastforce split: prod.splits)
    next
      case exp
      then have ne: "c \<noteq> newline_char" "c \<noteq> CHR ''.''" by auto
      show ?thesis
      proof (cases cs)
        case Nil
        with un exp ne Cons show ?thesis
          unfolding scan_float.simps(2) by (intro exI [of _ "[c]"]) auto
      next
        case (Cons x xs)
        show ?thesis
        proof (cases "x = CHR ''+'' \<or> x = CHR ''-''")
          case True
          with un exp ne Cons \<open>s = c # cs\<close> IH [of m d True xs _ r "[c, x]"] show ?thesis
            unfolding scan_float.simps(2) by (fastforce split: prod.splits)
        next
          case False
          with un exp ne Cons \<open>s = c # cs\<close> IH [of m d True cs _ r "[c]"] show ?thesis
            unfolding scan_float.simps(2) [of m d e c cs] by (fastforce split: prod.splits)
        qed
      qed
    qed (use nil in simp)
  qed (use "1.prems" in simp)
qed

lemma scan_float_length: "scan_float m d e s = (f, r) \<Longrightarrow> length f + length r = length s"
  by (auto dest: scan_float_prefix)

lemma float_field_length: "float_field s = (f, r) \<Longrightarrow> length f + length r = length s"
  by (auto simp: float_field_def split: list.splits if_splits prod.splits dest!: scan_float_length)

lemma strtod_exact_Nil [simp]: "strtod_exact [] = None"
  by (simp add: strtod_exact_def split_sign_def)

lemma extract_double_ok:
  assumes "extract_double s = (x, t)" "\<not> failbit t"
  shows "length (ibuf t) < length (ibuf s)"
proof -
  obtain f r where fr: "float_field (ibuf s) = (f, r)" by (cases "float_field (ibuf s)")
  with assms have "strtod_exact f \<noteq> None"
    by (auto simp: extract_double_def Let_def split: option.splits)
  then have "f \<noteq> []" by (cases f) auto
  moreover have "ibuf t = r"
    using assms fr by (auto simp: extract_double_def Let_def split: option.splits double.splits)
  ultimately show ?thesis
    using float_field_length [OF fr] by (cases f) auto
qed

lemma is_get_le: "is_get s = (r, t) \<Longrightarrow> length (ibuf t) \<le> length (ibuf s)"
  by (cases r) (auto dest: is_get_Some_length is_get_None)

lemma lex_string_loop_length:
  "lex_string_loop q s acc = (e, v, t) \<Longrightarrow> length (ibuf t) \<le> length (ibuf s)"
proof (induction q s acc arbitrary: e v t rule: lex_string_loop.induct)
  case (1 q s acc)
  obtain r s' where g: "is_get s = (r, s')" by (cases "is_get s")
  obtain r2 t' where g2: "is_get s' = (r2, t')" by (cases "is_get s'")
  note l = is_get_le [OF g] is_get_le [OF g2]
  have step: "(\<exists>a. lex_string_loop q s' a = (e, v, t) \<and> length (ibuf t) \<le> length (ibuf s'))
      \<or> (\<exists>a. lex_string_loop q t' a = (e, v, t) \<and> length (ibuf t) \<le> length (ibuf t'))
      \<or> t = s' \<or> t = t'"
    using "1.prems" g g2 "1.IH"(1) [OF g [symmetric]] "1.IH"(2) [OF g [symmetric]]
    by (auto simp: lex_string_loop.simps [of q s] split: option.splits if_splits)
  with l show ?case by auto
qed

lemma lex_number_len:
  assumes "lex_number c lx = (Done (Inr t), lx')" "good (is_stream lx)"
  shows "input_len lx' \<le> input_len lx"
proof -
  obtain x s where x: "extract_double (is_putback c (is_stream lx)) = (x, s)"
    by (cases "extract_double (is_putback c (is_stream lx))")
  with assms(1) have f: "\<not> failbit s" and s: "is_stream lx' = s"
    by (auto simp: lex_number_def return_token_def Let_def split: if_splits)
  from extract_double_ok [OF x f] assms(2) s show ?thesis
    by (simp add: is_putback_def good_def)
qed

text \<open>The facts about one character that every analysis of \<open>get_token\<close> uses: what a branch that
  returns a token leaves of the input and sets.\<close>

lemma return_char_token_Done:
  "return_char_token c lx = (Done (Inr t), lx') \<Longrightarrow> lx' = lx\<lparr>current_token := t\<rparr> \<and> char_token c = Inr t"
  by (auto simp: return_char_token_def return_token_def split: sum.splits)

lemma return_char_token_not_Restart [simp]: "return_char_token c lx \<noteq> (Restart, lx')"
  by (auto simp: return_char_token_def return_token_def split: sum.splits)

lemma lex_line_comment_Done:
  "lex_line_comment lx = (Done r, lx') \<Longrightarrow> r = Inr END \<and> current_token lx' = END"
  by (auto simp: lex_line_comment_def return_token_def Let_def split: prod.splits if_splits)

lemma lex_slash_len: "lex_slash lx = (Done (Inr t), lx') \<Longrightarrow> input_len lx' \<le> input_len lx"
  by (auto simp: lex_slash_def return_token_def Let_def
      split: prod.splits if_splits option.splits dest!: lex_line_comment_len is_peek_keeps)

lemma lex_quote_len: "lex_quote c lx = (Done (Inr t), lx') \<Longrightarrow> input_len lx' \<le> input_len lx"
  by (auto simp: lex_quote_def return_token_def split: prod.splits if_splits option.splits
      dest!: lex_string_loop_length return_char_token_Done)

lemma get_while_putback_len:
  assumes "get_while P s = (cs, oc, t)"
  shows "length (ibuf (case oc of None \<Rightarrow> t | Some d \<Rightarrow> is_putback d t)) \<le> length (ibuf s)"
  using get_while_length [OF assms] by (auto simp: is_putback_def split: option.splits)

lemma lex_ident_len: "lex_ident c lx = (Done (Inr t), lx') \<Longrightarrow> input_len lx' \<le> input_len lx"
  using get_while_putback_len by (auto simp: lex_ident_def return_token_def split: prod.splits)

text \<open>The branches of the switch.\<close>

lemma if_mem: "(b \<Longrightarrow> x \<in> S) \<Longrightarrow> (\<not> b \<Longrightarrow> y \<in> S) \<Longrightarrow> (if b then x else y) \<in> S"
  by simp

lemma lex_char_cases:
  assumes "lex_char c lx = (r, lx')"
  obtains (hash) "lex_hash_percent c lx = (r, lx')" "c = CHR ''#'' \<or> c = CHR ''%''"
  | (slash) "lex_slash lx = (r, lx')" "c = CHR ''/''"
  | (char) "return_char_token c lx = (r, lx')" "c \<in> set ''=(){}[],''"
  | (quote) "lex_quote c lx = (r, lx')" "c = dquote \<or> c = squote"
  | (number) "lex_number c lx = (r, lx')" "isdigit c \<or> c = CHR ''.'' \<or> c = CHR ''+'' \<or> c = CHR ''-''"
  | (ident) "lex_ident c lx = (r, lx')" "isalpha c"
  | (bad) "r = Done (Inl (lex_error lx (''bad character in input ('' @ [c] @ '')'')))" "lx' = lx"
proof -
  have "lex_char c lx \<in>
      {v. (c = CHR ''#'' \<or> c = CHR ''%'') \<and> v = lex_hash_percent c lx} \<union> {v. c = CHR ''/'' \<and> v = lex_slash lx}
      \<union> {v. c \<in> set ''=(){}[],'' \<and> v = return_char_token c lx}
      \<union> {v. (c = dquote \<or> c = squote) \<and> v = lex_quote c lx}
      \<union> {v. (isdigit c \<or> c = CHR ''.'' \<or> c = CHR ''+'' \<or> c = CHR ''-'') \<and> v = lex_number c lx}
      \<union> {v. isalpha c \<and> v = lex_ident c lx}
      \<union> {(Done (Inl (lex_error lx (''bad character in input ('' @ [c] @ '')''))), lx)}"
    unfolding lex_char_def by (intro if_mem) simp_all
  with assms that show ?thesis by auto
qed

lemma lex_hash_percent_len:
  "lex_hash_percent c lx = (Done (Inr t), lx') \<Longrightarrow> input_len lx' \<le> input_len lx"
  by (auto simp: lex_hash_percent_def split: if_splits dest: lex_line_comment_len return_char_token_Done)

lemma lex_char_len:
  assumes "lex_char c lx = (Done (Inr t), lx')" "good (is_stream lx)"
  shows "input_len lx' \<le> input_len lx"
  by (rule lex_char_cases [OF assms(1)])
    (use assms in \<open>auto dest: lex_slash_len lex_quote_len lex_ident_len lex_number_len
       lex_hash_percent_len return_char_token_Done\<close>)

lemma lex_branch_token:
  "lex_hash_percent c lx = (Done (Inr t), lx') \<Longrightarrow> current_token lx' = t"
  "lex_slash lx = (Done (Inr t), lx') \<Longrightarrow> current_token lx' = t"
  "return_char_token c lx = (Done (Inr t), lx') \<Longrightarrow> current_token lx' = t"
  "lex_quote c lx = (Done (Inr t), lx') \<Longrightarrow> current_token lx' = t"
  "lex_number c lx = (Done (Inr t), lx') \<Longrightarrow> current_token lx' = t"
  "lex_ident c lx = (Done (Inr t), lx') \<Longrightarrow> current_token lx' = t"
  by (auto simp: lex_hash_percent_def lex_slash_def lex_quote_def lex_number_def
      lex_ident_def return_token_def Let_def split: if_splits prod.splits option.splits
      dest!: return_char_token_Done lex_line_comment_Done)

lemma lex_char_token:
  assumes "lex_char c lx = (Done (Inr t), lx')"
  shows "current_token lx' = t"
  by (rule lex_char_cases [OF assms]) (auto dest: lex_branch_token)

lemma munch_keeps:
  "hold (munch_till_asterisks_slash lx) = hold lx
   \<and> style (munch_till_asterisks_slash lx) = style lx
   \<and> lex_filename (munch_till_asterisks_slash lx) = lex_filename lx
   \<and> lex_state (munch_till_asterisks_slash lx) = lex_state lx
   \<and> current_token (munch_till_asterisks_slash lx) = current_token lx"
proof (induction lx rule: munch_till_asterisks_slash.induct)
  case (1 lx)
  then show ?case
    by (subst (1 2 3 4 5) munch_till_asterisks_slash.simps)
      (auto simp: Let_def split: prod.splits option.splits)
qed

text \<open>\<open>hold\<close>, the style, the file name and the user's state are not touched by reading.\<close>

definition same_frame :: "lexer \<Rightarrow> lexer \<Rightarrow> bool" where
  "same_frame lx lx' \<longleftrightarrow> hold lx' = hold lx \<and> style lx' = style lx
     \<and> lex_filename lx' = lex_filename lx \<and> lex_state lx' = lex_state lx"

lemma same_frame_trans: "same_frame a b \<Longrightarrow> same_frame b c \<Longrightarrow> same_frame a c"
  by (simp add: same_frame_def)

lemma same_frame_refl [simp]: "same_frame a a"
  by (simp add: same_frame_def)

lemma lex_branch_frame:
  "lex_line_comment lx = (r, lx') \<Longrightarrow> same_frame lx lx'"
  "return_char_token c lx = (r, lx') \<Longrightarrow> same_frame lx lx'"
  "lex_number c lx = (r, lx') \<Longrightarrow> same_frame lx lx'"
  "lex_ident c lx = (r, lx') \<Longrightarrow> same_frame lx lx'"
  by (auto simp: same_frame_def lex_number_def lex_line_comment_def lex_ident_def
      return_token_def return_char_token_def Let_def
      split: if_splits prod.splits option.splits sum.splits)

lemma same_frame_stream [simp]: "same_frame (lx\<lparr>is_stream := s\<rparr>) lx' = same_frame lx lx'"
  by (simp add: same_frame_def)

lemma lex_branch_frame2:
  "lex_hash_percent c lx = (r, lx') \<Longrightarrow> same_frame lx lx'"
  "lex_quote c lx = (r, lx') \<Longrightarrow> same_frame lx lx'"
  "lex_slash lx = (r, lx') \<Longrightarrow> same_frame lx lx'"
  by (auto simp: lex_hash_percent_def lex_quote_def lex_slash_def return_token_def
      split: if_splits prod.splits option.splits dest!: lex_branch_frame)
     (auto simp: same_frame_def munch_keeps)

lemma lex_char_frame:
  assumes "lex_char c lx = (r, lx')"
  shows "same_frame lx lx'"
  by (rule lex_char_cases [OF assms]) (auto dest: lex_branch_frame lex_branch_frame2)

lemma lex_start_frame: "lex_start lx = (r, c, lx') \<Longrightarrow> same_frame lx lx'"
  by (auto simp: same_frame_def lex_start_def Let_def split: prod.splits if_splits option.splits)

text \<open>One round of the loop, as a case rule.\<close>

lemma get_token_loop_cases:
  assumes g: "get_token_loop lx = (r, lx')"
  obtains (stop) c where "lex_start lx = (Some r, c, lx')"
  | (returned) c lx1 where "lex_start lx = (None, c, lx1)" "lex_char c lx1 = (Done r, lx')"
  | (restart) c lx1 lx2 where "lex_start lx = (None, c, lx1)" "lex_char c lx1 = (Restart, lx2)"
      "get_token_loop lx2 = (r, lx')" "input_len lx2 < input_len lx"
proof -
  obtain o1 c lx1 where s: "lex_start lx = (o1, c, lx1)" by (cases "lex_start lx")
  obtain d lx2 where d: "lex_char c lx1 = (d, lx2)" by (cases "lex_char c lx1")
  show ?thesis
  proof (cases o1)
    case Some
    with g s that(1) show ?thesis by (simp add: get_token_loop.simps [of lx])
  next
    case None
    with g s d that(2,3) lex_start_None [of lx c lx1] lex_char_Restart [of c lx1 lx2] show ?thesis
      by (cases d) (auto simp: get_token_loop.simps [of lx])
  qed
qed

lemma get_token_loop_frame: "get_token_loop lx = (r, lx') \<Longrightarrow> same_frame lx lx'"
proof (induction "input_len lx" arbitrary: lx rule: less_induct)
  case less
  from less.prems show ?case
    by (cases rule: get_token_loop_cases)
      (blast intro: same_frame_trans lex_start_frame lex_char_frame less.hyps)+
qed

lemma lex_start_Some:
  "lex_start lx = (Some r, c, lx') \<Longrightarrow>
     (r = Inr END \<and> current_token lx' = END \<or> r = Inl (lex_error lx' ''read error''))
     \<and> input_len lx' \<le> input_len lx"
  by (auto simp: lex_start_def lex_error_def location_def Let_def
      split: prod.splits if_splits option.splits dest: get_while_length)

lemma get_token_loop_token:
  "get_token_loop lx = (Inr t, lx') \<Longrightarrow>
     current_token lx' = t \<and> (if t = END then input_len lx' \<le> input_len lx else input_len lx' < input_len lx)"
proof (induction "input_len lx" arbitrary: lx rule: less_induct)
  case less
  from less.prems show ?case
  proof (cases rule: get_token_loop_cases)
    case (stop c)
    then show ?thesis using lex_start_Some by force
  next
    case (returned c lx1)
    with lex_start_None [OF returned(1)] lex_char_len [OF returned(2)] lex_char_token [OF returned(2)]
    show ?thesis by auto
  next
    case (restart c lx1 lx2)
    with less.hyps [OF restart(4,3)] show ?thesis by (auto split: if_splits)
  qed
qed

section \<open>Errors\<close>

lemma char_token_Inl: "char_token c = Inl e \<Longrightarrow> e = Runtime_error (''unknown input character: '' @ [c])"
  by (auto simp: char_token_def split: if_splits)

text \<open>Every error of the lexer carries its position, but for the one of \<open>char_token\<close>.\<close>

definition lexer_exc :: "lexer \<Rightarrow> exc \<Rightarrow> bool" where
  "lexer_exc lx e \<longleftrightarrow>
     (\<exists>m. e = lex_error lx m) \<or> (\<exists>c. (c = dquote \<or> c = squote)
        \<and> e = Runtime_error (''unknown input character: '' @ [c]))"

lemma lexer_exc_runtime: "lexer_exc lx e \<Longrightarrow> \<exists>m. e = Runtime_error m"
  by (auto simp: lexer_exc_def lex_error_def)

lemma return_char_token_Inl:
  "return_char_token c lx = (Done (Inl e), lx') \<Longrightarrow>
     lx' = lx \<and> e = Runtime_error (''unknown input character: '' @ [c]) \<and> char_token c = Inl e"
  by (auto simp: return_char_token_def return_token_def dest: char_token_Inl split: sum.splits)

lemma char_token_ok: "c \<in> set ''=(){}[],#%/*'' \<Longrightarrow> char_token c \<noteq> Inl e"
  by (auto simp: char_token_def)

lemma location_stream [simp]:
  "location (lx\<lparr>is_stream := s\<rparr>) = location lx"
  "location (lx\<lparr>string_val := v\<rparr>) = location lx"
  "location (lx\<lparr>num_val := x\<rparr>) = location lx"
  "location (lx\<lparr>current_token := t\<rparr>) = location lx"
  "location (lx\<lparr>hold := b\<rparr>) = location lx"
  by (simp_all add: location_def)

lemma lex_error_stream [simp]:
  "lex_error (lx\<lparr>is_stream := s\<rparr>) = lex_error lx"
  "lex_error (lx\<lparr>string_val := v\<rparr>) = lex_error lx"
  "lex_error (lx\<lparr>num_val := x\<rparr>) = lex_error lx"
  "lex_error (lx\<lparr>current_token := t\<rparr>) = lex_error lx"
  "lex_error (lx\<lparr>hold := b\<rparr>) = lex_error lx"
  by (simp_all add: lex_error_def fun_eq_iff)

lemma lexer_exc_lex_error: "location lx' = location lx \<Longrightarrow> lexer_exc lx' (lex_error lx m)"
  by (auto simp: lexer_exc_def lex_error_def)

lemma lex_slash_exc: "lex_slash lx = (Done (Inl e), lx') \<Longrightarrow> lexer_exc lx' e"
  by (auto simp: lex_slash_def return_token_def lexer_exc_lex_error
      split: if_splits prod.splits option.splits dest!: lex_line_comment_Done)

lemma lex_number_exc: "lex_number c lx = (Done (Inl e), lx') \<Longrightarrow> lexer_exc lx' e"
  by (auto simp: lex_number_def return_token_def lexer_exc_lex_error Let_def
      split: if_splits prod.splits)

lemma lex_ident_exc: "lex_ident c lx = (Done (Inl e), lx') \<Longrightarrow> lexer_exc lx' e"
  by (auto simp: lex_ident_def return_token_def split: prod.splits)

lemmas lex_branch_exc = lex_slash_exc lex_number_exc lex_ident_exc

lemma char_token_quotes: "char_token c = Inl e \<Longrightarrow> c \<notin> set ''=(){}[],#%/*''"
  by (auto simp: char_token_def)

lemma lex_hash_percent_exc:
  assumes "lex_hash_percent c lx = (Done (Inl e), lx')" "c = CHR ''#'' \<or> c = CHR ''%''"
  shows False
proof (cases "comment_style (style lx) = c_comments \<or> comment_char lx \<noteq> c")
  case True
  with assms(1) have "return_char_token c lx = (Done (Inl e), lx')" by (simp add: lex_hash_percent_def)
  from return_char_token_Inl [OF this] assms(2) show False using char_token_quotes [of c e] by auto
next
  case False
  with assms(1) show False by (simp add: lex_hash_percent_def) (auto dest: lex_line_comment_Done)
qed

lemma lex_quote_exc:
  assumes "lex_quote c lx = (Done (Inl e), lx')" "c = dquote \<or> c = squote"
  shows "lexer_exc lx' e"
proof (cases "quote_char lx \<noteq> c")
  case True
  with assms(1) have "return_char_token c lx = (Done (Inl e), lx')" by (simp add: lex_quote_def)
  from return_char_token_Inl [OF this] assms(2) show ?thesis unfolding lexer_exc_def by blast
next
  case False
  with assms(1) show ?thesis
    by (auto simp: lex_quote_def return_token_def lexer_exc_lex_error split: prod.splits option.splits)
qed

lemma lex_char_exc:
  assumes "lex_char c lx = (Done (Inl e), lx')"
  shows "lexer_exc lx' e"
  using assms
proof (cases rule: lex_char_cases)
  case char
  then show ?thesis using char_token_quotes [of c e] return_char_token_Inl [OF char(1)] by auto
qed (auto dest: lex_branch_exc lex_quote_exc lex_hash_percent_exc simp: lexer_exc_lex_error)

lemma get_token_loop_exc: "get_token_loop lx = (Inl e, lx') \<Longrightarrow> lexer_exc lx' e"
proof (induction "input_len lx" arbitrary: lx rule: less_induct)
  case less
  from less.prems show ?case
  proof (cases rule: get_token_loop_cases)
    case (stop c)
    then show ?thesis using lex_start_Some [OF stop] by (auto simp: lexer_exc_lex_error)
  next
    case (returned c lx1)
    then show ?thesis by (auto dest: lex_char_exc)
  next
    case (restart c lx1 lx2)
    with less.hyps show ?thesis by auto
  qed
qed

section \<open>The interface holds\<close>

lemma get_token_token:
  "get_token lx = (Inr t, lx') \<Longrightarrow>
     current_token lx' = t \<and> \<not> hold lx' \<and> (if t = END then pending lx' \<le> pending lx else pending lx' < pending lx)"
  using get_token_loop_token [of lx t lx'] get_token_loop_frame [of lx "Inr t" lx']
  by (auto simp: get_token_def pending_def same_frame_def split: if_splits)

lemma get_token_exc: "get_token lx = (Inl e, lx') \<Longrightarrow> lexer_exc lx' e"
  by (auto simp: get_token_def split: if_splits dest: get_token_loop_exc)

interpretation lexer_source: token_source get_token putback pending END current_token
proof
  show "pending (putback l) \<le> Suc (pending l)" for l
    by (simp add: pending_def putback_def)
  show "pending (putback l) \<le> pending l" if "current_token l = END" for l
    using that by (simp add: pending_def putback_def)
  show "e \<noteq> Fuel" if "get_token l = (Inl e, l')" for l l' e
    using lexer_exc_runtime [OF get_token_exc [OF that]] by auto
qed (use get_token_token in \<open>force+\<close>)

section \<open>Line numbers\<close>

text \<open>The line number plus the newlines still to be read is constant over every successful
  read.\<close>

lemma newlines_simps [simp]:
  "newlines [] = 0"
  "newlines (c # cs) = (if c = newline_char then 1 else 0) + newlines cs"
  "newlines (xs @ ys) = newlines xs + newlines ys"
  by (simp_all add: newlines_def isnewline_def)

lemma newlines_none: "\<forall>c \<in> set cs. c \<noteq> newline_char \<Longrightarrow> newlines cs = 0"
  by (induction cs) auto

definition lines_of :: "lexer \<Rightarrow> nat" where
  "lines_of lx = line_no lx + newlines (ibuf (is_stream lx))"

lemma munch_lines: "lines_of (munch_till_asterisks_slash lx) = lines_of lx"
proof (induction lx rule: munch_till_asterisks_slash.induct)
  case (1 lx)
  obtain cs oc s where g: "get_while (\<lambda>c. c \<noteq> CHR ''*'') (is_stream lx) = (cs, oc, s)"
    by (cases "get_while (\<lambda>c. c \<noteq> CHR ''*'') (is_stream lx)") auto
  obtain r s' where p: "is_peek s = (r, s')" by (cases "is_peek s") auto
  have s': "ibuf s' = ibuf s" and sp: "ibuf (is_stream lx) = cs @ (case oc of None \<Rightarrow> [] | Some c \<Rightarrow> [c]) @ ibuf s"
    using is_peek_keeps [OF p] get_while_split [OF g] by simp_all
  have oc: "oc = Some d \<Longrightarrow> d = CHR ''*''" for d
    using g get_while_Some_good(3) by fastforce
  show ?case
  proof (cases "oc \<noteq> None \<and> (\<exists>c. r = Some c \<and> c \<noteq> CHR ''/'')")
    case True
    then obtain d c where oc': "oc = Some d" and r: "r = Some c" and c: "c \<noteq> CHR ''/''" by auto
    have "lines_of (munch_till_asterisks_slash
        (lx\<lparr>line_no := line_no lx + newlines cs, is_stream := s'\<rparr>)) = line_no lx + newlines cs + newlines (ibuf s')"
      using "1.IH" [OF g [symmetric] refl refl oc' p [symmetric] r c] by (simp add: lines_of_def)
    with sp s' oc oc' r c g p show ?thesis
      by (subst munch_till_asterisks_slash.simps) (simp add: lines_of_def)
  next
    case False
    then consider "oc = None" | d where "oc = Some d" "r = None"
      | d where "oc = Some d" "r = Some CHR ''/''"
      by (cases oc; cases r) auto
    then show ?thesis
    proof cases
      case 1
      with sp g show ?thesis by (simp add: munch_till_asterisks_slash.simps [of lx] Let_def lines_of_def)
    next
      case (2 d)
      with sp s' g p oc show ?thesis
        by (simp add: munch_till_asterisks_slash.simps [of lx] Let_def lines_of_def)
    next
      case (3 d)
      with p obtain xs where "good s" "s' = s" "ibuf s = CHR ''/'' # xs"
        by (auto simp: is_peek_Some)
      with 3 sp g p oc show ?thesis
        by (simp add: munch_till_asterisks_slash.simps [of lx] Let_def lines_of_def is_ignore_def)
    qed
  qed
qed

lemma lex_line_comment_lines:
  assumes "lex_line_comment lx = (r, lx')" "good (is_stream lx)"
  shows "lines_of lx' = lines_of lx"
proof -
  obtain cs oc s where g: "get_while (\<lambda>c. \<not> isnewline c) (is_stream lx) = (cs, oc, s)"
    by (cases "get_while (\<lambda>c. \<not> isnewline c) (is_stream lx)") auto
  note sp = get_while_split [OF g]
  have oc: "oc = Some d \<Longrightarrow> d = newline_char" for d
    using g get_while_Some_good(3) by (fastforce simp: isnewline_def)
  have "newlines cs = 0" using sp(2) by (intro newlines_none) (simp add: isnewline_def)
  with assms sp oc g show ?thesis
    by (cases oc) (auto simp: lex_line_comment_def return_token_def lines_of_def Let_def split: if_splits)
qed

lemma lex_string_loop_lines:
  "lex_string_loop q s acc = (None, v, t) \<Longrightarrow> q \<noteq> newline_char \<Longrightarrow> newlines (ibuf t) = newlines (ibuf s)"
proof (induction q s acc arbitrary: v t rule: lex_string_loop.induct)
  case (1 q s acc)
  obtain r s' where g: "is_get s = (r, s')" by (cases "is_get s")
  obtain r2 t' where g2: "is_get s' = (r2, t')" by (cases "is_get s'")
  show ?case
    using "1.prems" g g2 "1.IH"(1) [OF g [symmetric]] "1.IH"(2) [OF g [symmetric]]
    by (auto simp: lex_string_loop.simps [of q s] isnewline_def is_get_Some split: option.splits if_splits)
qed

lemma scan_float_newlines: "scan_float m d e s = (f, r) \<Longrightarrow> newlines r = newlines s"
  by (auto dest!: scan_float_prefix intro!: newlines_none)

lemma lex_number_lines:
  assumes "lex_number c lx = (Done (Inr t), lx')" "good (is_stream lx)" "c \<noteq> newline_char"
  shows "lines_of lx' = lines_of lx"
proof -
  obtain f r where fr: "float_field (c # ibuf (is_stream lx)) = (f, r)"
    by (cases "float_field (c # ibuf (is_stream lx))")
  then have "newlines r = newlines (c # ibuf (is_stream lx))"
    by (auto simp: float_field_def split: if_splits prod.splits dest: scan_float_newlines)
  with assms fr show ?thesis
    by (auto simp: lex_number_def extract_double_def is_putback_def good_def lines_of_def
        return_token_def Let_def split: option.splits double.splits if_splits)
qed

lemma lex_ident_lines:
  assumes "lex_ident c lx = (Done (Inr t), lx')"
  shows "lines_of lx' = lines_of lx"
proof -
  let ?P = "\<lambda>d. isalnum d \<or> d = CHR ''_''"
  obtain cs oc s where g: "get_while ?P (is_stream lx) = (cs, oc, s)"
    by (cases "get_while ?P (is_stream lx)") auto
  note sp = get_while_split [OF g]
  have "newlines cs = 0" using sp(2) by (intro newlines_none) (auto simp: char_simps)
  moreover have "oc = Some d \<Longrightarrow> \<not> failbit s" for d
    using g get_while_Some_good(2) by (force simp: good_def)
  ultimately show ?thesis
    using assms g sp(1)
    by (cases oc) (auto simp: lex_ident_def return_token_def lines_of_def is_putback_def)
qed

lemma lex_quote_lines:
  assumes "lex_quote c lx = (Done (Inr t), lx')"
  shows "lines_of lx' = lines_of lx"
proof (cases "quote_char lx \<noteq> c")
  case True
  with assms have "return_char_token c lx = (Done (Inr t), lx')" by (simp add: lex_quote_def)
  from return_char_token_Done [OF this] show ?thesis by (simp add: lines_of_def)
next
  case False
  have "quote_char lx \<noteq> newline_char" by (simp add: quote_char_def)
  with False assms show ?thesis
    by (auto simp: lex_quote_def return_token_def lines_of_def split: prod.splits option.splits
        dest: lex_string_loop_lines)
qed

lemma lines_of_stream [simp]: "ibuf s = ibuf (is_stream lx) \<Longrightarrow> lines_of (lx\<lparr>is_stream := s\<rparr>) = lines_of lx"
  "lines_of (lx\<lparr>current_token := t\<rparr>) = lines_of lx"
  by (simp_all add: lines_of_def)

lemma lex_slash_lines:
  assumes "lex_slash lx = (r, lx')" "\<forall>e. r \<noteq> Done (Inl e)" "good (is_stream lx)"
  shows "lines_of lx' = lines_of lx"
proof -
  obtain o1 s where p: "is_peek (is_stream lx) = (o1, s)" by (cases "is_peek (is_stream lx)")
  note pk = is_peek_keeps [OF p]
  show ?thesis
  proof (cases o1)
    case None
    with assms p pk show ?thesis by (auto simp: lex_slash_def return_token_def lines_of_def)
  next
    case (Some c)
    with p have g: "good s" and s: "s = is_stream lx" and cs: "ibuf s = c # tl (ibuf s)"
      by (auto simp: is_peek_Some)
    consider (line) "c = CHR ''/''" | (block) "c = CHR ''*''" | (other) "c \<noteq> CHR ''/''" "c \<noteq> CHR ''*''"
      by blast
    then show ?thesis
    proof cases
      case line
      with assms p Some pk g show ?thesis
        by (auto simp: lex_slash_def return_token_def lines_of_def split: if_splits dest: lex_line_comment_lines)
    next
      case block
      then have "newlines (ibuf (is_ignore s)) = newlines (ibuf s)"
        using g cs by (cases "ibuf s") (auto simp: is_ignore_def)
      with block assms p Some pk s show ?thesis
        by (auto simp: lex_slash_def return_token_def munch_lines lines_of_def [of "lx\<lparr>is_stream := _\<rparr>"] split: if_splits)
          (auto simp: lines_of_def)
    next
      case other
      with assms p Some show ?thesis by (auto simp: lex_slash_def)
    qed
  qed
qed

lemma lex_char_lines:
  assumes r: "lex_char c lx = (r, lx')" "\<forall>e. r \<noteq> Done (Inl e)" "good (is_stream lx)" "\<not> isspace c"
  shows "lines_of lx' = lines_of lx"
proof -
  have c: "c \<noteq> newline_char" using r(4) by (auto simp: char_simps)
  have ok: "r = Done (Inr t) \<Longrightarrow> lines_of lx' = lines_of lx" if "return_char_token c lx = (r, lx')" for t
    using that return_char_token_Done [of c lx t lx'] by auto
  show ?thesis
  proof (cases r)
    case (Done x)
    then obtain t where t: "r = Done (Inr t)" using r(2) by (cases x) auto
    from r(1) show ?thesis
    proof (cases rule: lex_char_cases)
      case hash
      with r(3) ok [OF _ t] t show ?thesis
        by (auto simp: lex_hash_percent_def split: if_splits dest: lex_line_comment_lines)
    qed (use r t c ok in \<open>auto dest: lex_slash_lines lex_quote_lines lex_number_lines lex_ident_lines\<close>)
  next
    case Restart
    from r(1) show ?thesis
    proof (cases rule: lex_char_cases)
      case hash
      with r(3) Restart show ?thesis
        by (auto simp: lex_hash_percent_def split: if_splits dest: lex_line_comment_lines)
    next
      case quote
      with Restart show ?thesis
        by (auto simp: lex_quote_def return_token_def split: if_splits prod.splits option.splits)
    next
      case number
      with Restart show ?thesis
        by (auto simp: lex_number_def return_token_def Let_def split: if_splits prod.splits)
    next
      case ident
      with Restart show ?thesis
        by (auto simp: lex_ident_def return_token_def split: if_splits prod.splits)
    qed (use r Restart in \<open>auto dest: lex_slash_lines\<close>)
  qed
qed

lemma lex_start_lines:
  assumes "lex_start lx = (r, c, lx')" and that: "r = None \<or> r = Some (Inr END)"
  shows "lines_of lx' = lines_of lx"
proof -
  obtain cs oc s where g: "get_while isspace (is_stream lx) = (cs, oc, s)"
    by (cases "get_while isspace (is_stream lx)") auto
  note sp = get_while_split(1) [OF g]
  have "oc = Some d \<Longrightarrow> d \<noteq> newline_char \<and> good s" for d
    using g get_while_Some_good [of isspace "is_stream lx" cs d s] by (auto simp: char_simps)
  with assms g sp that show ?thesis
    by (cases oc) (auto simp: lex_start_def lines_of_def good_def Let_def split: if_splits)
qed

lemma get_token_loop_lines: "get_token_loop lx = (Inr t, lx') \<Longrightarrow> lines_of lx' = lines_of lx"
proof (induction "input_len lx" arbitrary: lx rule: less_induct)
  case less
  from less.prems show ?case
  proof (cases rule: get_token_loop_cases)
    case (stop c)
    then show ?thesis using lex_start_Some [OF stop] lex_start_lines [OF stop] by auto
  next
    case (returned c lx1)
    with lex_start_None [OF returned(1)] lex_start_lines [OF returned(1)] lex_char_lines [OF returned(2)]
    show ?thesis by auto
  next
    case (restart c lx1 lx2)
    with lex_start_None [OF restart(1)] lex_start_lines [OF restart(1)] lex_char_lines [OF restart(2)]
      less.hyps [OF restart(4,3)]
    show ?thesis by auto
  qed
qed

lemma get_token_lines: "get_token lx = (Inr t, lx') \<Longrightarrow> lines_of lx' = lines_of lx"
  by (auto simp: get_token_def lines_of_def split: if_splits dest: get_token_loop_lines [unfolded lines_of_def])

end
