(* ===== verification/Lexer_Tokens.thy ===== *)
theory Lexer_Tokens
  imports Lexer_Facts "HOL-Library.Sublist"
begin

text \<open>
  What \<open>get_token\<close> returns on a given text: white space and the three kinds of comments are
  skipped, and every kind of token is read back from the text that a printer writes for it. The
  round trip of the parser rests on these evaluation lemmas.
\<close>

section \<open>Reading from a text\<close>

definition feed :: "lexer \<Rightarrow> string \<Rightarrow> lexer" where
  "feed lx s = lx\<lparr>is_stream := istream_of s\<rparr>"

definition skip_lines :: "nat \<Rightarrow> lexer \<Rightarrow> lexer" where
  "skip_lines n lx = lx\<lparr>line_no := line_no lx + n\<rparr>"

lemma feed_sel [simp]:
  "is_stream (feed lx s) = istream_of s" "style (feed lx s) = style lx"
  "current_token (feed lx s) = current_token lx" "string_val (feed lx s) = string_val lx"
  "num_val (feed lx s) = num_val lx" "line_no (feed lx s) = line_no lx"
  "lex_filename (feed lx s) = lex_filename lx" "hold (feed lx s) = hold lx"
  "lex_state (feed lx s) = lex_state lx"
  by (simp_all add: feed_def)

lemma feed_upd:
  "(feed lx s)\<lparr>is_stream := istream_of t\<rparr> = feed lx t"
  "(feed lx s)\<lparr>line_no := n\<rparr> = feed (lx\<lparr>line_no := n\<rparr>) s"
  by (simp_all add: feed_def)

lemma takeWhile_spaces:
  "\<forall>c \<in> set ws. isspace c \<Longrightarrow> takeWhile isspace (ws @ s) = ws @ takeWhile isspace s"
  "\<forall>c \<in> set ws. isspace c \<Longrightarrow> dropWhile isspace (ws @ s) = dropWhile isspace s"
  by (induction ws) auto

lemma lex_start_spaces:
  "\<forall>c \<in> set ws. isspace c \<Longrightarrow> lex_start (feed lx (ws @ s)) = lex_start (feed (skip_lines (newlines ws) lx) s)"
  by (simp add: lex_start_def get_while_of takeWhile_spaces feed_def skip_lines_def lex_error_def
      location_def Let_def add.assoc split: list.splits)

lemma get_token_loop_spaces:
  "\<forall>c \<in> set ws. isspace c \<Longrightarrow>
     get_token_loop (feed lx (ws @ s)) = get_token_loop (feed (skip_lines (newlines ws) lx) s)"
  using lex_start_spaces [of ws lx s] by (simp add: get_token_loop.simps)

lemma lex_start_char:
  "\<not> isspace c \<Longrightarrow> lex_start (feed lx (c # s)) = (None, c, feed lx s)"
  by (simp add: lex_start_def get_while_of feed_def Let_def)

lemma get_token_loop_char:
  "\<not> isspace c \<Longrightarrow> get_token_loop (feed lx (c # s)) =
     (case lex_char c (feed lx s) of (Done r, lx2) \<Rightarrow> (r, lx2) | (Restart, lx2) \<Rightarrow> get_token_loop lx2)"
  by (simp add: get_token_loop.simps [of "feed lx (c # s)"] lex_start_char)

lemma get_token_loop_end:
  "\<forall>c \<in> set ws. isspace c \<Longrightarrow> fst (get_token_loop (feed lx ws)) = Inr END"
  using get_token_loop_spaces [of ws lx "[]"]
  by (simp add: get_token_loop.simps [of "feed _ []"] lex_start_def get_while_of Let_def)

section \<open>Comments\<close>

text \<open>The texts that open a comment up to the end of the line, per style.\<close>

definition line_comment_start :: "lexer_style_t \<Rightarrow> string list" where
  "line_comment_start ls =
     (case comment_style ls of
        c_comments \<Rightarrow> [''//'']
      | hash_comments \<Rightarrow> [''#'']
      | percent_comments \<Rightarrow> [''%'', ''//''])"

lemma get_while_line:
  "newline_char \<notin> set b \<Longrightarrow>
     get_while (\<lambda>c. \<not> isnewline c) (istream_of (b @ newline_char # s)) = (b, Some newline_char, istream_of s)"
proof -
  assume b: "newline_char \<notin> set b"
  then have "takeWhile (\<lambda>c. \<not> isnewline c) (b @ newline_char # s) = b"
    "dropWhile (\<lambda>c. \<not> isnewline c) (b @ newline_char # s) = newline_char # s"
    by (induction b) (auto simp: isnewline_def)
  then show ?thesis by (simp add: get_while_of)
qed

lemma lex_line_comment_feed:
  "newline_char \<notin> set b \<Longrightarrow>
     lex_line_comment (feed lx (b @ newline_char # s)) = (Restart, feed (skip_lines 1 lx) s)"
  by (simp add: lex_line_comment_def get_while_line skip_lines_def feed_def)

lemma get_token_loop_line_comment:
  assumes "st \<in> set (line_comment_start (style lx))" "newline_char \<notin> set b"
  shows "get_token_loop (feed lx (st @ b @ newline_char # s)) = get_token_loop (feed (skip_lines 1 lx) s)"
proof -
  have sp: "\<not> isspace (CHR ''#'')" "\<not> isspace (CHR ''%'')" "\<not> isspace (CHR ''/'')"
    by (simp_all add: char_simps)
  from assms(1) consider
      (hash) "st = ''#''" "comment_style (style lx) = hash_comments"
    | (percent) "st = ''%''" "comment_style (style lx) = percent_comments"
    | (slash) "st = ''//''" "comment_style (style lx) \<noteq> hash_comments"
    by (auto simp: line_comment_start_def split: comment_style_t.splits)
  then show ?thesis
  proof cases
    case hash
    then have "lex_char (CHR ''#'') (feed lx (b @ newline_char # s)) = (Restart, feed (skip_lines 1 lx) s)"
      using assms(2)
      by (simp add: lex_char_def lex_hash_percent_def comment_char_def lex_line_comment_feed)
    with hash sp show ?thesis by (simp add: get_token_loop_char [of "CHR ''#''"])
  next
    case percent
    then have "lex_char (CHR ''%'') (feed lx (b @ newline_char # s)) = (Restart, feed (skip_lines 1 lx) s)"
      using assms(2)
      by (simp add: lex_char_def lex_hash_percent_def comment_char_def lex_line_comment_feed)
    with percent sp show ?thesis by (simp add: get_token_loop_char [of "CHR ''%''"])
  next
    case slash
    then have "lex_char (CHR ''/'') (feed lx (CHR ''/'' # b @ newline_char # s)) = (Restart, feed (skip_lines 1 lx) s)"
      using assms(2) lex_line_comment_feed [of "CHR ''/'' # b" lx s]
      by (simp add: lex_char_def lex_slash_def feed_upd)
    with slash sp show ?thesis by (simp add: get_token_loop_char [of "CHR ''/''" _ "CHR ''/'' # _"])
  qed
qed

text \<open>A block comment, in the C style only: any body in which \<^verbatim>\<open>*/\<close> does not occur.\<close>

lemma sublist_split: "\<not> sublist ''*/'' (p @ CHR ''*'' # q) \<Longrightarrow> \<not> prefix ''/'' q \<and> \<not> sublist ''*/'' q"
proof
  assume n: "\<not> sublist ''*/'' (p @ CHR ''*'' # q)"
  show "\<not> prefix ''/'' q"
  proof
    assume "prefix ''/'' q"
    then obtain z where "q = ''/'' @ z" by (auto simp: prefix_def)
    then have "p @ CHR ''*'' # q = p @ ''*/'' @ z" by simp
    with n show False unfolding sublist_def by metis
  qed
  show "\<not> sublist ''*/'' q"
  proof
    assume "sublist ''*/'' q"
    then obtain y z where "q = y @ ''*/'' @ z" by (auto simp: sublist_def)
    then have "p @ CHR ''*'' # q = (p @ CHR ''*'' # y) @ ''*/'' @ z" by simp
    with n show False unfolding sublist_def by metis
  qed
qed

lemma munch_feed:
  "\<not> sublist ''*/'' b \<Longrightarrow>
     munch_till_asterisks_slash (feed lx (b @ ''*/'' @ s)) = feed (skip_lines (newlines b) lx) s"
proof (induction "length b" arbitrary: b lx rule: less_induct)
  case less
  let ?P = "\<lambda>c. c \<noteq> CHR ''*''"
  show ?case
  proof (cases "CHR ''*'' \<in> set b")
    case False
    then have "takeWhile ?P (b @ ''*/'' @ s) = b" "dropWhile ?P (b @ ''*/'' @ s) = ''*/'' @ s"
      by (induction b) auto
    then show ?thesis
      by (subst munch_till_asterisks_slash.simps, simp add: get_while_of) (simp add: feed_def skip_lines_def)
  next
    case True
    then obtain p q where b: "b = p @ CHR ''*'' # q" and p: "CHR ''*'' \<notin> set p"
      by (meson split_list_first)
    from p have tw: "takeWhile ?P (b @ ''*/'' @ s) = p" "dropWhile ?P (b @ ''*/'' @ s) = CHR ''*'' # q @ ''*/'' @ s"
      unfolding b by (induction p) auto
    from less.prems b have q: "\<not> prefix ''/'' q" "\<not> sublist ''*/'' q" using sublist_split by auto
    obtain c r where c: "q @ ''*/'' @ s = c # r" "c \<noteq> CHR ''/''"
      using q(1) by (cases q) (auto simp: prefix_def)
    have "munch_till_asterisks_slash (feed lx (b @ ''*/'' @ s))
        = munch_till_asterisks_slash (feed (skip_lines (newlines p) lx) (q @ ''*/'' @ s))"
      using tw c
      by (subst munch_till_asterisks_slash.simps, simp add: get_while_of) (simp add: feed_def skip_lines_def)
    also have "\<dots> = feed (skip_lines (newlines q) (skip_lines (newlines p) lx)) s"
      using less.hyps [OF _ q(2)] b by simp
    finally show ?thesis by (simp add: b skip_lines_def add.assoc)
  qed
qed

lemma get_token_loop_block_comment:
  assumes "comment_style (style lx) = c_comments" "\<not> sublist ''*/'' b"
  shows "get_token_loop (feed lx (''/*'' @ b @ ''*/'' @ s)) = get_token_loop (feed (skip_lines (newlines b) lx) s)"
proof -
  have "\<not> isspace (CHR ''/'')" by (simp add: char_simps)
  then show ?thesis
    using munch_feed [OF assms(2)] assms(1)
    by (simp add: get_token_loop_char lex_char_def lex_slash_def feed_upd)
qed

section \<open>Tokens read back\<close>

text \<open>The text of a quoted string: the escapes that the lexer undoes.\<close>

definition escape_char :: "char \<Rightarrow> char \<Rightarrow> string" where
  "escape_char q c =
     (if c = q then [backslash, q] else if c = newline_char then [backslash, CHR ''n'']
      else if c = backslash then [backslash, backslash] else [c])"

definition escape :: "char \<Rightarrow> string \<Rightarrow> string" where
  "escape q s = concat (map (escape_char q) s)"

definition quoted :: "char \<Rightarrow> string \<Rightarrow> string" where
  "quoted q s = q # escape q s @ [q]"

lemma lex_string_loop_escape:
  "q = dquote \<or> q = squote \<Longrightarrow>
     lex_string_loop q (istream_of (escape q s @ q # rest)) acc = (None, acc @ s, istream_of rest)"
proof (induction s arbitrary: acc)
  case Nil
  then show ?case
    by (subst lex_string_loop.simps) (auto simp: escape_def isnewline_def)
next
  case (Cons c s)
  have sp: "escape q (c # s) @ q # rest = escape_char q c @ (escape q s @ q # rest)"
    by (simp add: escape_def)
  show ?case
    unfolding sp using Cons
    by (subst lex_string_loop.simps) (auto simp: escape_char_def isnewline_def)
qed

lemma digit_not_punct: "isdigit c \<Longrightarrow> c \<notin> insert dquote (insert squote (set ''#%/=(){}[],''))"
  by (auto simp: char_simps)

lemma alpha_not_punct:
  "isalpha c \<Longrightarrow> c \<notin> insert dquote (insert squote (set ''#%/=(){}[],.+-'')) \<and> \<not> isdigit c"
  by (auto simp: char_simps)

lemma lex_char_digit: "isdigit c \<Longrightarrow> lex_char c lx = lex_number c lx"
  using digit_not_punct [of c] by (simp add: lex_char_def)

lemma lex_char_alpha: "isalpha c \<Longrightarrow> lex_char c lx = lex_ident c lx"
  using alpha_not_punct [of c] by (simp add: lex_char_def)

lemma lex_char_quote: "c = dquote \<or> c = squote \<Longrightarrow> lex_char c lx = lex_quote c lx"
  by (auto simp: lex_char_def)

lemma lex_char_punct: "c \<in> set ''=(){}[],'' \<Longrightarrow> lex_char c lx = return_char_token c lx"
  by (auto simp: lex_char_def)

lemmas lex_char_eqs = lex_char_digit lex_char_alpha lex_char_quote

lemma quote_char_cases: "quote_char lx = dquote \<or> quote_char lx = squote"
  by (simp add: quote_char_def)

lemma quote_char_feed [simp]: "quote_char (feed lx s) = quote_char lx"
  by (simp add: quote_char_def)

lemma get_token_loop_string:
  "get_token_loop (feed lx (quoted (quote_char lx) s @ rest))
     = (Inr STRING, (feed lx rest)\<lparr>string_val := s, current_token := STRING\<rparr>)"
proof -
  let ?q = "quote_char lx"
  have "\<not> isspace ?q" using quote_char_cases [of lx] by (auto simp: char_simps)
  moreover have "lex_char ?q (feed lx (escape ?q s @ ?q # rest))
      = (Done (Inr STRING), (feed lx rest)\<lparr>string_val := s, current_token := STRING\<rparr>)"
    using lex_string_loop_escape [of ?q s rest "[]"] quote_char_cases [of lx]
    by (simp add: lex_char_eqs lex_quote_def return_token_def feed_upd)
  ultimately show ?thesis
    by (simp add: quoted_def get_token_loop_char)
qed

text \<open>What may follow an identifier or a number for it to end there.\<close>

definition ident_char :: "char \<Rightarrow> bool" where
  "ident_char c \<longleftrightarrow> isalnum c \<or> c = CHR ''_''"

definition ends_word :: "string \<Rightarrow> bool" where
  "ends_word s = (case s of [] \<Rightarrow> False | c # _ \<Rightarrow> \<not> ident_char c \<and> c \<noteq> CHR ''.'')"

definition is_ident :: "string \<Rightarrow> bool" where
  "is_ident s = (case s of [] \<Rightarrow> False | c # cs \<Rightarrow> isalpha c \<and> list_all ident_char cs)"

lemma takeWhile_ends:
  "list_all P s \<Longrightarrow> \<not> P d \<Longrightarrow> takeWhile P (s @ d # r) = s \<and> dropWhile P (s @ d # r) = d # r"
  by (induction s) auto

lemma get_token_loop_ident:
  assumes "is_ident s" "ends_word rest"
  shows "get_token_loop (feed lx (s @ rest))
     = (Inr IDENT, (feed lx rest)\<lparr>string_val := s, current_token := IDENT\<rparr>)"
proof -
  from assms obtain c cs where s: "s = c # cs" "isalpha c" "list_all ident_char cs"
    by (auto simp: is_ident_def split: list.splits)
  from assms obtain d r where r: "rest = d # r" "\<not> ident_char d"
    by (auto simp: ends_word_def split: list.splits)
  have "get_while (\<lambda>d. isalnum d \<or> d = CHR ''_'') (istream_of (cs @ rest)) = (cs, Some d, istream_of r)"
    using takeWhile_ends [OF s(3) r(2), of r] r(1)
    unfolding ident_char_def get_while_of by simp
  then have "lex_char c (feed lx (cs @ rest))
      = (Done (Inr IDENT), (feed lx rest)\<lparr>string_val := s, current_token := IDENT\<rparr>)"
    using s r(1) by (simp add: lex_char_eqs lex_ident_def return_token_def feed_def)
  then show ?thesis
    using s by (simp add: get_token_loop_char class_disjoint)
qed

lemma scan_float_digits:
  assumes "list_all isdigit ds" "ends_word rest"
  shows "scan_float m d e (ds @ rest) = (ds, rest)"
  using assms(1)
proof (induction ds arbitrary: m)
  case Nil
  from assms(2) obtain c r where "rest = c # r" "\<not> isdigit c" "c \<noteq> CHR ''.''" "\<not> isalpha c"
    by (auto simp: ends_word_def ident_char_def isalnum_def split: list.splits)
  moreover have "isalpha (CHR ''e'')" "isalpha (CHR ''E'')" by (simp_all add: char_simps)
  ultimately show ?case by (auto simp: scan_float.simps(2))
next
  case (Cons c ds)
  then show ?case by (simp add: scan_float.simps(2))
qed

lemma nat_to_string_split:
  "\<exists>c cs. nat_to_string n = c # cs \<and> isdigit c \<and> list_all isdigit cs"
  using nat_to_string_digits [of _ n] nat_to_string_nonempty [of n]
  by (cases "nat_to_string n") (auto simp: list_all_iff)

lemma strtod_exact_nat: "strtod_exact (nat_to_string n) = Some (of_nat n)"
proof -
  obtain c cs where s: "nat_to_string n = c # cs" "isdigit c" "list_all isdigit cs"
    using nat_to_string_split by blast
  have "c \<noteq> CHR ''-''" "c \<noteq> CHR ''+''" using s(2) by (auto simp: char_simps)
  then have sp: "split_sign (nat_to_string n) = (False, nat_to_string n)" by (simp add: split_sign_def s)
  have tw: "takeWhile isdigit (nat_to_string n) = nat_to_string n" "dropWhile isdigit (nat_to_string n) = []"
    using nat_to_string_digits by (simp_all add: takeWhile_eq_all_conv)
  have "split_sign [] = (False, [])" by (simp add: split_sign_def)
  then show ?thesis
    by (simp add: strtod_exact_def sp tw digits_val_nat_to_string Let_def)
qed

lemma get_token_loop_nat:
  assumes "n < 2 ^ 53" "ends_word rest"
  shows "get_token_loop (feed lx (nat_to_string n @ rest))
     = (Inr NUM, (feed lx rest)\<lparr>num_val := Fin (of_nat n), current_token := NUM\<rparr>)"
proof -
  obtain c cs where s: "nat_to_string n = c # cs" "isdigit c" "list_all isdigit cs"
    using nat_to_string_split by blast
  have c: "c \<noteq> CHR ''-''" "c \<noteq> CHR ''+''" using s(2) by (auto simp: char_simps)
  have "scan_float False False False (nat_to_string n @ rest) = (nat_to_string n, rest)"
    using scan_float_digits [of "c # cs" rest] s assms(2) by simp
  then have "float_field (c # cs @ rest) = (nat_to_string n, rest)"
    using c by (simp add: float_field_def s)
  moreover have "rest \<noteq> []" using assms(2) by (auto simp: ends_word_def)
  ultimately have "extract_double (istream_of (c # cs @ rest)) = (Fin (of_nat n), istream_of rest)"
    using to_double_of_nat [of n] assms(1) strtod_exact_nat [of n]
    by (simp add: extract_double_def istream_of_def)
  then have "lex_char c (feed lx (cs @ rest))
      = (Done (Inr NUM), (feed lx rest)\<lparr>num_val := Fin (of_nat n), current_token := NUM\<rparr>)"
    using s by (simp add: lex_char_eqs lex_number_def return_token_def feed_def)
  then show ?thesis
    using s by (simp add: get_token_loop_char class_disjoint)
qed

lemma get_token_loop_minus:
  assumes "n < 2 ^ 53" "ends_word rest"
  shows "get_token_loop (feed lx (CHR ''-'' # nat_to_string n @ rest))
     = (Inr NUM, (feed lx rest)\<lparr>num_val := Fin (- of_nat n), current_token := NUM\<rparr>)"
proof -
  let ?s = "nat_to_string n"
  have m: "\<not> isspace (CHR ''-'')" "\<not> isdigit (CHR ''-'')" by (simp_all add: char_simps)
  obtain c cs where s: "nat_to_string n = c # cs" "isdigit c" "list_all isdigit cs"
    using nat_to_string_split by blast
  have "scan_float False False False (?s @ rest) = (?s, rest)"
    using scan_float_digits [of "c # cs" rest] s assms(2) by simp
  then have "float_field (CHR ''-'' # ?s @ rest) = (CHR ''-'' # ?s, rest)"
    by (simp add: float_field_def)
  moreover have "rest \<noteq> []" using assms(2) by (auto simp: ends_word_def)
  moreover have "strtod_exact (CHR ''-'' # ?s) = Some (- of_nat n)"
  proof -
    have tw: "takeWhile isdigit ?s = ?s" "dropWhile isdigit ?s = []"
      using nat_to_string_digits by (simp_all add: takeWhile_eq_all_conv)
    have "split_sign [] = (False, [])" "split_sign (CHR ''-'' # ?s) = (True, ?s)"
      by (simp_all add: split_sign_def)
    then show ?thesis by (simp add: strtod_exact_def tw digits_val_nat_to_string Let_def)
  qed
  moreover have "to_double (- of_nat n) = Fin (- of_nat n)"
    using to_double_of_int [of "- int n"] assms(1) by simp
  ultimately have "extract_double (istream_of (CHR ''-'' # ?s @ rest)) = (Fin (- of_nat n), istream_of rest)"
    by (simp add: extract_double_def istream_of_def)
  then have "lex_char (CHR ''-'') (feed lx (?s @ rest))
      = (Done (Inr NUM), (feed lx rest)\<lparr>num_val := Fin (- of_nat n), current_token := NUM\<rparr>)"
    by (simp add: lex_char_def lex_number_def return_token_def feed_def)
  then show ?thesis using m by (simp add: get_token_loop_char)
qed

lemma get_token_loop_int:
  assumes "\<bar>i\<bar> < 2 ^ 53" "ends_word rest"
  shows "get_token_loop (feed lx (int_to_string i @ rest))
     = (Inr NUM, (feed lx rest)\<lparr>num_val := Fin (of_int i), current_token := NUM\<rparr>)"
proof (cases "i < 0")
  case True
  with get_token_loop_minus [of "nat (- i)" rest lx] assms show ?thesis
    by (simp add: int_to_string_def nat_less_iff)
next
  case False
  with get_token_loop_nat [of "nat i" rest lx] assms show ?thesis
    by (simp add: int_to_string_def nat_less_iff)
qed

lemma get_token_loop_punct:
  assumes "char_token c = Inr t" "c \<in> set ''=(){}[],''"
  shows "get_token_loop (feed lx (c # rest)) = (Inr t, (feed lx rest)\<lparr>current_token := t\<rparr>)"
proof -
  have sp: "\<not> isspace c" using assms(2) by (auto simp: char_simps)
  have "lex_char c (feed lx rest) = (Done (Inr t), (feed lx rest)\<lparr>current_token := t\<rparr>)"
    unfolding lex_char_punct [OF assms(2)]
    using assms(1) by (simp add: return_char_token_def return_token_def)
  with sp show ?thesis by (simp add: get_token_loop_char)
qed

end
