(* ===== verification/Parser_Facts.thy ===== *)
theory Parser_Facts
  imports Parser Lexer_Tokens
begin

text \<open>
  The parser is total: the bound on the recursion is never reached, so \<open>parse_term\<close> and
  \<open>parse_list\<close> satisfy the equations of the code, and their only errors are
  \<^verbatim>\<open>std::runtime_error\<close>. A printer for values is inverted by the parser.
\<close>

section \<open>Totality\<close>

abbreviation runtime :: "exc \<Rightarrow> 'l \<Rightarrow> bool" where
  "runtime e l \<equiv> (\<exists>m. e = Runtime_error m)"

lemma get_token_wp:
  "wp get_token (\<lambda>t l. current_token l = t \<and> \<not> hold l \<and> pending l \<le> pending lx
      \<and> (t \<noteq> END \<longrightarrow> pending l < pending lx) \<and> pending (putback l) \<le> pending lx) runtime lx"
proof (rule wpI)
  fix t l
  assume g: "get_token lx = (Inr t, l)"
  show "current_token l = t \<and> \<not> hold l \<and> pending l \<le> pending lx
      \<and> (t \<noteq> END \<longrightarrow> pending l < pending lx) \<and> pending (putback l) \<le> pending lx"
    using get_token_token [OF g] lexer_source.get_le [OF g] lexer_source.get_unget [OF g]
    by (auto split: if_splits)
next
  fix e l
  assume "get_token lx = (Inl e, l)"
  then show "runtime e l" using get_token_exc lexer_exc_runtime by blast
qed

lemma num_value_wp: "current_token l = NUM \<Longrightarrow> wp num_value Q E l = Q (num_val l) l"
  by (simp add: wp_def num_value_def)

lemma string_value_wp:
  "current_token l = STRING \<or> current_token l = IDENT \<Longrightarrow> wp string_value Q E l = Q (string_val l) l"
  by (auto simp: wp_def string_value_def)

lemma expect_comma_wp:
  "wp (expect COMMA False) (\<lambda>_ l'. l' = l) runtime l"
  by (rule wpI) (auto simp: expect_def next_or_current_def token_name_def less_token_def
      token_name_table_def lex_error_def split: if_splits)

lemma list_separator_wp:
  "pending l \<le> p \<Longrightarrow> pending (putback l) \<le> p \<Longrightarrow>
     wp (list_separator ps first t) (\<lambda>_ l'. pending l' \<le> p) runtime l"
  using wp_mono [OF expect_comma_wp [of l]]
  by (auto simp: list_separator_def wp_simps)

lemma parse_error_wp:
  "wp (\<lambda>lx. (Inl (lex_error lx m), lx)) Q runtime l"
  by (simp add: wp_def lex_error_def)

lemma parse_wp:
  assumes "list_delimiter ps \<noteq> END"
  shows "wp (parse_term_f n ps) (\<lambda>v l. pending l < pending lx)
           (\<lambda>e l. e = Fuel \<and> n < 2 * pending lx + 1 \<or> runtime e l) lx"
    and "wp (parse_list_f n ps close v first) (\<lambda>v l. pending l \<le> pending lx)
           (\<lambda>e l. e = Fuel \<and> n < 2 * pending lx + 2 \<or> runtime e l) lx"
proof (induction n arbitrary: lx close v first)
  case (Suc n)
  {
    case 1
    show ?case
      unfolding parse_term_f.simps wp_bind
    proof (rule wp_mono [OF get_token_wp])
      fix t l
      assume g: "current_token l = t \<and> \<not> hold l \<and> pending l \<le> pending lx
        \<and> (t \<noteq> END \<longrightarrow> pending l < pending lx) \<and> pending (putback l) \<le> pending lx"
      have lst: "wp (parse_list_f n ps c [] True) (\<lambda>v l'. pending l' < pending lx)
          (\<lambda>e l'. e = Fuel \<and> Suc n < 2 * pending lx + 1 \<or> runtime e l') l'"
        if "pending l' < pending lx" for l' c
        using that by (intro wp_mono [OF Suc.IH(2)]) auto
      have idt: "wp get_token (\<lambda>t2. wp (if t2 = expression_open_token ps
             then sbind (parse_list_f n ps (expression_close_token ps) [] True) (\<lambda>vs. sret (A_expr s vs))
             else sbind (smod putback) (\<lambda>_. sret (A_str s)))
             (\<lambda>v l'. pending l' < pending lx) (\<lambda>e l'. e = Fuel \<and> Suc n < 2 * pending lx + 1 \<or> runtime e l'))
             (\<lambda>e l'. e = Fuel \<and> Suc n < 2 * pending lx + 1 \<or> runtime e l') l"
        if "pending l < pending lx" for s
        by (rule wp_mono [OF get_token_wp]) (use that lst in \<open>auto simp: wp_simps\<close>)
      show "wp (if t = NUM then sbind num_value (\<lambda>x. sret (A_num x))
           else if t = STRING then sbind string_value (\<lambda>s. sret (A_str s))
           else if t = IDENT then sbind string_value (\<lambda>ident. sbind get_token (\<lambda>t2.
               if t2 = expression_open_token ps
               then sbind (parse_list_f n ps (expression_close_token ps) [] True) (\<lambda>vs. sret (A_expr ident vs))
               else sbind (smod putback) (\<lambda>_. sret (A_str ident))))
           else if t = list_open_token ps
           then sbind (parse_list_f n ps (list_close_token ps) [] True) (\<lambda>vs. sret (A_list vs))
           else (\<lambda>lx. (Inl (lex_error lx ''number, string, identifier or list expected''), lx)))
         (\<lambda>v l'. pending l' < pending lx) (\<lambda>e l'. e = Fuel \<and> Suc n < 2 * pending lx + 1 \<or> runtime e l') l"
        using g lst idt assms
        by (auto simp: wp_bind wp_basic num_value_wp string_value_wp list_open_token_def
            intro: wp_mono [OF parse_error_wp])
    qed simp
  next
    case 2
    show ?case
      unfolding parse_list_f.simps wp_bind
    proof (rule wp_mono [OF get_token_wp])
      fix t l
      assume g: "current_token l = t \<and> \<not> hold l \<and> pending l \<le> pending lx
        \<and> (t \<noteq> END \<longrightarrow> pending l < pending lx) \<and> pending (putback l) \<le> pending lx"
      have rest: "wp (parse_term_f n ps) (\<lambda>x. wp (parse_list_f n ps close (v @ [x]) False)
            (\<lambda>v l'. pending l' \<le> pending lx) (\<lambda>e l'. e = Fuel \<and> Suc n < 2 * pending lx + 2 \<or> runtime e l'))
            (\<lambda>e l'. e = Fuel \<and> Suc n < 2 * pending lx + 2 \<or> runtime e l') l'"
        if "pending l' \<le> pending lx" for l'
        by (rule wp_mono [OF Suc.IH(1)]) (use that in \<open>auto intro!: wp_mono [OF Suc.IH(2)]\<close>)
      have "wp (list_separator ps first t) (\<lambda>_. wp (parse_term_f n ps)
            (\<lambda>x. wp (parse_list_f n ps close (v @ [x]) False)
            (\<lambda>v l'. pending l' \<le> pending lx) (\<lambda>e l'. e = Fuel \<and> Suc n < 2 * pending lx + 2 \<or> runtime e l'))
            (\<lambda>e l'. e = Fuel \<and> Suc n < 2 * pending lx + 2 \<or> runtime e l'))
            (\<lambda>e l'. e = Fuel \<and> Suc n < 2 * pending lx + 2 \<or> runtime e l') l"
        by (rule wp_mono [OF list_separator_wp [of l "pending lx"]]) (use g rest in auto)
      with g show "wp (if t = close then sret v else sbind (list_separator ps first t) (\<lambda>_.
              sbind (parse_term_f n ps) (\<lambda>x. parse_list_f n ps close (v @ [x]) False)))
          (\<lambda>v l'. pending l' \<le> pending lx) (\<lambda>e l'. e = Fuel \<and> Suc n < 2 * pending lx + 2 \<or> runtime e l') l"
        by (simp add: wp_simps)
    qed simp
  }
qed (simp_all add: parse_term_f.simps parse_list_f.simps wp_simps)

section \<open>The recursion bound is never reached\<close>

lemma parse_f_mono:
  "fuel_le (parse_term_f n ps) (parse_term_f (Suc n) ps)"
  "fuel_le (parse_list_f n ps close v first) (parse_list_f (Suc n) ps close v first)"
proof (induction n arbitrary: close v first)
  case 0
  {
    case 1
    show ?case unfolding parse_term_f.simps(1) by (rule fuel_le_throw)
  next
    case 2
    show ?case unfolding parse_list_f.simps(1) by (rule fuel_le_throw)
  }
next
  case (Suc n)
  {
    case 1
    show ?case
      unfolding parse_term_f.simps(2) by (intro fuel_intros Suc.IH)
  next
    case 2
    show ?case
      unfolding parse_list_f.simps(2) [of _ ps close v first] by (intro fuel_intros Suc.IH)
  }
qed

lemma parse_term_f_enough:
  assumes "list_delimiter ps \<noteq> END" "2 * pending lx + 1 \<le> n"
  shows "parse_term_f n ps lx = parse_term ps lx"
proof -
  have "fst (parse_term_f (2 * pending lx + 1) ps lx) \<noteq> Inl Fuel"
    using parse_wp(1) [OF assms(1), of "2 * pending lx + 1" lx]
    by (auto simp: wp_def split: prod.splits sum.splits)
  with fuel_leD [OF fuel_le_chain [of "\<lambda>n. parse_term_f n ps", OF parse_f_mono(1) assms(2)]]
  show ?thesis by (simp add: parse_term_def)
qed

text \<open>\<open>parse_list\<close> in the middle of its loop.\<close>

definition parse_list_from :: "parser_style_t \<Rightarrow> token \<Rightarrow> any list \<Rightarrow> bool \<Rightarrow> (lexer, any list) sx" where
  "parse_list_from ps close v first lx = parse_list_f (2 * pending lx + 2) ps close v first lx"

lemma parse_list_from_start: "parse_list ps close = parse_list_from ps close [] True"
  by (simp add: fun_eq_iff parse_list_def parse_list_from_def)

lemma parse_list_f_enough:
  assumes "list_delimiter ps \<noteq> END" "2 * pending lx + 2 \<le> n"
  shows "parse_list_f n ps close v first lx = parse_list_from ps close v first lx"
proof -
  have "fst (parse_list_f (2 * pending lx + 2) ps close v first lx) \<noteq> Inl Fuel"
    using parse_wp(2) [OF assms(1), of "2 * pending lx + 2" close v first lx]
    by (auto simp: wp_def split: prod.splits sum.splits)
  with fuel_leD [OF fuel_le_chain [of "\<lambda>n. parse_list_f n ps close v first", OF parse_f_mono(2) assms(2)]]
  show ?thesis by (simp add: parse_list_from_def)
qed

text \<open>The equations of the code.\<close>

lemma get_token_Inr:
  assumes "get_token lx = (Inr t, l)"
  shows "current_token l = t" "\<not> hold l" "pending l \<le> pending lx"
    "t \<noteq> END \<Longrightarrow> pending l < pending lx" "pending (putback l) \<le> pending lx"
  using wp_Inr [OF get_token_wp assms] by blast+

lemma parse_term_eq:
  assumes "list_delimiter ps \<noteq> END"
  shows "parse_term ps =
     sbind get_token (\<lambda>t.
       if t = NUM then sbind num_value (\<lambda>x. sret (A_num x))
       else if t = STRING then sbind string_value (\<lambda>s. sret (A_str s))
       else if t = IDENT then
         sbind string_value (\<lambda>ident.
           sbind get_token (\<lambda>t2.
             if t2 = expression_open_token ps
             then sbind (parse_list ps (expression_close_token ps)) (\<lambda>vs. sret (A_expr ident vs))
             else sbind (smod putback) (\<lambda>_. sret (A_str ident))))
       else if t = list_open_token ps then
         sbind (parse_list ps (list_close_token ps)) (\<lambda>vs. sret (A_list vs))
       else (\<lambda>lx. (Inl (lex_error lx ''number, string, identifier or list expected''), lx)))"
    (is "_ = sbind get_token ?body")
proof
  fix lx
  define n where "n = 2 * pending lx"
  have un: "parse_list_f n ps c [] True l = parse_list ps c l" if "pending l < pending lx" for c l
    unfolding parse_list_from_start n_def using that by (intro parse_list_f_enough assms) simp
  have un': "sbind (parse_list_f n ps c [] True) f l = sbind (parse_list ps c) f l"
    if "pending l < pending lx" for c f l
    using un [OF that] by (simp add: sbind_def)
  have "parse_term ps lx = parse_term_f (Suc n) ps lx"
    by (simp add: parse_term_def n_def)
  also have "\<dots> = sbind get_token ?body lx"
    unfolding parse_term_f.simps
  proof (rule sbind_cong_at)
    fix t l
    assume g: "get_token lx = (Inr t, l)"
    note gt = get_token_Inr [OF g]
    have sv: "string_value l = (Inr (string_val l), l)" if "t = IDENT"
      using that gt(1) by (simp add: string_value_def)
    show "(if t = NUM then sbind num_value (\<lambda>x. sret (A_num x))
       else if t = STRING then sbind string_value (\<lambda>s. sret (A_str s))
       else if t = IDENT then sbind string_value (\<lambda>ident. sbind get_token (\<lambda>t2.
             if t2 = expression_open_token ps
             then sbind (parse_list_f n ps (expression_close_token ps) [] True) (\<lambda>vs. sret (A_expr ident vs))
             else sbind (smod putback) (\<lambda>_. sret (A_str ident))))
       else if t = list_open_token ps then
         sbind (parse_list_f n ps (list_close_token ps) [] True) (\<lambda>vs. sret (A_list vs))
       else (\<lambda>lx. (Inl (lex_error lx ''number, string, identifier or list expected''), lx))) l = ?body t l"
    proof (cases "t = IDENT")
      case True
      have "pending l' < pending lx" if "get_token l = (Inr t2, l')" for t2 l'
        using get_token_Inr(3) [OF that] gt(4) True by simp
      then show ?thesis
        using True by (auto simp: sbind_ok [of string_value, OF sv] un' intro!: sbind_cong_at)
    next
      case False
      then show ?thesis
        using gt assms by (auto simp: un' list_open_token_def)
    qed
  qed
  finally show "parse_term ps lx = sbind get_token ?body lx" .
qed

lemma parse_list_from_eq:
  assumes "list_delimiter ps \<noteq> END"
  shows "parse_list_from ps close v first =
     sbind get_token (\<lambda>t.
       if t = close then sret v
       else sbind (list_separator ps first t) (\<lambda>_.
              sbind (parse_term ps) (\<lambda>x. parse_list_from ps close (v @ [x]) False)))"
    (is "_ = sbind get_token ?body")
proof
  fix lx
  define n where "n = 2 * pending lx + 1"
  have un: "sbind (parse_term_f n ps) (\<lambda>x. parse_list_f n ps close (v @ [x]) False) l
      = sbind (parse_term ps) (\<lambda>x. parse_list_from ps close (v @ [x]) False) l"
    if l: "pending l \<le> pending lx" for l
  proof -
    have t: "parse_term_f n ps l = parse_term ps l"
      using l unfolding n_def by (intro parse_term_f_enough assms) simp
    have "pending l' < pending l" if "parse_term_f n ps l = (Inr x, l')" for x l'
      using wp_Inr [OF parse_wp(1) [OF assms] that] .
    then have "parse_list_f n ps close (v @ [x]) False l' = parse_list_from ps close (v @ [x]) False l'"
      if "parse_term_f n ps l = (Inr x, l')" for x l'
      using that l unfolding n_def by (intro parse_list_f_enough assms) fastforce
    then show ?thesis
      using t by (auto simp: sbind_def split: prod.splits sum.splits)
  qed
  have "parse_list_from ps close v first lx = parse_list_f (Suc n) ps close v first lx"
    by (simp add: parse_list_from_def n_def)
  also have "\<dots> = sbind get_token ?body lx"
    unfolding parse_list_f.simps
  proof (rule sbind_cong_at)
    fix t l
    assume g: "get_token lx = (Inr t, l)"
    note gt = get_token_Inr [OF g]
    have "pending l' \<le> pending lx" if "list_separator ps first t l = (Inr x, l')" for x l'
      using wp_Inr [OF list_separator_wp that] gt by blast
    then have "sbind (list_separator ps first t) (\<lambda>_. sbind (parse_term_f n ps)
          (\<lambda>x. parse_list_f n ps close (v @ [x]) False)) l
        = sbind (list_separator ps first t) (\<lambda>_. sbind (parse_term ps)
          (\<lambda>x. parse_list_from ps close (v @ [x]) False)) l"
      by (intro sbind_cong_at un)
    then show "(if t = close then sret v else sbind (list_separator ps first t) (\<lambda>_.
        sbind (parse_term_f n ps) (\<lambda>x. parse_list_f n ps close (v @ [x]) False))) l = ?body t l"
      by simp
  qed
  finally show "parse_list_from ps close v first lx = sbind get_token ?body lx" .
qed

lemma parse_term_errors:
  assumes "list_delimiter ps \<noteq> END" "parse_term ps lx = (Inl e, lx')"
  shows "\<exists>m. e = Runtime_error m"
  using wp_Inl [OF parse_wp(1) [OF assms(1)] assms(2) [unfolded parse_term_def]] by auto

lemma parse_term_progress:
  assumes "list_delimiter ps \<noteq> END" "parse_term ps lx = (Inr v, lx')"
  shows "pending lx' < pending lx"
  using wp_Inr [OF parse_wp(1) [OF assms(1)] assms(2) [unfolded parse_term_def]] by auto

end
