(* ===== verification/Printer.thy ===== *)
theory Printer
  imports Parser_Facts
begin

text \<open>
  A printer for the values of the parser, in every comma style and with every pair of brackets,
  and its round trip: the parser reads back what it writes, from any lexer whose next characters
  are the printed text, and stops right behind it.
\<close>

section \<open>Printing\<close>

text \<open>The character of an opening or closing bracket token.\<close>

definition bracket_char :: "token \<Rightarrow> char" where
  "bracket_char t =
     (case t of LP \<Rightarrow> CHR ''('' | RP \<Rightarrow> CHR '')'' | LB \<Rightarrow> CHR ''{'' | RB \<Rightarrow> CHR ''}''
      | LBRACKET \<Rightarrow> CHR ''['' | _ \<Rightarrow> CHR '']'')"

definition style_ok :: "parser_style_t \<Rightarrow> bool" where
  "style_ok ps \<longleftrightarrow> list_delimiter ps \<in> {LP, LB, LBRACKET} \<and> expression_delimiter ps \<in> {LP, LB, LBRACKET}"

definition blank :: "char \<Rightarrow> bool" where
  "blank c \<longleftrightarrow> isspace c \<and> c \<noteq> newline_char"

text \<open>A separator: a comma and blanks, or blanks alone where commas are optional.\<close>

definition separator_ok :: "parser_style_t \<Rightarrow> string \<Rightarrow> bool" where
  "separator_ok ps sep \<longleftrightarrow>
     (case sep of [] \<Rightarrow> False
      | c # cs \<Rightarrow> list_all blank cs \<and> (c = CHR '','' \<or> comma_style ps = comma_optional \<and> blank c))"

fun join :: "string \<Rightarrow> string list \<Rightarrow> string" where
  "join sep [] = []"
| "join sep [x] = x"
| "join sep (x # y # ys) = x @ sep @ join sep (y # ys)"

text \<open>The numbers printed are the integers that a double represents with its 53 bits.\<close>

definition small_int :: "double \<Rightarrow> bool" where
  "small_int d = (case d of Fin r \<Rightarrow> r = of_int \<lfloor>r\<rfloor> \<and> \<bar>\<lfloor>r\<rfloor>\<bar> < 2 ^ 53 | _ \<Rightarrow> False)"

definition print_num :: "double \<Rightarrow> string" where
  "print_num d = (case d of Fin r \<Rightarrow> int_to_string \<lfloor>r\<rfloor> | _ \<Rightarrow> [])"

fun printable :: "any \<Rightarrow> bool" where
  "printable (A_num d) = small_int d"
| "printable (A_str s) = True"
| "printable (A_list vs) = list_all printable vs"
| "printable (A_expr f vs) = (is_ident f \<and> list_all printable vs)"
| "printable _ = False"

fun print_any :: "parser_style_t \<Rightarrow> char \<Rightarrow> string \<Rightarrow> any \<Rightarrow> string" where
  "print_any ps q sep (A_num d) = print_num d"
| "print_any ps q sep (A_str s) = quoted q s"
| "print_any ps q sep (A_list vs) =
     bracket_char (list_open_token ps) # join sep (map (print_any ps q sep) vs) @ [bracket_char (list_close_token ps)]"
| "print_any ps q sep (A_expr f vs) =
     f @ bracket_char (expression_open_token ps)
       # join sep (map (print_any ps q sep) vs) @ [bracket_char (expression_close_token ps)]"
| "print_any ps q sep _ = []"

section \<open>The lexer in front of a text\<close>

text \<open>\<open>reads lx s\<close>: \<open>lx\<close> holds no token back and its stream is \<open>s\<close>. \<open>moved lx lx' s\<close>: reading has
  moved \<open>lx\<close> to \<open>lx'\<close> in front of \<open>s\<close>, on the same line.\<close>

definition at_text :: "lexer \<Rightarrow> string \<Rightarrow> bool" where
  "at_text lx s \<longleftrightarrow> \<not> hold lx \<and> is_stream lx = istream_of s"

definition moved :: "lexer \<Rightarrow> lexer \<Rightarrow> string \<Rightarrow> bool" where
  "moved lx lx' s \<longleftrightarrow> at_text lx' s \<and> same_frame lx lx' \<and> line_no lx' = line_no lx"

lemma movedD:
  assumes "moved lx lx' s"
  shows "at_text lx' s" "quote_char lx' = quote_char lx" "style lx' = style lx" "line_no lx' = line_no lx"
  using assms by (auto simp: moved_def same_frame_def quote_char_def)

lemma moved_trans: "moved a b s \<Longrightarrow> moved b c t \<Longrightarrow> moved a c t"
  by (auto simp: moved_def intro: same_frame_trans)

lemma at_text_feed: "at_text lx s \<Longrightarrow> lx = feed lx s"
  by (simp add: at_text_def feed_def)

lemma get_token_at: "at_text lx s \<Longrightarrow> get_token lx = get_token_loop (feed lx s)"
  by (metis at_text_def at_text_feed get_token_def)

text \<open>Skipping blanks.\<close>

lemma skip_lines_0 [simp]: "skip_lines 0 lx = lx"
  by (simp add: skip_lines_def)

lemma get_token_blanks:
  assumes "at_text lx (ws @ s)" "list_all blank ws"
  shows "get_token lx = get_token (feed lx s)"
proof -
  have "\<forall>c \<in> set ws. isspace c" "newlines ws = 0"
    using assms(2) by (auto simp: list_all_iff blank_def intro: newlines_none)
  then have "get_token lx = get_token_loop (feed lx s)"
    using get_token_at [OF assms(1)] get_token_loop_spaces [of ws lx s] by simp
  then show ?thesis using assms(1) by (simp add: get_token_def at_text_def)
qed

text \<open>The tokens that the printed text starts with.\<close>

lemma get_token_string:
  assumes "at_text lx (quoted (quote_char lx) s @ rest)"
  obtains lx' where "get_token lx = (Inr STRING, lx')" "string_val lx' = s" "moved lx lx' rest"
proof
  show "get_token lx = (Inr STRING, (feed lx rest)\<lparr>string_val := s, current_token := STRING\<rparr>)"
    unfolding get_token_at [OF assms] by (rule get_token_loop_string)
qed (use assms in \<open>simp_all add: moved_def at_text_def same_frame_def\<close>)

lemma get_token_ident:
  assumes "at_text lx (s @ rest)" "is_ident s" "ends_word rest"
  obtains lx' where "get_token lx = (Inr IDENT, lx')" "string_val lx' = s" "moved lx lx' rest"
proof
  show "get_token lx = (Inr IDENT, (feed lx rest)\<lparr>string_val := s, current_token := IDENT\<rparr>)"
    unfolding get_token_at [OF assms(1)] by (rule get_token_loop_ident [OF assms(2,3)])
qed (use assms in \<open>simp_all add: moved_def at_text_def same_frame_def\<close>)

lemma get_token_num:
  assumes "at_text lx (print_num d @ rest)" "small_int d" "ends_word rest"
  obtains lx' where "get_token lx = (Inr NUM, lx')" "num_val lx' = d" "moved lx lx' rest"
proof
  from assms(2) obtain i where i: "d = Fin (of_int i)" "\<bar>i\<bar> < 2 ^ 53" "print_num d = int_to_string i"
    by (auto simp: small_int_def print_num_def split: double.splits)
  show "get_token lx = (Inr NUM, (feed lx rest)\<lparr>num_val := d, current_token := NUM\<rparr>)"
    unfolding get_token_at [OF assms(1)] i(1) 
    using get_token_loop_int [OF i(2) assms(3)] by (simp add: print_num_def)
qed (use assms in \<open>simp_all add: moved_def at_text_def same_frame_def\<close>)

lemma get_token_punct:
  assumes "at_text lx (c # rest)" "char_token c = Inr t" "c \<in> set ''=(){}[],''"
  obtains lx' where "get_token lx = (Inr t, lx')" "current_token lx' = t" "moved lx lx' rest"
proof
  show "get_token lx = (Inr t, (feed lx rest)\<lparr>current_token := t\<rparr>)"
    unfolding get_token_at [OF assms(1)] by (rule get_token_loop_punct [OF assms(2,3)])
qed (use assms in \<open>simp_all add: moved_def at_text_def same_frame_def\<close>)

section \<open>Looking ahead\<close>

lemma get_token_putback: "get_token lx = (Inr t, l) \<Longrightarrow> get_token (putback l) = (Inr t, l)"
  using get_token_Inr(1,2) [of lx t l] by (simp add: get_token_def putback_def)

lemma parse_term_putback:
  assumes "list_delimiter ps \<noteq> END" "get_token lx = (Inr t, l)"
  shows "parse_term ps (putback l) = parse_term ps lx"
  unfolding parse_term_eq [OF assms(1)] sbind_def using get_token_putback [OF assms(2)] assms(2) by simp

lemma parse_term_blanks:
  assumes "list_delimiter ps \<noteq> END" "at_text lx (ws @ s)" "list_all blank ws"
  shows "parse_term ps lx = parse_term ps (feed lx s)"
  unfolding parse_term_eq [OF assms(1)] sbind_def using get_token_blanks [OF assms(2,3)] by simp

lemma at_text_feed_iff [simp]: "at_text (feed lx s) t \<longleftrightarrow> \<not> hold lx \<and> istream_of s = istream_of t"
  by (simp add: at_text_def)

lemma moved_feed: "moved (feed lx s) l t = moved lx l t"
  by (simp add: moved_def same_frame_def)

section \<open>The round trip\<close>

lemma join_Cons: "join sep (x # xs) = x @ concat (map (\<lambda>y. sep @ y) xs)"
  by (induction xs arbitrary: x) simp_all

lemma style_ok_not_end: "style_ok ps \<Longrightarrow> list_delimiter ps \<noteq> END"
  by (auto simp: style_ok_def)

text \<open>The brackets of a style.\<close>

definition bracket_pair :: "token \<Rightarrow> token \<Rightarrow> bool" where
  "bracket_pair t u \<longleftrightarrow> t \<in> {LP, LB, LBRACKET} \<and> u \<in> {RP, RB, RBRACKET}
     \<and> char_token (bracket_char t) = Inr t \<and> char_token (bracket_char u) = Inr u
     \<and> {bracket_char t, bracket_char u} \<subseteq> set ''=(){}[],''
     \<and> (\<forall>rest. ends_word (bracket_char t # rest) \<and> ends_word (bracket_char u # rest))"

lemma bracket_pair_tokens: "bracket_pair t u \<Longrightarrow> t \<in> {LP, LB, LBRACKET} \<and> u \<in> {RP, RB, RBRACKET}"
  unfolding bracket_pair_def by blast

lemma style_brackets:
  assumes "style_ok ps"
  shows "bracket_pair (list_open_token ps) (list_close_token ps)"
    and "bracket_pair (expression_open_token ps) (expression_close_token ps)"
proof -
  have ends: "\<not> ident_char c \<and> c \<noteq> CHR ''.''" if "c \<in> set ''(){}[]''" for c
    using that by (auto simp: ident_char_def char_simps)
  have "bracket_pair t (closing_token t)" if "t \<in> {LP, LB, LBRACKET}" for t
    using that
    by (elim insertE emptyE; simp add: bracket_pair_def closing_token_def all_tokens_def
        bracket_char_def char_token_def ends_word_def ends)
  with assms show "bracket_pair (list_open_token ps) (list_close_token ps)"
    and "bracket_pair (expression_open_token ps) (expression_close_token ps)"
    by (simp_all add: style_ok_def list_open_token_def list_close_token_def expression_open_token_def
        expression_close_token_def)
qed

lemma get_token_print:
  assumes "style_ok ps" "printable v" "at_text lx (print_any ps (quote_char lx) sep v @ rest)" "ends_word rest"
  shows "\<exists>t l. get_token lx = (Inr t, l) \<and> t \<in> {NUM, STRING, IDENT, LP, LB, LBRACKET}"
proof (cases v)
  case (A_num d)
  with assms obtain l where "get_token lx = (Inr NUM, l)"
    using get_token_num [of lx d rest] by auto
  then show ?thesis by blast
next
  case (A_str s)
  with assms obtain l where "get_token lx = (Inr STRING, l)"
    using get_token_string [of lx s rest] by auto
  then show ?thesis by blast
next
  case (A_list vs)
  note br = style_brackets(1) [OF assms(1), unfolded bracket_pair_def]
  have "at_text lx (bracket_char (list_open_token ps) #
      (join sep (map (print_any ps (quote_char lx) sep) vs) @ bracket_char (list_close_token ps) # rest))"
    using assms(3) A_list by simp
  then obtain l where "get_token lx = (Inr (list_open_token ps), l)"
    by (rule get_token_punct) (use br in auto)
  with br show ?thesis by blast
next
  case (A_expr f vs)
  note br = style_brackets(2) [OF assms(1), unfolded bracket_pair_def]
  have "at_text lx (f @ (bracket_char (expression_open_token ps) #
      join sep (map (print_any ps (quote_char lx) sep) vs) @ bracket_char (expression_close_token ps) # rest))"
    using assms(3) A_expr by simp
  then obtain l where "get_token lx = (Inr IDENT, l)"
    by (rule get_token_ident) (use br assms A_expr in auto)
  then show ?thesis by blast
qed (use assms in simp_all)

text \<open>A value is read back by \<open>parse_term\<close>.\<close>

definition reads_back :: "parser_style_t \<Rightarrow> string \<Rightarrow> any \<Rightarrow> bool" where
  "reads_back ps sep v \<longleftrightarrow>
     (\<forall>lx rest. at_text lx (print_any ps (quote_char lx) sep v @ rest) \<longrightarrow> ends_word rest \<longrightarrow>
        (\<exists>lx'. parse_term ps lx = (Inr v, lx') \<and> moved lx lx' rest))"

lemma reads_backD:
  assumes "reads_back ps sep v" "at_text lx (print_any ps (quote_char lx) sep v @ rest)" "ends_word rest"
  obtains lx' where "parse_term ps lx = (Inr v, lx')" "moved lx lx' rest"
  using assms by (auto simp: reads_back_def)

definition list_tail :: "parser_style_t \<Rightarrow> char \<Rightarrow> string \<Rightarrow> any list \<Rightarrow> token \<Rightarrow> string" where
  "list_tail ps q sep vs close = concat (map (\<lambda>v. sep @ print_any ps q sep v) vs) @ [bracket_char close]"

lemma list_tail_simps:
  "list_tail ps q sep [] close = [bracket_char close]"
  "list_tail ps q sep (v # vs) close = sep @ print_any ps q sep v @ list_tail ps q sep vs close"
  by (simp_all add: list_tail_def)

lemma list_tail_ends:
  assumes "separator_ok ps sep" "bracket_pair t close"
  shows "ends_word (list_tail ps q sep vs close @ rest)"
proof (cases vs)
  case Nil
  with assms(2) show ?thesis by (simp add: list_tail_simps bracket_pair_def)
next
  case (Cons v vs')
  from assms(1) obtain c cs where s: "sep = c # cs" "c = CHR '','' \<or> isspace c"
    by (auto simp: separator_ok_def blank_def split: list.splits)
  have sp: "isspace (CHR ''.'') = False" "isspace (CHR ''_'') = False" "ident_char (CHR '','') = False"
    "isdigit c \<Longrightarrow> \<not> isspace c" "isalpha c \<Longrightarrow> \<not> isspace c"
    using class_disjoint [of c] by (simp_all add: ident_char_def char_simps)
  from s(2) have "\<not> ident_char c" "c \<noteq> CHR ''.''"
    using sp by (auto simp: ident_char_def isalnum_def)
  with Cons s(1) show ?thesis by (simp add: list_tail_simps ends_word_def)
qed

lemma parse_list_close:
  assumes "list_delimiter ps \<noteq> END" "bracket_pair t close" "at_text lx (bracket_char close # rest)"
  obtains lx' where "parse_list_from ps close acc first lx = (Inr acc, lx')" "moved lx lx' rest"
proof -
  obtain lx' where "get_token lx = (Inr close, lx')" "moved lx lx' rest"
    by (rule get_token_punct [OF assms(3), of close]) (use assms(2) in \<open>auto simp: bracket_pair_def\<close>)
  moreover from this have "parse_list_from ps close acc first lx = (Inr acc, lx')"
    unfolding parse_list_from_eq [OF assms(1), of close acc first] sbind_def by simp
  ultimately show ?thesis using that by blast
qed

text \<open>One element: behind whatever the separator leaves, \<open>parse_term\<close> reads it back.\<close>

lemma parse_list_step:
  assumes ps: "style_ok ps" and br: "bracket_pair t0 close" and sep: "separator_ok ps sep"
    and v: "printable v" "reads_back ps sep v"
    and at: "at_text lx ((if first then [] else sep) @ print_any ps (quote_char lx) sep v @ rest)" "ends_word rest"
  obtains lx' where "moved lx lx' rest"
    "parse_list_from ps close acc first lx = parse_list_from ps close (acc @ [v]) False lx'"
proof -
  note ne = style_ok_not_end [OF ps]
  let ?pv = "print_any ps (quote_char lx) sep v @ rest"
  have atv: "at_text (feed lx ?pv) ?pv" using at(1) by (simp add: at_text_def)
  obtain t l where g: "get_token (feed lx ?pv) = (Inr t, l)" "t \<in> {NUM, STRING, IDENT, LP, LB, LBRACKET}"
    using get_token_print [OF ps v(1), of "feed lx ?pv" sep rest] at atv by auto
  have tne: "t \<noteq> close" "t \<noteq> COMMA" using g(2) br by (auto simp: bracket_pair_def)
  obtain lx' where r: "parse_term ps (feed lx ?pv) = (Inr v, lx')" "moved (feed lx ?pv) lx' rest"
    using reads_backD [OF v(2), of "feed lx ?pv" rest] atv at(2) by auto
  have m: "moved lx lx' rest" using r(2) by (simp add: moved_feed)
  have put: "parse_term ps (putback l) = (Inr v, lx')"
    using parse_term_putback [OF ne g(1)] r(1) by simp
  show thesis
  proof (cases "first \<or> (\<exists>c cs. sep = c # cs \<and> c \<noteq> CHR '','')")
    case True
    have "list_all blank (if first then [] else sep) \<and> (\<not> first \<longrightarrow> comma_style ps = comma_optional)"
      using True sep by (auto simp: separator_ok_def split: list.splits)
    then have "get_token lx = (Inr t, l)" and c: "\<not> first \<Longrightarrow> comma_style ps \<noteq> comma_required"
      using get_token_blanks [OF at(1)] g(1) by auto
    then have "parse_list_from ps close acc first lx = parse_list_from ps close (acc @ [v]) False lx'"
      unfolding parse_list_from_eq [OF ne, of close acc first] list_separator_def
      using tne put by (simp add: sbind_def)
    with m that show thesis by blast
  next
    case False
    then obtain ws where s: "sep = CHR '','' # ws" and f: "\<not> first"
      using sep by (auto simp: separator_ok_def split: list.splits)
    have ws: "list_all blank ws" using sep s by (simp add: separator_ok_def)
    obtain l1 where g1: "get_token lx = (Inr COMMA, l1)" "current_token l1 = COMMA" "moved lx l1 (ws @ ?pv)"
      by (rule get_token_punct [of lx "CHR '',''" "ws @ ?pv" COMMA])
        (use at(1) f s in \<open>simp_all add: char_token_def\<close>)
    have "parse_term ps l1 = parse_term ps (feed l1 ?pv)"
      using g1(3) by (intro parse_term_blanks [OF ne _ ws]) (simp add: moved_def)
    moreover obtain l2 where l2: "parse_term ps (feed l1 ?pv) = (Inr v, l2)" "moved (feed l1 ?pv) l2 rest"
      using reads_backD [OF v(2), of "feed l1 ?pv" rest] at(2) g1(3) movedD [OF g1(3)]
      by (auto simp: at_text_def)
    moreover have "close \<noteq> COMMA" using br by (auto simp: bracket_pair_def)
    ultimately have "parse_list_from ps close acc first lx = parse_list_from ps close (acc @ [v]) False l2"
      unfolding parse_list_from_eq [OF ne, of close acc first] list_separator_def
      using g1 f by (simp add: sbind_def expect_def next_or_current_def)
    moreover have "moved lx l2 rest"
      using g1(3) l2(2) by (auto intro: moved_trans simp: moved_feed)
    ultimately show thesis using that by blast
  qed
qed

lemma parse_list_tail:
  assumes ps: "style_ok ps" and br: "bracket_pair t0 close" and sep: "separator_ok ps sep"
    and vs: "\<forall>v \<in> set vs. printable v \<and> reads_back ps sep v"
    and at: "at_text lx (list_tail ps (quote_char lx) sep vs close @ rest)"
  obtains lx' where "parse_list_from ps close acc False lx = (Inr (acc @ vs), lx')" "moved lx lx' rest"
  using vs at that
proof (induction vs arbitrary: lx acc thesis)
  case Nil
  show ?case
    by (rule parse_list_close [OF style_ok_not_end [OF ps] br, of lx rest acc False])
      (use Nil in \<open>simp_all add: list_tail_simps\<close>)
next
  case (Cons v vs)
  obtain l1 where l1: "moved lx l1 (list_tail ps (quote_char lx) sep vs close @ rest)"
    "parse_list_from ps close acc False lx = parse_list_from ps close (acc @ [v]) False l1"
    by (rule parse_list_step [OF ps br sep, of v lx False "list_tail ps (quote_char lx) sep vs close @ rest" acc])
      (use Cons.prems list_tail_ends [OF sep br] in \<open>simp_all add: list_tail_simps\<close>)
  obtain l2 where l2: "parse_list_from ps close (acc @ [v]) False l1 = (Inr ((acc @ [v]) @ vs), l2)" "moved l1 l2 rest"
    by (rule Cons.IH [where lx = l1 and acc = "acc @ [v]"]) (use Cons.prems l1 movedD [OF l1(1)] in auto)
  show ?case
    using Cons.prems(1) l1(2) l2(1) moved_trans [OF l1(1) l2(2)] by simp
qed

lemma parse_list_reads:
  assumes ps: "style_ok ps" and br: "bracket_pair t0 close" and sep: "separator_ok ps sep"
    and vs: "\<forall>v \<in> set vs. printable v \<and> reads_back ps sep v"
    and at: "at_text lx (join sep (map (print_any ps (quote_char lx) sep) vs) @ bracket_char close # rest)"
  obtains lx' where "parse_list ps close lx = (Inr vs, lx')" "moved lx lx' rest"
proof (cases vs)
  case Nil
  show thesis
    by (rule parse_list_close [OF style_ok_not_end [OF ps] br, of lx rest "[]" True])
      (use Nil at that in \<open>simp_all add: parse_list_from_start\<close>)
next
  case (Cons v vs')
  let ?tl = "list_tail ps (quote_char lx) sep vs' close @ rest"
  have tx: "join sep (map (print_any ps (quote_char lx) sep) vs) @ bracket_char close # rest
      = print_any ps (quote_char lx) sep v @ ?tl"
    by (simp add: Cons join_Cons list_tail_def comp_def)
  have at': "at_text lx (print_any ps (quote_char lx) sep v @ ?tl)" using at unfolding tx .
  obtain l1 where l1: "moved lx l1 ?tl"
    "parse_list_from ps close [] True lx = parse_list_from ps close ([] @ [v]) False l1"
    by (rule parse_list_step [OF ps br sep, of v lx True ?tl "[]"])
      (use Cons vs at' list_tail_ends [OF sep br] in simp_all)
  obtain l2 where l2: "parse_list_from ps close ([] @ [v]) False l1 = (Inr (([] @ [v]) @ vs'), l2)" "moved l1 l2 rest"
    by (rule parse_list_tail [OF ps br sep, of vs' l1 rest "[] @ [v]"])
      (use Cons vs l1 movedD [OF l1(1)] in auto)
  show thesis
    by (rule that) (use Cons l1 l2 moved_trans in \<open>auto simp: parse_list_from_start\<close>)
qed

lemma ends_word_ne: "ends_word s \<Longrightarrow> s \<noteq> []"
  by (auto simp: ends_word_def)

lemma moved_current:
  "get_token lx = (Inr t, l) \<Longrightarrow> moved lx l s \<Longrightarrow> current_token l = t"
  using get_token_Inr(1) by simp

text \<open>The four kinds of values, one by one.\<close>

lemma reads_back_num: "style_ok ps \<Longrightarrow> small_int d \<Longrightarrow> reads_back ps sep (A_num d)"
  unfolding reads_back_def
proof (intro allI impI)
  fix lx rest
  assume a: "style_ok ps" "small_int d" "at_text lx (print_any ps (quote_char lx) sep (A_num d) @ rest)" "ends_word rest"
  obtain l where l: "get_token lx = (Inr NUM, l)" "num_val l = d" "moved lx l rest"
    by (rule get_token_num [of lx d rest]) (use a in auto)
  then have "parse_term ps lx = (Inr (A_num d), l)"
    unfolding parse_term_eq [OF style_ok_not_end [OF a(1)]]
    using get_token_Inr(1) [OF l(1)] by (simp add: sbind_def num_value_def)
  with l(3) show "\<exists>lx'. parse_term ps lx = (Inr (A_num d), lx') \<and> moved lx lx' rest" by blast
qed

lemma reads_back_str: "style_ok ps \<Longrightarrow> reads_back ps sep (A_str s)"
  unfolding reads_back_def
proof (intro allI impI)
  fix lx rest
  assume a: "style_ok ps" "at_text lx (print_any ps (quote_char lx) sep (A_str s) @ rest)" "ends_word rest"
  obtain l where l: "get_token lx = (Inr STRING, l)" "string_val l = s" "moved lx l rest"
    by (rule get_token_string [of lx s rest]) (use a in auto)
  then have "parse_term ps lx = (Inr (A_str s), l)"
    unfolding parse_term_eq [OF style_ok_not_end [OF a(1)]]
    using get_token_Inr(1) [OF l(1)] by (simp add: sbind_def string_value_def)
  with l(3) show "\<exists>lx'. parse_term ps lx = (Inr (A_str s), lx') \<and> moved lx lx' rest" by blast
qed

lemma reads_back_list:
  assumes ps: "style_ok ps" and sep: "separator_ok ps sep"
    and vs: "\<forall>v \<in> set vs. printable v \<and> reads_back ps sep v"
  shows "reads_back ps sep (A_list vs)"
  unfolding reads_back_def
proof (intro allI impI)
  fix lx rest
  assume at: "at_text lx (print_any ps (quote_char lx) sep (A_list vs) @ rest)"
  note br = style_brackets(1) [OF ps]
  let ?t = "list_open_token ps" and ?u = "list_close_token ps"
  let ?txt = "join sep (map (print_any ps (quote_char lx) sep) vs) @ bracket_char ?u # rest"
  have "at_text lx (bracket_char ?t # ?txt)" using at by simp
  then obtain l where l: "get_token lx = (Inr ?t, l)" "moved lx l ?txt"
    by (rule get_token_punct) (use br in \<open>auto simp: bracket_pair_def\<close>)
  obtain l' where l': "parse_list ps ?u l = (Inr vs, l')" "moved l l' rest"
    by (rule parse_list_reads [OF ps br sep vs, of l rest]) (use movedD(1,2) [OF l(2)] in simp_all)
  have "?t \<noteq> NUM" "?t \<noteq> STRING" "?t \<noteq> IDENT" using bracket_pair_tokens [OF br] by auto
  with l(1) l'(1) have "parse_term ps lx = (Inr (A_list vs), l')"
    unfolding parse_term_eq [OF style_ok_not_end [OF ps]] by (simp add: sbind_def)
  with moved_trans [OF l(2) l'(2)]
  show "\<exists>lx'. parse_term ps lx = (Inr (A_list vs), lx') \<and> moved lx lx' rest" by blast
qed

lemma reads_back_expr:
  assumes ps: "style_ok ps" and sep: "separator_ok ps sep" and f: "is_ident f"
    and vs: "\<forall>v \<in> set vs. printable v \<and> reads_back ps sep v"
  shows "reads_back ps sep (A_expr f vs)"
  unfolding reads_back_def
proof (intro allI impI)
  fix lx rest
  assume at: "at_text lx (print_any ps (quote_char lx) sep (A_expr f vs) @ rest)"
  note br = style_brackets(2) [OF ps]
  let ?t = "expression_open_token ps" and ?u = "expression_close_token ps"
  let ?txt = "join sep (map (print_any ps (quote_char lx) sep) vs) @ bracket_char ?u # rest"
  have "at_text lx (f @ (bracket_char ?t # ?txt))" using at by simp
  then obtain l0 where l0: "get_token lx = (Inr IDENT, l0)" "string_val l0 = f" "moved lx l0 (bracket_char ?t # ?txt)"
    by (rule get_token_ident) (use f br in \<open>auto simp: bracket_pair_def\<close>)
  obtain l where l: "get_token l0 = (Inr ?t, l)" "moved l0 l ?txt"
    by (rule get_token_punct [OF movedD(1) [OF l0(3)]]) (use br in \<open>auto simp: bracket_pair_def\<close>)
  have q: "quote_char l = quote_char lx" using movedD(2) [OF l(2)] movedD(2) [OF l0(3)] by simp
  obtain l' where l': "parse_list ps ?u l = (Inr vs, l')" "moved l l' rest"
    by (rule parse_list_reads [OF ps br sep vs, of l rest]) (use movedD(1) [OF l(2)] q in simp_all)
  have "parse_term ps lx = (Inr (A_expr f vs), l')"
    unfolding parse_term_eq [OF style_ok_not_end [OF ps]]
    using l0 l(1) l'(1) get_token_Inr(1) [OF l0(1)] by (simp add: sbind_def string_value_def)
  with moved_trans [OF moved_trans [OF l0(3) l(2)] l'(2)]
  show "\<exists>lx'. parse_term ps lx = (Inr (A_expr f vs), lx') \<and> moved lx lx' rest" by blast
qed

lemma print_reads_back:
  assumes "style_ok ps" "separator_ok ps sep"
  shows "printable v \<Longrightarrow> reads_back ps sep v"
proof (induction v)
  case (A_list vs)
  then show ?case by (intro reads_back_list assms) (auto simp: list_all_iff)
next
  case (A_expr f vs)
  then show ?case by (intro reads_back_expr assms) (auto simp: list_all_iff)
qed (use assms reads_back_num reads_back_str in simp_all)

end
