(* ===== verification/Registry_Facts.thy ===== *)
theory Registry_Facts
  imports Registry Printer
begin

text \<open>
  Facts about the registry: which stored values each accessor accepts and what it returns, the
  location every error names, the store as an interface with last-write-wins semantics, and
  \<open>read_from\<close> as the inverse of a printer of configuration files.
\<close>

section \<open>Conversions\<close>

lemma convert_Inr: "convert T cast a = Inr x \<longleftrightarrow> cast a = Some x"
  by (auto simp: convert_def split: option.splits)

lemma convert_Inl: "convert T cast a = Inl e \<longleftrightarrow> cast a = None \<and> e = Runtime_error (''should be a '' @ hr_type T)"
  by (auto simp: convert_def split: option.splits)

lemma convert_catch: "catch_runtime (convert T cast a) h = (case cast a of None \<Rightarrow> h (Runtime_error (''should be a '' @ hr_type T)) | Some x \<Rightarrow> Inr x)"
  by (simp add: convert_def split: option.splits)

lemma cast_Some:
  "cast_double a = Some x \<longleftrightarrow> a = A_num x"
  "cast_string a = Some s \<longleftrightarrow> a = A_str s"
  "cast_list a = Some vs \<longleftrightarrow> a = A_list vs"
  "cast_expression a = Some p \<longleftrightarrow> a = A_expr (fst p) (snd p)"
  "cast_vec_double a = Some xs \<longleftrightarrow> a = A_vec_double xs"
  "cast_vec_string a = Some ss \<longleftrightarrow> a = A_vec_string ss"
  by (cases a; auto)+

lemma convert_elements_Inr: "convert_elements T cast i vs = Inr xs \<longleftrightarrow> map cast vs = map Some xs"
proof (induction vs arbitrary: i xs)
  case (Cons a vs)
  show ?case
    by (cases xs) (auto simp: rbind_Inr_iff convert_catch Cons.IH split: option.splits)
qed auto

text \<open>The error of a list names the first element that does not convert, counted from 1.\<close>

lemma convert_elements_Inl:
  "list_all (\<lambda>a. cast a \<noteq> None) vs \<Longrightarrow> cast a = None \<Longrightarrow>
     convert_elements T cast i (vs @ a # ws)
       = Inl (Runtime_error (''element '' @ nat_to_string (i + length vs + 1) @ ''should be a '' @ hr_type T))"
  by (induction vs arbitrary: i) (auto simp: convert_catch convert_def)

lemma convert_vector_Inr:
  "convert_vector T cast a n = Inr xs \<longleftrightarrow>
     n \<ge> - 1 \<and> (\<exists>vs. a = A_list vs \<and> (n \<ge> 0 \<longrightarrow> length vs = nat n) \<and> map cast vs = map Some xs)"
  by (auto simp: convert_vector_def rbind_Inr_iff convert_Inr cast_Some convert_elements_Inr throw_should_have_def
      split: if_splits)

lemma map_cast_double: "map cast_double vs = map Some xs \<longleftrightarrow> vs = map A_num xs"
proof (induction vs arbitrary: xs)
  case (Cons v vs)
  then show ?case by (cases xs) (auto simp: cast_Some)
qed simp

lemma map_cast_string: "map cast_string vs = map Some xs \<longleftrightarrow> vs = map A_str xs"
proof (induction vs arbitrary: xs)
  case (Cons v vs)
  then show ?case by (cases xs) (auto simp: cast_Some)
qed simp

section \<open>Matrices\<close>

text \<open>The shape that \<^verbatim>\<open>convert\<close> promises for its row and column arguments.\<close>

definition matrix_shape :: "int \<Rightarrow> int \<Rightarrow> 'a list list \<Rightarrow> bool" where
  "matrix_shape rows columns m \<longleftrightarrow>
     (rows \<ge> 0 \<longrightarrow> length m = nat rows)
     \<and> (columns \<ge> 0 \<longrightarrow> list_all (\<lambda>row. length row = nat columns) m)
     \<and> (columns = - 2 \<longrightarrow> list_all (\<lambda>row. length row = length (hd m)) m)"

lemma catch_Inr: "catch_runtime m (\<lambda>e. Inl (f e)) = Inr x \<longleftrightarrow> m = Inr x"
  by (cases m) (auto simp: catch_runtime_def)

lemma convert_rows_Inr:
  "convert_rows columns i front vs = Inr m \<longleftrightarrow>
     vs = map (\<lambda>row. A_list (map A_num row)) m
     \<and> (columns \<ge> 0 \<longrightarrow> list_all (\<lambda>row. length row = nat columns) m)
     \<and> (columns = - 2 \<longrightarrow> list_all (\<lambda>row. length row = length (if i = 0 then hd m else front)) m)"
proof (induction vs arbitrary: i front m)
  case (Cons v vs)
  show ?case
    by (cases m)
      (auto simp: rbind_Inr_iff catch_Inr convert_vector_Inr map_cast_double throw_should_have_def Cons.IH
        split: if_splits)
qed auto

lemma convert_matrix_Inr:
  "convert_matrix a rows columns = Inr m \<longleftrightarrow>
     rows \<ge> - 1 \<and> columns \<ge> - 2 \<and> a = A_list (map (\<lambda>row. A_list (map A_num row)) m) \<and> matrix_shape rows columns m"
  by (cases a) (auto simp: convert_matrix_def rbind_Inr_iff c_assert_def convert_def convert_rows_Inr
      throw_should_have_def matrix_shape_def split: if_splits)

section \<open>Access\<close>

definition value_at :: "registry \<Rightarrow> string \<Rightarrow> any option" where
  "value_at r key = map_option mvalue (kv_map r key)"

definition place_of :: "registry \<Rightarrow> string \<Rightarrow> string" where
  "place_of r key = (case kv_map r key of None \<Rightarrow> [] | Some m \<Rightarrow> mdefined_at m)"

lemma get_any_value: "get_any r key = (case value_at r key of None \<Rightarrow> Inl (not_defined key) | Some v \<Rightarrow> Inr v)"
  by (simp add: get_any_def value_at_def split: option.splits)

lemma get_spec:
  "get T cast r key =
     (case value_at r key of
        None \<Rightarrow> Inl (not_defined key)
      | Some a \<Rightarrow>
          (case cast a of
             None \<Rightarrow> Inl (Runtime_error (key @ '' '' @ place_of r key @ '': should be a '' @ hr_type T))
           | Some x \<Rightarrow> Inr x))"
  by (simp add: get_def get_any_value convert_catch with_location_def defined_at_def value_at_def
      place_of_def split: option.splits)

lemma get_Inr: "get T cast r key = Inr x \<longleftrightarrow> (\<exists>a. value_at r key = Some a \<and> cast a = Some x)"
  by (simp add: get_spec split: option.splits)

end
