(* ===== verification/Registry_Read.thy ===== *)
theory Registry_Read
  imports Registry_Facts
begin

text \<open>
  Filling the registry: the store as a last-write-wins map behind a locale, \<open>read_from\<close> as a
  total operation that stores what the parser returns, and the round trip of a printed
  configuration, with the line number of every key.
\<close>

section \<open>The store\<close>

locale last_write_store =
  fixes put :: "'k \<Rightarrow> 'v \<Rightarrow> 's \<Rightarrow> 's"
    and look :: "'s \<Rightarrow> 'k \<Rightarrow> 'v option"
  assumes look_put: "look (put k v s) k' = (if k' = k then Some v else look s k')"
begin

definition put_all :: "('k \<times> 'v) list \<Rightarrow> 's \<Rightarrow> 's" where
  "put_all kvs s = fold (\<lambda>(k, v). put k v) kvs s"

lemma look_put_all: "look (put_all kvs s) k = (case map_of (rev kvs) k of None \<Rightarrow> look s k | Some v \<Rightarrow> Some v)"
proof (induction kvs rule: rev_induct)
  case (snoc kv kvs)
  then show ?case by (cases kv) (simp add: put_all_def look_put split: option.splits)
qed (simp add: put_all_def)

lemma look_put_all_distinct:
  "distinct (map fst kvs) \<Longrightarrow> (k, v) \<in> set kvs \<Longrightarrow> look (put_all kvs s) k = Some v"
  by (simp add: look_put_all map_of_eq_Some_iff rev_map [symmetric] distinct_rev)

lemma look_put_all_other: "k \<notin> fst ` set kvs \<Longrightarrow> look (put_all kvs s) k = look s k"
  by (simp add: look_put_all split: option.splits) (metis map_of_SomeD image_eqI fst_conv set_rev)

end

definition put_any :: "string \<Rightarrow> mapped \<Rightarrow> registry \<Rightarrow> registry" where
  "put_any key m r = snd (add_any key (mvalue m) (mdefined_at m) False r)"

interpretation reg_store: last_write_store put_any kv_map
  by unfold_locales (simp add: put_any_def add_any_def)

lemma add_any_spec:
  "add_any key v dat thr r =
     (if thr \<and> is_set r key
      then (Inl (Runtime_error (key @ '' redefined '' @ place_of r key)), r)
      else (Inr (), put_any key \<lparr>mvalue = v, mdefined_at = dat\<rparr> r))"
  by (auto simp: add_any_def check_key_def is_set_def put_any_def defined_at_def place_of_def
      split: option.splits)

section \<open>Totality\<close>

lemma on_lex_Inr: "on_lex m p = (Inr x, p') \<longleftrightarrow> (\<exists>l. m (lex p) = (Inr x, l) \<and> p' = p\<lparr>lex := l\<rparr>)"
  by (auto simp: on_lex_def split: prod.splits)

lemma wp_on_lex: "wp (on_lex m) Q E p = wp m (\<lambda>x l. Q x (p\<lparr>lex := l\<rparr>)) (\<lambda>e l. E e (p\<lparr>lex := l\<rparr>)) (lex p)"
  by (simp add: wp_def on_lex_def split: prod.splits sum.splits)

lemma expect_wp:
  assumes "t \<noteq> NO_TOKEN"
  shows "wp (expect t True) (\<lambda>_ l'. pending l' \<le> pending l) runtime l"
proof -
  have "token_name t = Inr (token_name_table ! token_index t)"
    using assms by (cases t) (simp_all add: token_name_def token_name_table_def less_token_def)
  then show ?thesis
    unfolding expect_def next_or_current_def
    by (simp add: wp_bind) (rule wp_mono [OF get_token_wp], auto simp: wp_def lex_error_def)
qed

text \<open>What \<open>parse_pair\<close> does with the first token.\<close>

definition pair_rest :: "parser_style_t \<Rightarrow> token \<Rightarrow> (parser, (string \<times> any \<times> nat \<times> string) option) sx" where
  "pair_rest ps t =
     (if t \<noteq> IDENT then sbind (smod (\<lambda>q. q\<lparr>pstate := False\<rparr>)) (\<lambda>_. sret None)
      else
        sbind (sgets (\<lambda>q. line_no (lex q))) (\<lambda>lno.
        sbind (sgets (\<lambda>q. lex_filename (lex q))) (\<lambda>fn.
        sbind (on_lex string_value) (\<lambda>key.
        sbind (on_lex (expect ASSIGN True)) (\<lambda>_.
        sbind (on_lex (parse_term ps)) (\<lambda>val.
        sret (Some (key, val, lno, fn))))))))"

lemma parse_pair_eq: "pstate p \<Longrightarrow> parse_pair p = sbind (on_lex get_token) (pair_rest (pstyle p)) p"
  by (simp add: parse_pair_def pair_rest_def [abs_def])

text \<open>A pair consumes at least its key.\<close>

lemma parse_pair_wp:
  assumes "list_delimiter (pstyle p) \<noteq> END"
  shows "wp parse_pair
           (\<lambda>x p'. pstyle p' = pstyle p \<and> (x \<noteq> None \<longrightarrow> pending (lex p') < pending (lex p)))
           runtime p"
proof (cases "pstate p")
  case False
  then show ?thesis by (simp add: parse_pair_def wp_def)
next
  case True
  let ?Q = "\<lambda>x p'. pstyle p' = pstyle p \<and> (x \<noteq> None \<longrightarrow> pending (lex p') < pending (lex p))"
  have "wp (on_lex get_token) (\<lambda>t. wp (pair_rest (pstyle p) t) ?Q runtime) runtime p"
    unfolding wp_on_lex
  proof (rule wp_mono [OF get_token_wp])
    fix t l
    assume g: "current_token l = t \<and> \<not> hold l \<and> pending l \<le> pending (lex p)
        \<and> (t \<noteq> END \<longrightarrow> pending l < pending (lex p)) \<and> pending (putback l) \<le> pending (lex p)"
    have tm: "wp (parse_term (pstyle p)) (\<lambda>v l''. pending l'' < pending (lex p)) runtime l'"
      if "pending l' \<le> pending l" "t \<noteq> END" for l'
    proof (rule wpI)
      fix v l'' assume "parse_term (pstyle p) l' = (Inr v, l'')"
      with parse_term_progress [OF assms this] that g show "pending l'' < pending (lex p)" by simp
    next
      fix e l'' assume "parse_term (pstyle p) l' = (Inl e, l'')"
      then show "runtime e l''" by (rule parse_term_errors [OF assms])
    qed
    have ex: "wp (expect ASSIGN True) (\<lambda>_ l'. wp (parse_term (pstyle p)) (\<lambda>v l''. pending l'' < pending (lex p)) runtime l') runtime l"
      if "t \<noteq> END"
      by (rule wp_mono [OF expect_wp]) (use tm that in auto)
    show "wp (pair_rest (pstyle p) t) ?Q runtime (p\<lparr>lex := l\<rparr>)"
      unfolding pair_rest_def
      using g ex by (auto simp: wp_simps wp_on_lex string_value_wp)
  qed auto
  then show ?thesis
    using wp_cong [of parse_pair p "sbind (on_lex get_token) (pair_rest (pstyle p))", OF parse_pair_eq [OF True]]
    by (simp only: wp_bind)
qed

text \<open>The loop of \<open>read_from\<close>: any bound above what is pending is as good as no bound.\<close>

lemma read_pairs_wp:
  assumes "list_delimiter (pstyle p) \<noteq> END" "pending (lex p) < n"
  shows "wp (read_pairs n thr) (\<lambda>_ s'. True) runtime (p, r)"
  using assms
proof (induction n arbitrary: p r)
  case (Suc n)
  note pp = parse_pair_wp [OF Suc.prems(1)]
  show ?case
  proof (rule wpI, simp)
    fix e s'
    assume a: "read_pairs (Suc n) thr (p, r) = (Inl e, s')"
    obtain x p1 where x: "parse_pair p = (x, p1)" by (cases "parse_pair p")
    show "runtime e s'"
    proof (cases x)
      case (Inl e1)
      with a x wp_Inl [OF pp, of e1 p1] show ?thesis by simp
    next
      case (Inr o1)
      show ?thesis
      proof (cases o1)
        case None
        with a x Inr show ?thesis by simp
      next
        case (Some q)
        obtain key val lno fname where q: "q = (key, val, lno, fname)" by (metis prod_cases4)
        have p1: "list_delimiter (pstyle p1) \<noteq> END" "pending (lex p1) < n"
          using wp_Inr [OF pp, of o1 p1] x Inr Some Suc.prems by auto
        show ?thesis
          using a x Inr Some q wp_Inl [OF Suc.IH [OF p1]]
          by (auto simp: add_any_spec split: if_splits)
      qed
    qed
  qed
qed simp

lemma read_from_errors:
  assumes "list_delimiter ps \<noteq> END" "read_from ls ps thr (lx, r) = (Inl e, s')"
  shows "\<exists>m. e = Runtime_error m"
proof -
  have "list_delimiter (pstyle (new_parser (set_style ls lx) ps)) \<noteq> END"
    "pending (lex (new_parser (set_style ls lx) ps)) < Suc (pending lx)"
    using assms(1) by (simp_all add: new_parser_def set_style_def pending_def)
  from wp_Inl [OF read_pairs_wp [OF this, of thr r]] assms(2) show ?thesis
    by (auto simp: read_from_def Let_def split: prod.splits sum.splits)
qed

section \<open>Reading a printed configuration\<close>

definition print_entry :: "parser_style_t \<Rightarrow> char \<Rightarrow> string \<Rightarrow> string \<times> any \<Rightarrow> string" where
  "print_entry ps q sep kv = fst kv @ '' = '' @ print_any ps q sep (snd kv) @ [newline_char]"

definition print_config :: "parser_style_t \<Rightarrow> char \<Rightarrow> string \<Rightarrow> (string \<times> any) list \<Rightarrow> string" where
  "print_config ps q sep kvs = concat (map (print_entry ps q sep) kvs)"

definition entry_ok :: "string \<times> any \<Rightarrow> bool" where
  "entry_ok kv \<longleftrightarrow> is_ident (fst kv) \<and> printable (snd kv)"

text \<open>What is stored for the entries of a file, one per line from \<open>lno\<close> on.\<close>

fun stored :: "nat \<Rightarrow> string \<Rightarrow> (string \<times> any) list \<Rightarrow> (string \<times> mapped) list" where
  "stored lno fname [] = []"
| "stored lno fname ((k, v) # kvs) =
     (k, \<lparr>mvalue = v, mdefined_at = defined_at_msg lno fname\<rparr>) # stored (Suc lno) fname kvs"

lemma fst_stored: "map fst (stored lno fname kvs) = map fst kvs"
  by (induction lno fname kvs rule: stored.induct) simp_all

lemma get_token_newlines:
  assumes "at_text lx (ws @ s)" "\<forall>c \<in> set ws. c = newline_char"
  shows "get_token lx = get_token (feed (skip_lines (length ws) lx) s)"
proof -
  have nl: "isspace newline_char" by (simp add: char_simps)
  have ws: "\<forall>c \<in> set ws. isspace c" using assms(2) nl by metis
  have n: "newlines ws = length ws" using assms(2) by (induction ws) simp_all
  have "get_token lx = get_token_loop (feed (skip_lines (length ws) lx) s)"
    using get_token_at [OF assms(1)] get_token_loop_spaces [of ws lx s] ws n by simp
  then show ?thesis using assms(1) by (simp add: get_token_def at_text_def skip_lines_def)
qed

lemma moved_skip: "moved (skip_lines n lx) l s \<Longrightarrow> line_no l = line_no lx + n \<and> same_frame lx l \<and> at_text l s"
  by (simp add: moved_def skip_lines_def same_frame_def)

lemma get_token_assign:
  assumes "at_text lx ('' = '' @ s)"
  obtains l where "get_token lx = (Inr ASSIGN, l)" "current_token l = ASSIGN" "moved lx l ('' '' @ s)"
proof -
  have b: "get_token lx = get_token (feed lx (CHR ''='' # '' '' @ s))"
    using assms by (intro get_token_blanks [of lx "'' ''"]) (simp_all add: blank_def char_simps)
  have "at_text (feed lx (CHR ''='' # '' '' @ s)) (CHR ''='' # '' '' @ s)"
    using assms by (simp add: at_text_def)
  then obtain l where "get_token (feed lx (CHR ''='' # '' '' @ s)) = (Inr ASSIGN, l)" "current_token l = ASSIGN"
    "moved (feed lx (CHR ''='' # '' '' @ s)) l ('' '' @ s)"
    by (rule get_token_punct) (simp_all add: char_token_def)
  with b that show thesis by (simp add: moved_feed)
qed

lemma parse_pair_print:
  assumes ps: "style_ok ps" "separator_ok ps sep" and kv: "entry_ok (k, v)"
    and p: "pstate p" "pstyle p = ps" and ws: "\<forall>c \<in> set ws. c = newline_char"
    and at: "at_text (lex p) (ws @ print_entry ps (quote_char (lex p)) sep (k, v) @ rest)"
  obtains l where "parse_pair p = (Inr (Some (k, v, line_no (lex p) + length ws, lex_filename (lex p))), p\<lparr>lex := l\<rparr>)"
    "at_text l (newline_char # rest)" "same_frame (lex p) l" "line_no l = line_no (lex p) + length ws"
proof -
  let ?lx = "lex p"
  let ?q = "quote_char ?lx"
  let ?n = "length ws"
  let ?tl = "newline_char # rest"
  let ?pv = "print_any ps ?q sep v"
  let ?l0 = "feed (skip_lines ?n ?lx) (k @ '' = '' @ ?pv @ ?tl)"
  have k: "is_ident k" and v: "printable v" using kv by (simp_all add: entry_ok_def)
  have g0: "get_token ?lx = get_token ?l0"
    using at ws by (intro get_token_newlines) (simp_all add: print_entry_def)
  have "at_text ?l0 (k @ ('' = '' @ ?pv @ ?tl))" using at by (simp add: at_text_def skip_lines_def)
  then obtain l1 where l1: "get_token ?l0 = (Inr IDENT, l1)" "string_val l1 = k" "moved ?l0 l1 ('' = '' @ ?pv @ ?tl)"
    by (rule get_token_ident) (use k in \<open>simp_all add: ends_word_def ident_char_def char_simps\<close>)
  note m1 = moved_skip [OF l1(3) [unfolded moved_feed]]
  have fr1: "lex_filename l1 = lex_filename ?lx" "quote_char l1 = ?q"
    using m1 by (simp_all add: same_frame_def quote_char_def)
  obtain l2 where l2: "get_token l1 = (Inr ASSIGN, l2)" "current_token l2 = ASSIGN" "moved l1 l2 ('' '' @ ?pv @ ?tl)"
    using m1 by (metis get_token_assign)
  have b: "parse_term ps l2 = parse_term ps (feed l2 (?pv @ ?tl))"
    using movedD(1) [OF l2(3)]
    by (intro parse_term_blanks [OF style_ok_not_end [OF ps(1)], of l2 "'' ''"]) (simp_all add: blank_def char_simps)
  obtain l3 where l3: "parse_term ps (feed l2 (?pv @ ?tl)) = (Inr v, l3)" "moved (feed l2 (?pv @ ?tl)) l3 ?tl"
  proof (rule reads_backD [OF print_reads_back [OF ps v], of "feed l2 (?pv @ ?tl)" ?tl])
    show "at_text (feed l2 (?pv @ ?tl)) (print_any ps (quote_char (feed l2 (?pv @ ?tl))) sep v @ ?tl)"
      using movedD(1,2) [OF l2(3)] fr1 by (simp add: at_text_def)
    show "ends_word ?tl" by (simp add: ends_word_def ident_char_def char_simps)
  qed
  note m3 = l3(2) [unfolded moved_feed]
  have "parse_pair p = (Inr (Some (k, v, line_no ?lx + ?n, lex_filename ?lx)), p\<lparr>lex := l3\<rparr>)"
    unfolding parse_pair_eq [OF p(1)] pair_rest_def
    using g0 l1 get_token_Inr(1) [OF l1(1)] m1 fr1 l2 b l3 p(2)
    by (simp add: sbind_def on_lex_def string_value_def expect_def next_or_current_def)
  moreover have "same_frame ?lx l3" "line_no l3 = line_no ?lx + ?n" "at_text l3 ?tl"
    using m1 l2(3) m3 by (auto simp: moved_def intro: same_frame_trans)
  ultimately show thesis using that by blast
qed

lemma get_token_end:
  assumes "at_text lx ws" "\<forall>c \<in> set ws. isspace c"
  obtains l where "get_token lx = (Inr END, l)" "current_token l = END" "same_frame lx l"
proof -
  have "get_token lx = get_token_loop (feed lx ws)" by (rule get_token_at [OF assms(1)])
  moreover obtain l where l: "get_token_loop (feed lx ws) = (Inr END, l)"
    using get_token_loop_end [OF assms(2), of lx] by (cases "get_token_loop (feed lx ws)") auto
  moreover have "same_frame lx l"
    using get_token_loop_frame [OF l] by (simp add: same_frame_def)
  ultimately show thesis using that get_token_Inr(1) by metis
qed

text \<open>Whether the keys can be stored: with \<open>throw_on_redefinition\<close> each must be new.\<close>

definition keys_free :: "bool \<Rightarrow> string list \<Rightarrow> registry \<Rightarrow> bool" where
  "keys_free thr ks r \<longleftrightarrow> (thr \<longrightarrow> distinct ks \<and> list_all (\<lambda>k. \<not> is_set r k) ks)"

definition store_all :: "(string \<times> mapped) list \<Rightarrow> registry \<Rightarrow> registry" where
  "store_all kvs r = fold (\<lambda>(k, m). put_any k m) kvs r"

lemma store_all_put_all: "store_all = reg_store.put_all"
  by (simp add: fun_eq_iff store_all_def reg_store.put_all_def)

lemma read_pairs_print:
  assumes "style_ok ps" "separator_ok ps sep" "list_all entry_ok kvs"
    and "pstate p" "pstyle p = ps" "\<forall>c \<in> set ws. c = newline_char"
    and "at_text (lex p) (ws @ print_config ps (quote_char (lex p)) sep kvs)"
    and "keys_free thr (map fst kvs) r" "length kvs < n"
  shows "\<exists>p'. read_pairs n thr (p, r)
      = (Inr (), p', store_all (stored (line_no (lex p) + length ws) (lex_filename (lex p)) kvs) r)
      \<and> current_token (lex p') = END \<and> same_frame (lex p) (lex p')"
  using assms(3-)
proof (induction n arbitrary: kvs p r ws)
  case (Suc n)
  note ws = Suc.prems(4) and at = Suc.prems(5)
  show ?case
  proof (cases kvs)
    case Nil
    have nl: "isspace newline_char" by (simp add: char_simps)
    have sp: "\<forall>c \<in> set ws. isspace c" using ws nl by metis
    have at0: "at_text (lex p) ws" using at Nil by (simp add: print_config_def)
    obtain l where l: "get_token (lex p) = (Inr END, l)" "current_token l = END" "same_frame (lex p) l"
      by (rule get_token_end [OF at0 sp])
    have "parse_pair p = (Inr None, p\<lparr>lex := l, pstate := False\<rparr>)"
      unfolding parse_pair_eq [OF Suc.prems(2)] pair_rest_def
      using l by (simp add: sbind_def on_lex_def)
    with l Nil show ?thesis by (simp add: store_all_def)
  next
    case (Cons kv kvs')
    obtain k v where kv: "kv = (k, v)" by (cases kv)
    let ?rest = "print_config ps (quote_char (lex p)) sep kvs'"
    have at1: "at_text (lex p) (ws @ print_entry ps (quote_char (lex p)) sep (k, v) @ ?rest)"
      using at Cons kv by (simp add: print_config_def)
    have ok: "entry_ok (k, v)" using Suc.prems(1) Cons kv by simp
    obtain l where l: "parse_pair p = (Inr (Some (k, v, line_no (lex p) + length ws, lex_filename (lex p))), p\<lparr>lex := l\<rparr>)"
      "at_text l (newline_char # ?rest)" "same_frame (lex p) l" "line_no l = line_no (lex p) + length ws"
      by (rule parse_pair_print [OF assms(1,2) ok Suc.prems(2,3) ws at1])
    let ?m = "\<lparr>mvalue = v, mdefined_at = defined_at_msg (line_no (lex p) + length ws) (lex_filename (lex p))\<rparr>"
    have st: "add_any k v (defined_at_msg (line_no (lex p) + length ws) (lex_filename (lex p))) thr r
        = (Inr (), put_any k ?m r)"
      using Suc.prems(6) Cons kv by (simp add: add_any_spec keys_free_def)
    have q: "quote_char l = quote_char (lex p)" "lex_filename l = lex_filename (lex p)"
      using l(3) by (simp_all add: same_frame_def quote_char_def)
    have set': "is_set (put_any k ?m r) k' = (k' = k \<or> is_set r k')" for k'
      by (simp add: is_set_def reg_store.look_put)
    have kf: "keys_free thr (map fst kvs') (put_any k ?m r)"
      using Suc.prems(6) Cons kv by (auto simp: keys_free_def set' list_all_iff)
    have "\<exists>p'. read_pairs n thr (p\<lparr>lex := l\<rparr>, put_any k ?m r)
      = (Inr (), p', store_all (stored (line_no l + 1) (lex_filename l) kvs') (put_any k ?m r))
      \<and> current_token (lex p') = END \<and> same_frame l (lex p')"
      using Suc.IH [of kvs' "p\<lparr>lex := l\<rparr>" "[newline_char]" "put_any k ?m r"] Suc.prems Cons l(2) q kf by simp
    then show ?thesis
      using l st Cons kv q same_frame_trans [OF l(3)] by (auto simp: store_all_def)
  qed
qed simp

lemma length_print_config: "length kvs \<le> length (print_config ps q sep kvs)"
  by (induction kvs) (simp_all add: print_config_def print_entry_def)

text \<open>\<open>read_from\<close> on a printed configuration.\<close>

definition style_quote :: "lexer_style_t \<Rightarrow> char" where
  "style_quote ls = (if string_quote_style ls = single_quote then squote else dquote)"

lemma read_from_print:
  assumes "style_ok ps" "separator_ok ps sep" "list_all entry_ok kvs"
    and "at_text lx (print_config ps (style_quote ls) sep kvs)" "keys_free thr (map fst kvs) r"
  obtains lx' where "read_from ls ps thr (lx, r)
      = (Inr (), lx', store_all (stored (line_no lx) (lex_filename lx) kvs) r)"
    "get_token lx' = (Inr END, lx'\<lparr>hold := False\<rparr>)"
proof -
  let ?p = "new_parser (set_style ls lx) ps"
  have n: "length kvs < Suc (pending lx)"
    using assms(4) length_print_config [of kvs ps "style_quote ls" sep]
    by (simp add: at_text_def pending_def)
  have "\<exists>p'. read_pairs (Suc (pending lx)) thr (?p, r)
      = (Inr (), p', store_all (stored (line_no (lex ?p) + length ([] :: string)) (lex_filename (lex ?p)) kvs) r)
      \<and> current_token (lex p') = END \<and> same_frame (lex ?p) (lex p')"
    by (rule read_pairs_print [OF assms(1,2,3), where ws = "[]"])
      (use assms(4,5) n in \<open>simp_all add: new_parser_def set_style_def at_text_def quote_char_def style_quote_def\<close>)
  then obtain p' where "read_pairs (Suc (pending lx)) thr (?p, r)
      = (Inr (), p', store_all (stored (line_no lx) (lex_filename lx) kvs) r)" "current_token (lex p') = END"
    by (auto simp: new_parser_def set_style_def)
  then show thesis
    by (intro that [of "putback (lex p')"]) (simp_all add: read_from_def Let_def get_token_def putback_def)
qed

lemma read_from_file_print:
  assumes "style_ok ps" "separator_ok ps sep" "list_all entry_ok kvs"
    and "fs name = Some (print_config ps (style_quote ls) sep kvs)" "keys_free thr (map fst kvs) r"
  shows "read_from_file fs name ls ps thr r = (Inr (), (store_all (stored 1 name kvs) r)\<lparr>reg_filename := name\<rparr>)"
proof -
  let ?lx = "new_lexer (istream_of (print_config ps (style_quote ls) sep kvs)) name default_lexer_style"
  have "at_text ?lx (print_config ps (style_quote ls) sep kvs)" by (simp add: new_lexer_def at_text_def)
  then obtain lx' where lx': "read_from ls ps thr (?lx, r) = (Inr (), lx', store_all (stored (line_no ?lx) (lex_filename ?lx) kvs) r)"
    "get_token lx' = (Inr END, lx'\<lparr>hold := False\<rparr>)"
    using read_from_print [OF assms(1,2,3) _ assms(5)] by metis
  have "expect END True lx' = (Inr (), lx'\<lparr>hold := False\<rparr>)"
    using lx'(2) by (simp add: expect_def next_or_current_def sbind_def)
  with lx'(1) assms(4) show ?thesis
    by (simp add: read_from_file_def) (simp add: new_lexer_def)
qed

end
