(* ===== verification/Registry_Props.thy ===== *)
theory Registry_Props
  imports Registry_Read
begin

text \<open>
  What the lexer, the parser and the registry promise their clients, as theorems about the
  operations of \<^verbatim>\<open>nanonet/registry.h\<close>, each with a concrete instance where it has hypotheses.
\<close>

section \<open>Integers and ports\<close>

lemma trunc_of_int [simp]: "trunc (of_int n) = n"
  by (simp add: trunc_def)

lemma trunc_exact: "of_int (trunc x) = x \<Longrightarrow> \<exists>n. x = of_int n"
  by metis

lemma util_check_long_Inr:
  "util_check_long x (Fin a) (Fin b) = Inr n \<longleftrightarrow>
     x = Fin (of_int n) \<and> a \<le> of_int n \<and> of_int n \<le> b \<and> long_min \<le> n \<and> n \<le> long_max"
proof (cases x)
  case (Fin y)
  show ?thesis
  proof
    assume a: "util_check_long x (Fin a) (Fin b) = Inr n"
    then have "of_int (trunc y) = y" "n = trunc y"
      by (auto simp: Fin util_check_long_def rbind_Inr_iff split: if_splits)
    with a show "x = Fin (of_int n) \<and> a \<le> of_int n \<and> of_int n \<le> b \<and> long_min \<le> n \<and> n \<le> long_max"
      by (auto simp: Fin util_check_long_def rbind_Inr_iff split: if_splits)
  next
    assume "x = Fin (of_int n) \<and> a \<le> of_int n \<and> of_int n \<le> b \<and> long_min \<le> n \<and> n \<le> long_max"
    then show "util_check_long x (Fin a) (Fin b) = Inr n"
      by (auto simp: util_check_long_def)
  qed
qed (auto simp: util_check_long_def rbind_Inr_iff split: if_splits)

lemma with_location_not_Inr [simp]: "with_location r key sep e \<noteq> Inr x"
  by (auto simp: with_location_def defined_at_def rbind_def split: option.splits sum.splits)

lemma catch_with_location: "catch_runtime m (with_location r key sep) = Inr x \<longleftrightarrow> m = Inr x"
  by (cases m) (auto simp: catch_runtime_def)

lemma check_port_Inr:
  "check_port r key = Inr n \<longleftrightarrow> value_at r key = Some (A_num (Fin (of_int n))) \<and> 0 \<le> n \<and> n \<le> 65535"
proof -
  have "(0::rat) \<le> of_int n \<longleftrightarrow> 0 \<le> n" "of_int n \<le> (65535::rat) \<longleftrightarrow> n \<le> 65535"
    by simp linarith
  then show ?thesis
    by (auto simp: check_port_def rbind_Inr_iff get_Inr cast_Some catch_with_location util_check_long_Inr
        long_min_def long_max_def)
qed

section \<open>The types the parser stores\<close>

text \<open>The parser builds numbers, strings, lists and expressions of such values, never a list that
  \<^verbatim>\<open>std::any\<close> holds as a \<^verbatim>\<open>std::vector<double>\<close> or a \<^verbatim>\<open>std::vector<std::string>\<close>.\<close>

fun from_parser :: "any \<Rightarrow> bool" where
  "from_parser (A_num _) = True"
| "from_parser (A_str _) = True"
| "from_parser (A_list vs) = list_all from_parser vs"
| "from_parser (A_expr _ vs) = list_all from_parser vs"
| "from_parser _ = False"

lemma parse_f_types:
  "parse_term_f n ps lx = (Inr v, lx') \<Longrightarrow> from_parser v"
  "parse_list_f n ps close acc first lx = (Inr vs, lx') \<Longrightarrow> list_all from_parser acc \<Longrightarrow> list_all from_parser vs"
proof (induction n arbitrary: lx lx' v close acc first vs)
  case (Suc n)
  have IH2: "parse_list_f n ps c [] True l = (Inr vs, l') \<Longrightarrow> list_all from_parser vs" for c l vs l'
    using Suc.IH(2) [where close = c and acc = "[]" and first = True and lx = l and lx' = l' and vs = vs] by simp
  {
    case 1
    then show ?case
      unfolding parse_term_f.simps by (auto elim!: sbind_InrE split: if_splits dest!: IH2)
  next
    case 2
    then show ?case
      unfolding parse_list_f.simps(2) [of n ps close acc first]
      by (auto elim!: sbind_InrE split: if_splits dest!: Suc.IH(2) Suc.IH(1))
  }
qed (simp_all add: parse_term_f.simps parse_list_f.simps)

definition all_parsed :: "registry \<Rightarrow> bool" where
  "all_parsed r \<longleftrightarrow> (\<forall>k m. kv_map r k = Some m \<longrightarrow> from_parser (mvalue m))"

lemma parse_term_types: "parse_term ps lx = (Inr v, lx') \<Longrightarrow> from_parser v"
  unfolding parse_term_def by (rule parse_f_types(1))

lemma parse_pair_types: "parse_pair p = (Inr (Some (k, v, l, f)), p') \<Longrightarrow> from_parser v"
  by (auto simp: parse_pair_def on_lex_Inr split: if_splits elim!: sbind_InrE dest!: parse_term_types)

lemma read_pairs_types: "read_pairs n thr (p, r) = (x, p', r') \<Longrightarrow> all_parsed r \<Longrightarrow> all_parsed r'"
proof (induction n arbitrary: p r)
  case (Suc n)
  obtain y p1 where y: "parse_pair p = (y, p1)" by (cases "parse_pair p")
  show ?case
  proof (cases "\<exists>k v l f. y = Inr (Some (k, v, l, f))")
    case True
    then obtain k v l f where kv: "y = Inr (Some (k, v, l, f))" by blast
    have "from_parser v" using y kv parse_pair_types by blast
    with Suc.prems(2) have "all_parsed (put_any k \<lparr>mvalue = v, mdefined_at = d\<rparr> r)" for d
      by (auto simp: all_parsed_def reg_store.look_put)
    with Suc.prems y kv Suc.IH show ?thesis
      by (auto simp: add_any_spec split: if_splits)
  next
    case False
    with Suc.prems y show ?thesis by (auto split: sum.splits option.splits)
  qed
qed simp

section \<open>The parser\<close>

text \<open>C1: The parser inverts the printer. In every style whose brackets are opening tokens, with
  either comma style and any separator it admits, \<open>parse_term\<close> on the printed text of a value
  (numbers, strings with their escapes, nested lists and expressions) returns that value and stops
  exactly behind the text, on the same line, with no token held back.\<close>

theorem parse_print_roundtrip:
  assumes "style_ok ps" "separator_ok ps sep" "printable v" "ends_word rest"
    and "\<not> hold lx" "is_stream lx = istream_of (print_any ps (quote_char lx) sep v @ rest)"
  shows "\<exists>lx'. parse_term ps lx = (Inr v, lx') \<and> is_stream lx' = istream_of rest \<and> \<not> hold lx'
           \<and> line_no lx' = line_no lx"
proof -
  have "at_text lx (print_any ps (quote_char lx) sep v @ rest)"
    using assms(5,6) by (simp add: at_text_def)
  from reads_backD [OF print_reads_back [OF assms(1,2,3)] this assms(4)]
  obtain lx' where "parse_term ps lx = (Inr v, lx')" "moved lx lx' rest" by blast
  then show ?thesis by (auto simp: moved_def at_text_def)
qed

definition sample_value :: any where
  "sample_value = A_list [A_num (Fin 42), A_str [CHR ''a'', dquote, newline_char],
     A_expr ''f'' [A_num (Fin (- 7)), A_list []]]"

definition sample_lexer :: lexer where
  "sample_lexer = new_lexer
     (istream_of (print_any default_parser_style dquote '', '' sample_value @ [newline_char])) ''f'' default_lexer_style"

lemma parse_print_roundtrip_witness:
  "\<exists>lx'. parse_term default_parser_style sample_lexer = (Inr sample_value, lx')
     \<and> is_stream lx' = istream_of [newline_char] \<and> \<not> hold lx' \<and> line_no lx' = line_no sample_lexer"
proof (rule parse_print_roundtrip)
  show "style_ok default_parser_style" by (simp add: style_ok_def default_parser_style_def)
  show "separator_ok default_parser_style '', ''"
    by (simp add: separator_ok_def default_parser_style_def blank_def char_simps)
  show "printable sample_value"
    by (simp add: sample_value_def small_int_def is_ident_def char_simps)
  show "ends_word [newline_char]" by (simp add: ends_word_def ident_char_def char_simps)
  show "\<not> hold sample_lexer" by (simp add: sample_lexer_def new_lexer_def)
  show "is_stream sample_lexer = istream_of
      (print_any default_parser_style (quote_char sample_lexer) '', '' sample_value @ [newline_char])"
    by (simp add: sample_lexer_def new_lexer_def quote_char_def default_lexer_style_def)
qed

text \<open>C25: \<open>parse_term\<close> is total. On any input it returns a value, having consumed some of the
  input, or throws \<^verbatim>\<open>std::runtime_error\<close>; the recursion of \<open>parse_term\<close> and \<open>parse_list\<close>
  never runs out of the bound of the model, provided that lists do not open at the end of the
  file.\<close>

theorem parse_term_total:
  assumes "list_delimiter ps \<noteq> END"
  shows "case parse_term ps lx of (Inr v, lx') \<Rightarrow> pending lx' < pending lx
         | (Inl e, lx') \<Rightarrow> \<exists>m. e = Runtime_error m"
  using parse_term_progress [OF assms] parse_term_errors [OF assms]
  by (auto split: prod.splits sum.splits)

lemma parse_term_total_witness:
  "case parse_term default_parser_style (new_lexer (istream_of ''{{'') ''f'' default_lexer_style) of
     (Inr v, lx') \<Rightarrow> pending lx' < 2 | (Inl e, lx') \<Rightarrow> \<exists>m. e = Runtime_error m"
proof -
  have p: "pending (new_lexer (istream_of ''{{'') ''f'' default_lexer_style) = 2"
    by (simp add: pending_def new_lexer_def)
  have "list_delimiter default_parser_style \<noteq> END" by (simp add: default_parser_style_def)
  then show ?thesis
    by (rule parse_term_total [of default_parser_style "new_lexer (istream_of ''{{'') ''f'' default_lexer_style",
          unfolded p])
qed

section \<open>The lexer\<close>

text \<open>C11: Line numbers. Over every successful \<open>get_token\<close>, through white space, comments of all
  styles, strings and numbers, the line number grows by exactly the number of newlines consumed,
  whatever the stream, so every message names the line its text is on.\<close>

theorem get_token_line_numbers:
  assumes "get_token lx = (Inr t, lx')"
  shows "line_no lx' + newlines (ibuf (is_stream lx')) = line_no lx + newlines (ibuf (is_stream lx))"
  using get_token_lines [OF assms] by (simp add: lines_of_def)

lemma get_token_line_numbers_witness:
  "newlines (ibuf (is_stream (snd (get_token (new_lexer (istream_of [newline_char, CHR '','', newline_char])
      ''f'' default_lexer_style))))) = 1"
proof -
  let ?lx = "new_lexer (istream_of [newline_char, CHR '','', newline_char]) ''f'' default_lexer_style"
  have "at_text ?lx ([newline_char] @ CHR '','' # [newline_char])" by (simp add: at_text_def new_lexer_def)
  then have g: "get_token ?lx = get_token (feed (skip_lines 1 ?lx) (CHR '','' # [newline_char]))"
    using get_token_newlines [of ?lx "[newline_char]" "CHR '','' # [newline_char]"] by simp
  have "at_text (feed (skip_lines 1 ?lx) (CHR '','' # [newline_char])) (CHR '','' # [newline_char])"
    by (simp add: at_text_def skip_lines_def new_lexer_def)
  then obtain l where l: "get_token ?lx = (Inr COMMA, l)" "moved (feed (skip_lines 1 ?lx) (CHR '','' # [newline_char])) l [newline_char]"
    by (rule get_token_punct [where t = COMMA]) (simp_all add: g char_token_def)
  have "line_no l = 2" using l(2) by (simp add: moved_def skip_lines_def new_lexer_def)
  then show ?thesis using get_token_line_numbers [OF l(1)] l(1) by (simp add: new_lexer_def)
qed

text \<open>C32: Comments and white space are transparent. Reading a token behind any white space, or
  behind a comment up to the end of the line in one of the spellings of the style, or, in the C
  style, behind a block comment whose body has no closing mark, is reading it at the next
  character, with the newlines counted.\<close>

theorem comments_are_transparent:
  "((\<forall>c \<in> set ws. isspace c) \<longrightarrow>
      get_token_loop (feed lx (ws @ s)) = get_token_loop (feed (skip_lines (newlines ws) lx) s))
   \<and> (st \<in> set (line_comment_start (style lx)) \<and> newline_char \<notin> set b \<longrightarrow>
      get_token_loop (feed lx (st @ b @ newline_char # s)) = get_token_loop (feed (skip_lines 1 lx) s))
   \<and> (comment_style (style lx) = c_comments \<and> \<not> sublist ''*/'' b \<longrightarrow>
      get_token_loop (feed lx (''/*'' @ b @ ''*/'' @ s)) = get_token_loop (feed (skip_lines (newlines b) lx) s))"
  using get_token_loop_spaces get_token_loop_line_comment get_token_loop_block_comment by blast

lemma comments_are_transparent_witness:
  "get_token_loop (feed (sample_lexer\<lparr>style := lexer_style config_style\<rparr>) (''/*'' @ ''a*b'' @ ''*/'' @ ''x ''))
     = get_token_loop (feed (sample_lexer\<lparr>style := lexer_style config_style\<rparr>) ''x '')"
proof -
  let ?lx = "sample_lexer\<lparr>style := lexer_style config_style\<rparr>"
  have "comment_style (style ?lx) = c_comments" by (simp add: config_style_def)
  moreover have "\<not> sublist ''*/'' ''a*b''" by code_simp
  moreover have "newlines ''a*b'' = 0" by simp
  ultimately show ?thesis
    using comments_are_transparent [of "[]" ?lx "''x ''" "[]" "''a*b''"] by simp
qed

text \<open>C33: Every error of the lexer is a \<^verbatim>\<open>std::runtime_error\<close> whose message starts with the file
  name and the line the lexer stands at, but for a quote character of the other quoting style,
  which is reported without a location.\<close>

theorem lexer_errors_located:
  assumes "get_token lx = (Inl e, lx')"
  shows "(\<exists>m. e = Runtime_error (lex_filename lx' @ '':'' @ nat_to_string (line_no lx') @ '': '' @ m))
    \<or> e = Runtime_error (''unknown input character: '' @ [dquote])
    \<or> e = Runtime_error (''unknown input character: '' @ [squote])"
  using get_token_exc [OF assms] by (auto simp: lexer_exc_def lex_error_def location_def)

lemma char_token_other: "c \<notin> set ''(){}[]/#%,=*'' \<Longrightarrow> char_token c = Inl (Runtime_error (''unknown input character: '' @ [c]))"
  by (auto simp: char_token_def)

lemma get_token_other_quote:
  "get_token (new_lexer (istream_of [squote]) ''f'' default_lexer_style)
     = (Inl (Runtime_error (''unknown input character: '' @ [squote])),
        new_lexer (istream_of []) ''f'' default_lexer_style)"
proof -
  let ?lx = "new_lexer (istream_of [squote]) ''f'' default_lexer_style"
  have "get_token ?lx = get_token_loop (feed ?lx [squote])"
    by (rule get_token_at) (simp add: at_text_def new_lexer_def)
  also have "\<dots> = (Inl (Runtime_error (''unknown input character: '' @ [squote])), feed ?lx [])"
    by (simp add: get_token_loop_char char_simps lex_char_quote lex_quote_def quote_char_def
        new_lexer_def default_lexer_style_def return_char_token_def char_token_def)
  finally show ?thesis by (simp add: feed_def new_lexer_def)
qed

lemma lexer_errors_located_witness:
  "fst (get_token (new_lexer (istream_of [squote]) ''f'' default_lexer_style))
     = Inl (Runtime_error (''unknown input character: '' @ [squote]))"
  using lexer_errors_located [OF get_token_other_quote] get_token_other_quote by auto

section \<open>Conversions\<close>

text \<open>The matrix conversion. \<^verbatim>\<open>convert\<close> of a value to a matrix succeeds exactly on the lists
  of lists of numbers of the shape asked for (a given or any number of rows, a given number of
  columns, any, or all rows as long as the first), and then returns these numbers.\<close>

theorem convert_matrix_spec:
  "convert_matrix a rows columns = Inr m \<longleftrightarrow>
     rows \<ge> - 1 \<and> columns \<ge> - 2 \<and> a = A_list (map (\<lambda>row. A_list (map A_num row)) m) \<and> matrix_shape rows columns m"
  by (rule convert_matrix_Inr)

text \<open>The list conversion accepts exactly the lists whose elements all convert, of the length
  asked for, and keeps their order; on the first element that does not convert it throws, naming
  that element by its position.\<close>

theorem convert_vector_spec:
  "(convert_vector T cast a n = Inr xs \<longleftrightarrow>
      n \<ge> - 1 \<and> (\<exists>vs. a = A_list vs \<and> (n < 0 \<or> length vs = nat n) \<and> map cast vs = map Some xs))
   \<and> (list_all (\<lambda>a. cast a \<noteq> None) vs \<and> cast b = None \<longrightarrow>
      convert_vector T cast (A_list (vs @ b # ws)) (- 1)
        = Inl (Runtime_error (''element '' @ nat_to_string (length vs + 1) @ ''should be a '' @ hr_type T)))"
proof (intro conjI)
  show "convert_vector T cast a n = Inr xs \<longleftrightarrow>
      n \<ge> - 1 \<and> (\<exists>vs. a = A_list vs \<and> (n < 0 \<or> length vs = nat n) \<and> map cast vs = map Some xs)"
    by (auto simp: convert_vector_Inr)
  show "list_all (\<lambda>a. cast a \<noteq> None) vs \<and> cast b = None \<longrightarrow>
      convert_vector T cast (A_list (vs @ b # ws)) (- 1)
        = Inl (Runtime_error (''element '' @ nat_to_string (length vs + 1) @ ''should be a '' @ hr_type T))"
    using convert_elements_Inl [of cast vs b T 0 ws]
    by (simp add: convert_vector_def convert_def)
qed

lemma convert_vector_spec_witness:
  "convert_vector T_double cast_double (A_list ([A_num (Fin 1)] @ A_str ''x'' # [])) (- 1)
     = Inl (Runtime_error (''element '' @ nat_to_string 2 @ ''should be a number''))"
  using convert_vector_spec [of T_double cast_double "A_list []" "- 1" "[]" "[A_num (Fin 1)]" "A_str ''x''" "[]"]
  by (simp add: numeral_2_eq_2)

section \<open>The registry\<close>

text \<open>C5: A configuration file written entry by entry is read back. \<open>read_from\<close> on the file stores
  exactly its entries, each with the line it stands on and the file's name, leaves every other key
  alone, and records the file name; with \<open>throw_on_redefinition\<close> the keys must be new and
  distinct.\<close>

theorem read_config_roundtrip:
  assumes "style_ok ps" "separator_ok ps sep" "list_all entry_ok kvs"
    and "fs name = Some (print_config ps (style_quote ls) sep kvs)" "keys_free thr (map fst kvs) r"
  shows "\<exists>r'. read_from_file fs name ls ps thr r = (Inr (), r') \<and> reg_filename r' = name
    \<and> (\<forall>key. kv_map r' key = (case map_of (rev (stored 1 name kvs)) key of None \<Rightarrow> kv_map r key | Some m \<Rightarrow> Some m))"
  using read_from_file_print [where fs = fs and name = name, OF assms]
  by (simp add: store_all_put_all reg_store.look_put_all)

definition sample_config :: "(string \<times> any) list" where
  "sample_config = [(''port'', A_num (Fin 8080)), (''rows'', A_list [A_list [A_num (Fin 1)], A_list [A_num (Fin 2)]])]"

lemma read_config_roundtrip_witness:
  "\<exists>r'. read_from_file (\<lambda>n. Some (print_config (parser_style config_style) (style_quote (lexer_style config_style)) '' '' sample_config))
      ''a.conf'' (lexer_style config_style) (parser_style config_style) True empty_registry = (Inr (), r')
    \<and> value_at r' ''port'' = Some (A_num (Fin 8080)) \<and> place_of r' ''rows'' = ''(line 2 in a.conf)''"
proof -
  have "style_ok (parser_style config_style)" "separator_ok (parser_style config_style) '' ''"
    by (simp_all add: style_ok_def separator_ok_def blank_def char_simps config_style_def)
  moreover have "list_all entry_ok sample_config" "keys_free True (map fst sample_config) empty_registry"
    by (simp_all add: sample_config_def entry_ok_def is_ident_def small_int_def ident_char_def char_simps
        keys_free_def is_set_def empty_registry_def)
  ultimately obtain r' where r': "read_from_file (\<lambda>n. Some (print_config (parser_style config_style)
        (style_quote (lexer_style config_style)) '' '' sample_config))
      ''a.conf'' (lexer_style config_style) (parser_style config_style) True empty_registry = (Inr (), r')"
    "\<forall>key. kv_map r' key = (case map_of (rev (stored 1 ''a.conf'' sample_config)) key of
        None \<Rightarrow> kv_map empty_registry key | Some m \<Rightarrow> Some m)"
    using read_config_roundtrip [of "parser_style config_style" "'' ''" sample_config
        "\<lambda>n. Some (print_config (parser_style config_style) (style_quote (lexer_style config_style)) '' '' sample_config)"
        "''a.conf''" "lexer_style config_style" True empty_registry] by blast
  moreover have "nat_to_string 2 = ''2''" by code_simp
  ultimately show ?thesis
    by (simp add: value_at_def place_of_def sample_config_def defined_at_msg_def numeral_2_eq_2)
qed

text \<open>C36: \<open>read_from\<close> is total: on any input it returns or throws \<^verbatim>\<open>std::runtime_error\<close>, and its
  loop over the pairs never reaches the bound of the model, since every pair consumes its key.\<close>

theorem read_from_total:
  assumes "list_delimiter ps \<noteq> END"
  shows "case read_from ls ps thr (lx, r) of (Inr _, _) \<Rightarrow> True | (Inl e, _) \<Rightarrow> \<exists>m. e = Runtime_error m"
  using read_from_errors [OF assms] by (auto split: prod.splits sum.splits)

lemma read_from_total_witness:
  "case read_from default_lexer_style default_parser_style True
      (new_lexer (istream_of ''a = 1 b'') ''f'' default_lexer_style, empty_registry) of
     (Inr _, _) \<Rightarrow> True | (Inl e, _) \<Rightarrow> \<exists>m. e = Runtime_error m"
  by (rule read_from_total) (simp add: default_parser_style_def)

text \<open>Redefinition. \<open>add_any\<close> with \<open>throw_on_redefinition\<close> on a key that is set throws, names
  the place of the first definition and stores nothing; in every other case it stores the value
  under the key, and \<open>get_any\<close> and \<open>defined_at\<close> then return what was stored last, for this key, and
  what they returned before, for any other.\<close>

theorem add_any_behaviour:
  "if thr \<and> is_set r key
   then add_any key v dat thr r = (Inl (Runtime_error (key @ '' redefined '' @ place_of r key)), r)
   else \<exists>r'. add_any key v dat thr r = (Inr (), r') \<and> get_any r' key = Inr v \<and> defined_at r' key = Inr dat
      \<and> (\<forall>k. k = key \<or> get_any r' k = get_any r k \<and> defined_at r' k = defined_at r k)"
  by (auto simp: add_any_spec get_any_def defined_at_def reg_store.look_put)

text \<open>Typed access. \<open>get\<close> returns the stored value when it has the type asked for; a missing key
  and a value of another type are errors, the latter with the place where the key was defined.\<close>

theorem get_typed:
  "get T cast r key =
     (case value_at r key of
        None \<Rightarrow> Inl (Runtime_error (''key '' @ key @ '': not defined''))
      | Some a \<Rightarrow>
          (case cast a of
             None \<Rightarrow> Inl (Runtime_error (key @ '' '' @ place_of r key @ '': should be a '' @ hr_type T))
           | Some x \<Rightarrow> Inr x))"
  unfolding get_spec not_defined_def ..

text \<open>Ports and integers. \<open>check_port\<close> accepts exactly the integers from 0 to 65535, and
  \<open>check_long\<close> exactly the integers in its range and that of \<^verbatim>\<open>long\<close>; each returns the number.\<close>

theorem check_port_spec:
  "(check_port r key = Inr n \<longleftrightarrow> value_at r key = Some (A_num (Fin (of_int n))) \<and> 0 \<le> n \<and> n \<le> 65535)
   \<and> (check_long r key (Fin a) (Fin b) = Inr n \<longleftrightarrow>
        value_at r key = Some (A_num (Fin (of_int n))) \<and> a \<le> of_int n \<and> of_int n \<le> b \<and> long_min \<le> n \<and> n \<le> long_max)"
proof -
  have "check_long r key (Fin a) (Fin b) = Inr n \<longleftrightarrow>
        value_at r key = Some (A_num (Fin (of_int n))) \<and> a \<le> of_int n \<and> of_int n \<le> b \<and> long_min \<le> n \<and> n \<le> long_max"
    by (auto simp: check_long_def rbind_Inr_iff get_Inr cast_Some catch_with_location util_check_long_Inr)
  with check_port_Inr show ?thesis by blast
qed

text \<open>C34: What \<open>read_from\<close> stores is what the parser builds, so on a registry filled by reading,
  the default lookups for a list of numbers and for a list of strings never return a value from
  the file: they return the default when the key is not set, and throw, whatever was written,
  when it is.\<close>

theorem parsed_lists_have_no_vector_type:
  assumes "all_parsed r" "read_from ls ps thr (lx, r) = (res, lx', r')"
  shows "all_parsed r'
    \<and> get_default_vec_double r' key ds = (if is_set r' key
        then Inl (Runtime_error (key @ '' '' @ place_of r' key @ '': should be a list of double'')) else Inr ds)
    \<and> get_default_vec_string r' key ss = (if is_set r' key
        then Inl (Runtime_error (key @ '' '' @ place_of r' key @ '': should be a list of strings'')) else Inr ss)"
proof -
  have p: "all_parsed r'"
    using assms(2) read_pairs_types [OF _ assms(1)]
    by (auto simp: read_from_def Let_def simp del: read_pairs.simps split: prod.splits sum.splits)
  have "cast_vec_double v = None \<and> cast_vec_string v = None" if "from_parser v" for v
    using that by (cases v) auto
  with p show ?thesis
    by (auto simp: get_default_vec_double_def get_default_vec_string_def get_default_internal_def
        is_defined_def is_set_def get_spec value_at_def all_parsed_def)
qed

lemma parsed_lists_have_no_vector_type_witness:
  "all_parsed (snd (snd (read_from default_lexer_style default_parser_style True
      (new_lexer (istream_of ''a = {1}'') ''f'' default_lexer_style, empty_registry))))"
proof -
  let ?s = "(new_lexer (istream_of ''a = {1}'') ''f'' default_lexer_style, empty_registry)"
  have e: "all_parsed empty_registry" by (simp add: all_parsed_def empty_registry_def)
  obtain res lx' r' where "read_from default_lexer_style default_parser_style True ?s = (res, lx', r')"
    by (cases "read_from default_lexer_style default_parser_style True ?s") auto
  with parsed_lists_have_no_vector_type [OF e this] show ?thesis by simp
qed

end
