(* ===== verification/Util.thy ===== *)
theory Util
  imports Streams Doubles
begin

text \<open>
  The string, stream and time utilities of \<^verbatim>\<open>nanonet/util.h\<close> and \<^verbatim>\<open>src/util.cpp\<close>. Boost's
  \<^verbatim>\<open>split\<close> and the C library's calendar functions are parameters of the definitions that
  call them.
\<close>

section \<open>Reading lines\<close>

text \<open>The loop of \<^verbatim>\<open>getline\<close>, with \<open>n\<close> characters left to read.\<close>

fun getline_loop :: "nat \<Rightarrow> istream \<Rightarrow> string \<Rightarrow> string \<times> istream" where
  "getline_loop 0 is acc = (acc, is)"
| "getline_loop (Suc n) is acc =
     (case ibuf is of
        [] \<Rightarrow> (acc, is\<lparr>failbit := True, eofbit := True\<rparr>)
      | c # cs \<Rightarrow>
          if c = newline_char then (acc, is\<lparr>ibuf := cs\<rparr>)
          else getline_loop n (is\<lparr>ibuf := cs\<rparr>) (acc @ [c]))"

text \<open>On a stream that is not good the sentry sets \<^verbatim>\<open>failbit\<close> and the string is left alone.\<close>

definition getline :: "int \<Rightarrow> istream \<times> string \<Rightarrow> unit result \<times> istream \<times> string" where
  "getline maxsize st =
     (case assertion (maxsize > 0) ''maxsize > 0'' ''src/util.cpp'' 81 of
        Inl e \<Rightarrow> (Inl e, st)
      | Inr _ \<Rightarrow>
          (case st of (is, s) \<Rightarrow>
             if \<not> good is then (Inr (), is\<lparr>failbit := True\<rparr>, s)
             else (case getline_loop (nat maxsize) is [] of (s', is') \<Rightarrow> (Inr (), is', s'))))"

text \<open>The whole of a stream, character by character.\<close>

definition stream_copy :: "istream \<Rightarrow> string \<Rightarrow> istream \<times> string" where
  "stream_copy is os = (is\<lparr>ibuf := []\<rparr>, os @ ibuf is)"

section \<open>Strings\<close>

definition trim_chars :: string where
  "trim_chars = [CHR '' '', newline_char, CHR 0x0D, CHR 0x09]"

text \<open>The local variable \<^verbatim>\<open>ret\<close> of \<^verbatim>\<open>trim\<close>; the function returns its argument.\<close>

definition trim_ret :: "string \<Rightarrow> string" where
  "trim_ret s =
     (let r1 = (case find_first_not_of s trim_chars of None \<Rightarrow> [] | Some i \<Rightarrow> drop i s)
      in case find_last_not_of r1 trim_chars of None \<Rightarrow> [] | Some i \<Rightarrow> take (i + 1) r1)"

definition trim :: "string \<Rightarrow> string" where
  "trim s = (let ret = trim_ret s in s)"

record splitter =
  sp_rest :: string
  sp_separator :: char
  exhausted :: bool

definition new_splitter :: "string \<Rightarrow> char \<Rightarrow> splitter" where
  "new_splitter s sep = \<lparr>sp_rest = s, sp_separator = sep, exhausted = False\<rparr>"

text \<open>\<^verbatim>\<open>splitter::get_next\<close>: \<open>None\<close> is the return value false.\<close>

definition get_next :: "splitter \<Rightarrow> string option \<times> splitter" where
  "get_next sp =
     (if exhausted sp then (None, sp)
      else let part = takeWhile (\<lambda>c. c \<noteq> sp_separator sp) (sp_rest sp);
               at_it = dropWhile (\<lambda>c. c \<noteq> sp_separator sp) (sp_rest sp)
           in if at_it = [] then (Some part, sp\<lparr>exhausted := True\<rparr>)
              else (Some part, sp\<lparr>sp_rest := tl at_it\<rparr>))"

lemma length_dropWhile_tl:
  "dropWhile P s \<noteq> [] \<Longrightarrow> length (tl (dropWhile P s)) < length s"
  using length_dropWhile_le [of P s] by (cases "dropWhile P s") auto

lemma get_next_less:
  "get_next sp = (Some part, sp') \<Longrightarrow>
     (if exhausted sp' then 0 else Suc (length (sp_rest sp'))) < (if exhausted sp then 0 else Suc (length (sp_rest sp)))"
  using length_dropWhile_tl [of "\<lambda>c. c \<noteq> sp_separator sp" "sp_rest sp"]
  by (auto simp: get_next_def Let_def simp del: length_tl split: if_splits)

function split_loop :: "splitter \<Rightarrow> string list" where
  "split_loop sp =
     (case get_next sp of (None, _) \<Rightarrow> [] | (Some part, sp') \<Rightarrow> part # split_loop sp')"
  by pat_completeness auto
termination
  by (relation "measure (\<lambda>sp. if exhausted sp then 0 else Suc (length (sp_rest sp)))")
    (use get_next_less [OF sym] in auto)

declare split_loop.simps [simp del]

definition split :: "string \<Rightarrow> char \<Rightarrow> string list" where
  "split s sep = split_loop (new_splitter s sep)"

text \<open>\<^verbatim>\<open>split_pair\<close>; \<open>bsplit s seps\<close> is \<^verbatim>\<open>boost::algorithm::split\<close> with \<^verbatim>\<open>is_any_of\<close>.\<close>

definition split_pair :: "(string \<Rightarrow> string \<Rightarrow> string list) \<Rightarrow> string \<Rightarrow> string \<Rightarrow> (string \<times> string) result" where
  "split_pair bsplit s separators =
     (let v = bsplit s separators
      in rbind (verify (2 = length v) (''split_pair(): Expected 2 fields, got '' @ nat_to_string (length v)))
           (\<lambda>_. Inr (v ! 0, v ! 1)))"

definition split_colon_blank :: "string \<Rightarrow> (string \<times> string) result" where
  "split_colon_blank s =
     (case str_find s CHR '':'' of
        None \<Rightarrow> Inl (Runtime_error (''split_colon_blank(): No colon found: '' @ s))
      | Some colon \<Rightarrow>
          Inr (take colon s, dropWhile (\<lambda>c. c = CHR '' '' \<or> c = CHR 0x09) (drop (colon + 1) s)))"

definition is_stdin :: "string \<Rightarrow> bool" where
  "is_stdin f \<longleftrightarrow> ''-'' = f \<or> ''stdin'' = f \<or> ''STDIN'' = f"

definition is_stdout :: "string \<Rightarrow> bool" where
  "is_stdout f \<longleftrightarrow> ''-'' = f \<or> ''stdout'' = f \<or> ''STDOUT'' = f"

text \<open>The loop of \<^verbatim>\<open>chop\<close>: the length up to which the string is kept.\<close>

fun chop_index :: "string \<Rightarrow> nat \<Rightarrow> nat" where
  "chop_index s 0 = 0"
| "chop_index s (Suc i) = (if isspace (s ! i) then chop_index s i else Suc i)"

definition chop :: "string \<Rightarrow> string" where
  "chop s = take (chop_index s (length s)) s"

definition canonical :: "string \<Rightarrow> string \<Rightarrow> string" where
  "canonical s extra = filter (\<lambda>c. isalnum c \<or> str_find extra c \<noteq> None) (map c_toupper s)"

definition tolower :: "string \<Rightarrow> string" where
  "tolower = map c_tolower"

definition toupper :: "string \<Rightarrow> string" where
  "toupper = map c_toupper"

definition toggle :: "bool \<Rightarrow> bool" where
  "toggle b = (\<not> b)"

text \<open>Raw memory as bytes: \<^verbatim>\<open>clear\<close> and \<^verbatim>\<open>mem_equal\<close>.\<close>

definition clear_bytes :: "nat list \<Rightarrow> nat list" where
  "clear_bytes t = map (\<lambda>_. 0) t"

definition mem_equal :: "nat list \<Rightarrow> nat list \<Rightarrow> bool" where
  "mem_equal t1 t2 = list_all2 (=) t1 t2"

section \<open>Time\<close>

definition day_seconds :: double where "day_seconds = Fin 86400"
definition hour_seconds :: double where "hour_seconds = Fin 3600"
definition minute_seconds :: double where "minute_seconds = Fin 60"

definition day_number :: "(double \<Rightarrow> int result) \<Rightarrow> double \<Rightarrow> int result" where
  "day_number to_l utc =
     rbind (c_assert (dle (Fin 0) utc) ''utc >= 0'') (\<lambda>_. to_l (ddiv utc day_seconds))"

text \<open>The text of a \<^verbatim>\<open>char ret[30]\<close> that \<^verbatim>\<open>sprintf\<close> fills: writing past its end is undefined.\<close>

definition into_buffer :: "nat \<Rightarrow> string \<Rightarrow> string result" where
  "into_buffer n s = (if length s < n then Inr s else Inl (Undefined ''buffer overflow''))"

definition hh_mm_fields :: "double \<Rightarrow> double \<times> double" where
  "hh_mm_fields dt =
     (let h = dfloor (ddiv dt hour_seconds);
          m = dround (ddiv (dsub dt (dmul h hour_seconds)) minute_seconds)
      in if dle (to_double (5999 / 100)) m then (dadd h (Fin 1), Fin 0) else (h, m))"

definition format_time_hh_mm :: "double \<Rightarrow> bool \<Rightarrow> string result" where
  "format_time_hh_mm dt skip_hour =
     rbind (c_assert (dle (Fin 0) dt) ''dt >= 0'') (\<lambda>_.
       case hh_mm_fields dt of (h, m) \<Rightarrow>
         into_buffer 30
           (if dless h (to_double (1 / 10)) \<and> skip_hour then pad_double 2 0 m
            else fixed_double 0 h @ '':'' @ pad_double 2 0 m))"

definition hh_mmt_fields :: "double \<Rightarrow> double \<times> double" where
  "hh_mmt_fields dt =
     (let h = dfloor (ddiv dt hour_seconds);
          m = dmul (to_double (1 / 10))
                (dround (ddiv (dmul (Fin 10) (dsub dt (dmul h hour_seconds))) minute_seconds))
      in if dle (to_double (5999 / 100)) m then (dadd h (Fin 1), Fin 0) else (h, m))"

definition format_time_hh_mmt :: "double \<Rightarrow> bool \<Rightarrow> string result" where
  "format_time_hh_mmt dt skip_hour =
     rbind (c_assert (dle (Fin 0) dt) ''dt >= 0'') (\<lambda>_.
       case hh_mmt_fields dt of (h, m) \<Rightarrow>
         into_buffer 30
           (if dless h (to_double (1 / 10)) \<and> skip_hour then pad_double 4 1 m
            else fixed_double 0 h @ '':'' @ pad_double 4 1 m))"

text \<open>Calendar functions: \<open>gmtime\<close> and \<open>strftime\<close> of the C library are parameters, \<open>None\<close> their
  failure; the seconds are rounded by adding a half before the conversion to \<^verbatim>\<open>time_t\<close>.\<close>

definition utc_tm :: "(double \<Rightarrow> int result) \<Rightarrow> (int \<Rightarrow> 'tm option) \<Rightarrow> string \<Rightarrow> double \<Rightarrow> 'tm result" where
  "utc_tm to_l gmtime errmsg t =
     rbind (to_l (dadd t (to_double (1 / 2)))) (\<lambda>t1.
       case gmtime t1 of
         None \<Rightarrow> Inl (Runtime_error (''gmtime(): '' @ errmsg))
       | Some tm \<Rightarrow> Inr tm)"

definition format_datetime ::
  "(double \<Rightarrow> int result) \<Rightarrow> (int \<Rightarrow> 'tm option) \<Rightarrow> string \<Rightarrow> (string \<Rightarrow> 'tm \<Rightarrow> string)
     \<Rightarrow> double \<Rightarrow> string \<Rightarrow> double \<Rightarrow> string \<Rightarrow> string result" where
  "format_datetime to_l gmtime errmsg strftime t format past_limit default_result =
     (if dless t past_limit then Inr default_result
      else rbind (utc_tm to_l gmtime errmsg t) (\<lambda>t2.
             let out = strftime format t2
             in if out = [] \<or> length out \<ge> 99
                then Inl (Runtime_error ''format_datetime(): formatting failure'') else Inr out))"

text \<open>\<open>strptime s format\<close> is what is left of \<open>s\<close> and the broken-down time.\<close>

definition parse_datetime ::
  "(string \<Rightarrow> string \<Rightarrow> (string \<times> 'tm) option) \<Rightarrow> ('tm \<Rightarrow> int) \<Rightarrow> string \<Rightarrow> string \<Rightarrow> double result" where
  "parse_datetime strptime timegm s format =
     (case strptime s format of
        None \<Rightarrow> Inl (Runtime_error (''parse_datetime(): parse error: '' @ s))
      | Some (rest, tm) \<Rightarrow>
          if rest \<noteq> [] then Inl (Runtime_error (''parse_datetime(): parsing incomplete: '' @ s))
          else Inr (to_double (of_int (timegm tm))))"

text \<open>\<^verbatim>\<open>to_fractional\<close>; \<open>to_l\<close> converts to the integral result types.\<close>

definition to_fractional :: "(double \<Rightarrow> int result) \<Rightarrow> double \<Rightarrow> int \<Rightarrow> (int \<times> int) result" where
  "to_fractional to_l t m =
     rbind (c_assert (m > 0) ''m > 0'') (\<lambda>_.
     rbind (assertion (dle (Fin 0) t) ''t >= 0'' ''include/nanonet/util.h'' 548) (\<lambda>_.
     let dm = to_double (of_int m);
         tt = ddiv (dfloor (dadd (dmul t dm) (to_double (1 / 2)))) dm
     in rbind (assertion (dle (Fin 0) tt) ''tt >= 0'' ''include/nanonet/util.h'' 553) (\<lambda>_.
        let i = dfloor tt
        in rbind (to_l i) (\<lambda>s.
           let ff = dmul dm (dsub tt i)
           in rbind (assertion (dle (Fin 0) ff) ''0 <= ff'' ''include/nanonet/util.h'' 560) (\<lambda>_.
              rbind (assertion (dless ff dm) ''ff < m'' ''include/nanonet/util.h'' 561) (\<lambda>_.
              rbind (to_l (dadd ff (to_double (1 / 2)))) (\<lambda>f.
              rbind (assertion (0 \<le> f) ''0 <= f'' ''include/nanonet/util.h'' 564) (\<lambda>_.
              rbind (assertion (f < m) ''f < m'' ''include/nanonet/util.h'' 565) (\<lambda>_.
              Inr (s, f))))))))))"

section \<open>Facts\<close>

text \<open>The splitter and its inverse.\<close>

fun join_char :: "char \<Rightarrow> string list \<Rightarrow> string" where
  "join_char sep [] = []"
| "join_char sep [x] = x"
| "join_char sep (x # y # ys) = x @ sep # join_char sep (y # ys)"

lemma split_loop_unfold:
  "split_loop \<lparr>sp_rest = s, sp_separator = sep, exhausted = False\<rparr> =
     takeWhile (\<lambda>c. c \<noteq> sep) s #
     (case dropWhile (\<lambda>c. c \<noteq> sep) s of [] \<Rightarrow> []
      | _ # r \<Rightarrow> split_loop \<lparr>sp_rest = r, sp_separator = sep, exhausted = False\<rparr>)"
  by (cases "dropWhile (\<lambda>c. c \<noteq> sep) s"; subst split_loop.simps)
    (simp_all add: get_next_def Let_def split_loop.simps [of "\<lparr>sp_rest = _, sp_separator = _, exhausted = True\<rparr>"]
      del: dropWhile_eq_Nil_conv)

lemma split_eq:
  "split s sep = takeWhile (\<lambda>c. c \<noteq> sep) s #
     (case dropWhile (\<lambda>c. c \<noteq> sep) s of [] \<Rightarrow> [] | _ # r \<Rightarrow> split r sep)"
  unfolding split_def new_splitter_def by (subst split_loop_unfold) simp

lemma split_nonempty [simp]: "split s sep \<noteq> []"
  by (subst split_eq) simp

lemma split_simps:
  "sep \<notin> set s \<Longrightarrow> split s sep = [s]"
  "sep \<notin> set s \<Longrightarrow> split (s @ sep # r) sep = s # split r sep"
proof -
  assume a: "sep \<notin> set s"
  then have "takeWhile (\<lambda>c. c \<noteq> sep) s = s" by (induction s) auto
  moreover have "takeWhile (\<lambda>c. c \<noteq> sep) (s @ sep # r) = s" "dropWhile (\<lambda>c. c \<noteq> sep) (s @ sep # r) = sep # r"
    "dropWhile (\<lambda>c. c \<noteq> sep) s = []"
    using a by (induction s) auto
  ultimately show "split s sep = [s]" "split (s @ sep # r) sep = s # split r sep"
    by (simp_all only: split_eq [of s] split_eq [of "s @ sep # r"] list.case)
qed

lemma join_char_Cons: "xs \<noteq> [] \<Longrightarrow> join_char sep (x # xs) = x @ sep # join_char sep xs"
  by (cases xs) simp_all

lemma sep_cases: "sep \<notin> set s \<or> (\<exists>a b. s = a @ sep # b \<and> sep \<notin> set a)"
  by (meson split_list_first)

lemma join_split: "join_char sep (split s sep) = s"
proof (induction "length s" arbitrary: s rule: less_induct)
  case less
  show ?case
    using sep_cases [of sep s]
  proof
    assume "\<exists>a b. s = a @ sep # b \<and> sep \<notin> set a"
    then obtain a b where s: "s = a @ sep # b" "sep \<notin> set a" by blast
    with less.hyps [of b] show ?thesis by (simp add: split_simps join_char_Cons)
  qed (simp add: split_simps)
qed

lemma split_parts: "part \<in> set (split s sep) \<Longrightarrow> sep \<notin> set part"
proof (induction "length s" arbitrary: s rule: less_induct)
  case less
  show ?case
    using sep_cases [of sep s]
  proof
    assume "\<exists>a b. s = a @ sep # b \<and> sep \<notin> set a"
    then obtain a b where s: "s = a @ sep # b" "sep \<notin> set a" by blast
    with less.hyps [of b] less.prems show ?thesis by (auto simp: split_simps)
  qed (use less.prems in \<open>auto simp: split_simps\<close>)
qed

lemma split_join: "xs \<noteq> [] \<Longrightarrow> list_all (\<lambda>x. sep \<notin> set x) xs \<Longrightarrow> split (join_char sep xs) sep = xs"
proof (induction xs)
  case (Cons x xs)
  then show ?case by (cases xs) (simp_all add: split_simps)
qed simp

lemma split_count: "length (split s sep) = Suc (length (filter (\<lambda>c. c = sep) s))"
proof (induction "length s" arbitrary: s rule: less_induct)
  case less
  have none: "filter (\<lambda>c. c = sep) a = []" if "sep \<notin> set a" for a using that by (induction a) auto
  show ?case
    using sep_cases [of sep s]
  proof
    assume "\<exists>a b. s = a @ sep # b \<and> sep \<notin> set a"
    then obtain a b where s: "s = a @ sep # b" "sep \<notin> set a" by blast
    with less.hyps [of b] none show ?thesis by (simp add: split_simps)
  qed (use none in \<open>simp add: split_simps\<close>)
qed

text \<open>Lines.\<close>

lemma getline_loop_of:
  "newline_char \<notin> set l \<Longrightarrow> length l < n \<Longrightarrow>
     getline_loop n (istream_of (l @ newline_char # r)) acc = (acc @ l, istream_of r)"
proof (induction l arbitrary: n acc)
  case Nil
  then show ?case by (cases n) (simp_all add: istream_of_def)
next
  case (Cons c l)
  then obtain m where n: "n = Suc m" by (cases n) auto
  from Cons n show ?case by auto
qed

lemma getline_loop_conserves:
  "getline_loop n is acc = (s, is') \<Longrightarrow>
     \<exists>t. s = acc @ t \<and> length t \<le> n \<and> newline_char \<notin> set t
       \<and> (ibuf is = t @ ibuf is' \<or> ibuf is = t @ newline_char # ibuf is')
       \<and> (failbit is' \<longrightarrow> failbit is \<or> ibuf is' = [])"
proof (induction n "is" acc arbitrary: s is' rule: getline_loop.induct)
  case (2 n "is" acc)
  show ?case
  proof (cases "ibuf is")
    case (Cons c cs)
    show ?thesis
    proof (cases "c = newline_char")
      case False
      with 2 Cons obtain t where "s = (acc @ [c]) @ t" "length t \<le> n" "newline_char \<notin> set t"
        "cs = t @ ibuf is' \<or> cs = t @ newline_char # ibuf is'" "failbit is' \<longrightarrow> failbit is \<or> ibuf is' = []"
        by fastforce
      with Cons False show ?thesis by (intro exI [of _ "c # t"]) auto
    qed (use 2 Cons in auto)
  qed (use 2 in auto)
qed auto

text \<open>\<^verbatim>\<open>chop\<close>.\<close>

lemma chop_index_prop:
  "n \<le> length s \<Longrightarrow>
     chop_index s n \<le> n \<and> (\<forall>i. chop_index s n \<le> i \<and> i < n \<longrightarrow> isspace (s ! i))
     \<and> (chop_index s n > 0 \<longrightarrow> \<not> isspace (s ! (chop_index s n - 1)))"
  by (induction n) (auto simp: less_Suc_eq)

lemma chop_rev: "chop s = rev (dropWhile isspace (rev s))"
proof -
  define k where "k = chop_index s (length s)"
  have k: "k \<le> length s" "\<And>i. k \<le> i \<Longrightarrow> i < length s \<Longrightarrow> isspace (s ! i)" "k > 0 \<Longrightarrow> \<not> isspace (s ! (k - 1))"
    using chop_index_prop [of "length s" s] by (auto simp: k_def)
  have sp: "\<forall>c \<in> set (rev (drop k s)). isspace c"
    using k(2) by (auto simp: in_set_conv_nth)
  have "dropWhile isspace (rev s) = dropWhile isspace (rev (drop k s) @ rev (take k s))"
    by (metis append_take_drop_id rev_append)
  also have "\<dots> = dropWhile isspace (rev (take k s))" by (rule dropWhile_append2) (use sp in blast)
  also have "\<dots> = rev (take k s)"
  proof (cases "k = 0")
    case False
    then have "take k s = take (k - 1) s @ [s ! (k - 1)]"
      using k(1) by (metis One_nat_def Suc_pred gr0I less_le_trans lessI take_Suc_conv_app_nth)
    with k(3) False show ?thesis by simp
  qed simp
  finally show ?thesis by (simp add: chop_def k_def)
qed

text \<open>What \<open>trim\<close> computes in its local variable.\<close>

lemma find_index_drop: "(case find_index P s of None \<Rightarrow> [] | Some i \<Rightarrow> drop i s) = dropWhile (\<lambda>x. \<not> P x) s"
proof (cases "find_index P s")
  case None
  then have "dropWhile (\<lambda>x. \<not> P x) s = []" by simp
  then show ?thesis unfolding None option.case by (rule sym)
qed (use find_index_takeWhile [of P s] in simp)

lemma find_index_rev_take:
  "(case map_option (\<lambda>i. length s - 1 - i) (find_index P (rev s)) of None \<Rightarrow> [] | Some i \<Rightarrow> take (i + 1) s)
     = rev (dropWhile (\<lambda>x. \<not> P x) (rev s))"
proof (cases "find_index P (rev s)")
  case None
  then have "dropWhile (\<lambda>x. \<not> P x) (rev s) = []" by simp
  then show ?thesis unfolding None by simp
next
  case (Some i)
  have i: "i < length s" using find_index_Some [OF Some] by simp
  have "dropWhile (\<lambda>x. \<not> P x) (rev s) = drop i (rev s)" using find_index_takeWhile [OF Some] by simp
  moreover have "rev (drop i (rev s)) = take (length s - i) s" by (simp add: rev_drop)
  moreover have "Suc (length s - Suc i) = length s - i" using i by simp
  ultimately show ?thesis using Some by simp
qed

section \<open>Properties\<close>

text \<open>Splitting. \<open>split\<close> through the \<open>splitter\<close> loop returns the fields between the separators:
  none contains the separator, there is one more than there are separators, joining them gives the
  string back, and splitting a joined list of such fields gives the list back.\<close>

theorem split_join_roundtrip:
  "join_char sep (split s sep) = s
   \<and> list_all (\<lambda>part. sep \<notin> set part) (split s sep)
   \<and> length (split s sep) = Suc (length (filter (\<lambda>c. c = sep) s))
   \<and> (xs = [] \<or> list_ex (\<lambda>x. sep \<in> set x) xs \<or> split (join_char sep xs) sep = xs)"
  using join_split split_parts split_count split_join [of xs sep]
  by (auto simp: list_all_iff list_ex_iff)

lemma split_join_roundtrip_witness:
  "split ''a,,b'' (CHR '','') = [''a'', [], ''b'']"
  using split_join_roundtrip [of "CHR '',''" "[]" "[''a'', [], ''b'']"] by simp

text \<open>\<open>getline\<close> on a good stream reads at most \<open>maxsize\<close> characters, none of them a newline, and
  loses nothing: what it returns and what is left make up the input, but for the one newline that
  ended the line. It fails only at the end of the input. A limit that is not positive is an
  assertion failure.\<close>

theorem getline_bounded:
  "if maxsize > 0
   then \<exists>is' l. getline maxsize (istream_of s, s0) = (Inr (), is', l) \<and> length l \<le> nat maxsize
      \<and> newline_char \<notin> set l \<and> (s = l @ ibuf is' \<or> s = l @ newline_char # ibuf is')
      \<and> (failbit is' \<longrightarrow> ibuf is' = [])
   else \<exists>m. getline maxsize st = (Inl (Assertion_failure m), st)"
proof (cases "maxsize > 0")
  case True
  obtain l is' where g: "getline_loop (nat maxsize) (istream_of s) [] = (l, is')"
    by (cases "getline_loop (nat maxsize) (istream_of s) []")
  with getline_loop_conserves [OF g] True show ?thesis
    by (auto simp: getline_def)
qed (simp add: getline_def assertion_def)

lemma getline_bounded_witness:
  "\<exists>is' l. getline 2 (istream_of ''abc'', []) = (Inr (), is', l) \<and> length l \<le> 2
      \<and> newline_char \<notin> set l \<and> (''abc'' = l @ ibuf is' \<or> ''abc'' = l @ newline_char # ibuf is')"
  using getline_bounded [of 2 "''abc''" "[]" undefined] by auto

text \<open>A line that fits is returned whole, the stream stands behind its newline, and the lines of
  a text are read one after the other; a line of exactly \<open>maxsize\<close> characters leaves its newline,
  so that an empty line follows.\<close>

theorem getline_line:
  assumes "newline_char \<notin> set l" "int (length l) \<le> maxsize" "maxsize > 0"
  shows "getline maxsize (istream_of (l @ newline_char # r), s0) =
    (Inr (), istream_of (if int (length l) < maxsize then r else newline_char # r), l)"
proof (cases "int (length l) < maxsize")
  case True
  then have "length l < nat maxsize" by simp
  from getline_loop_of [OF assms(1) this, of r "[]"] True assms(3) show ?thesis
    by (simp add: getline_def)
next
  case False
  then have n: "nat maxsize = length l" using assms(2) by simp
  have "getline_loop (length l) (istream_of (l @ t)) acc = (acc @ l, istream_of t)" for t acc
    using assms(1) by (induction l arbitrary: acc) auto
  with False n assms(3) show ?thesis by (simp add: getline_def)
qed

lemma getline_line_witness:
  "getline 3 (istream_of (''abc'' @ newline_char # ''d''), []) = (Inr (), istream_of (newline_char # ''d''), ''abc'')"
  using getline_line [of "''abc''" 3 "''d''" "[]"] by simp

text \<open>\<open>chop\<close> removes exactly the white space at the end, and \<open>trim\<close>, documented to remove white
  space at both ends, computes the trimmed string and then returns its argument unchanged.\<close>

theorem chop_and_trim:
  "chop s = rev (dropWhile isspace (rev s))
   \<and> trim_ret s = rev (dropWhile (\<lambda>c. c \<in> set trim_chars) (rev (dropWhile (\<lambda>c. c \<in> set trim_chars) s)))
   \<and> trim s = s"
proof -
  have "trim_ret s = rev (dropWhile (\<lambda>c. c \<in> set trim_chars) (rev (dropWhile (\<lambda>c. c \<in> set trim_chars) s)))"
    unfolding trim_ret_def Let_def find_first_not_of_def find_last_not_of_def find_index_drop find_index_rev_take
    by simp
  then show ?thesis by (simp add: chop_rev trim_def)
qed

text \<open>\<open>split_colon_blank\<close> splits a header line at its first colon and drops the blanks in front of
  the value; without a colon it throws.\<close>

theorem split_colon_blank_spec:
  "if CHR '':'' \<in> set s
   then \<exists>k b v. s = k @ CHR '':'' # b @ v \<and> CHR '':'' \<notin> set k \<and> list_all (\<lambda>c. c = CHR '' '' \<or> c = CHR 0x09) b
      \<and> (v = [] \<or> hd v \<noteq> CHR '' '' \<and> hd v \<noteq> CHR 0x09) \<and> split_colon_blank s = Inr (k, v)
   else split_colon_blank s = Inl (Runtime_error (''split_colon_blank(): No colon found: '' @ s))"
proof (cases "CHR '':'' \<in> set s")
  case True
  then obtain k r where s: "s = k @ CHR '':'' # r" "CHR '':'' \<notin> set k" by (meson split_list_first)
  then have f: "str_find s CHR '':'' = Some (length k)"
    using find_index_append [of k "\<lambda>x. x = CHR '':''" "CHR '':'' # r"] by (auto simp: str_find_def)
  let ?P = "\<lambda>c. c = CHR '' '' \<or> c = CHR 0x09"
  have "split_colon_blank s = Inr (k, dropWhile ?P r)" using s f by (simp add: split_colon_blank_def)
  moreover have "s = k @ CHR '':'' # takeWhile ?P r @ dropWhile ?P r" using s by simp
  moreover have "list_all ?P (takeWhile ?P r)" by (auto simp: list_all_iff dest: set_takeWhileD)
  moreover have "dropWhile ?P r = [] \<or> \<not> ?P (hd (dropWhile ?P r))" using hd_dropWhile by blast
  ultimately have "\<exists>k b v. s = k @ CHR '':'' # b @ v \<and> CHR '':'' \<notin> set k \<and> list_all ?P b
      \<and> (v = [] \<or> hd v \<noteq> CHR '' '' \<and> hd v \<noteq> CHR 0x09) \<and> split_colon_blank s = Inr (k, v)"
    using s(2) by (intro exI [of _ k] exI [of _ "takeWhile ?P r"] exI [of _ "dropWhile ?P r"]) blast
  with True show ?thesis by (simp only: if_True)
next
  case False
  then have "str_find s CHR '':'' = None" by (auto simp: str_find_def)
  with False show ?thesis by (simp add: split_colon_blank_def)
qed

text \<open>The minutes that \<open>format_time_hh_mm\<close> prints never reach 60: for every finite time whose
  quotient and product do not overflow the minutes field is an integer of at most 59, the carry
  going to the hours.\<close>

theorem hh_mm_minutes_below_60:
  assumes "hh_mm_fields (Fin t) = (h, Fin m)"
  shows "\<exists>i. m = of_int i \<and> i \<le> 59"
proof -
  let ?h = "dfloor (ddiv (Fin t) hour_seconds)"
  let ?m = "dround (ddiv (dsub (Fin t) (dmul ?h hour_seconds)) minute_seconds)"
  show ?thesis
  proof (cases "dle (to_double (5999 / 100)) ?m")
    case True
    with assms show ?thesis by (auto simp: hh_mm_fields_def Let_def intro: exI [of _ 0])
  next
    case False
    have "(if dle (to_double (5999 / 100)) ?m then (dadd ?h (Fin 1), Fin 0) else (?h, ?m)) = (h, Fin m)"
      using assms unfolding hh_mm_fields_def Let_def .
    with False have "(?h, ?m) = (h, Fin m)" by (simp only: if_False)
    then have m: "?m = Fin m" by (rule Pair_inject)
    then obtain i where i: "m = of_int i" by (auto elim: dround.elims)
    obtain r where "to_double (5999 / 100) = Fin r" "r \<le> of_int 60"
      by (rule to_double_between [of 59 "5999 / 100" 60]) simp_all
    with False m have "m < 60" by (auto simp: dle_def)
    with i show ?thesis by auto
  qed
qed

lemma hh_mm_minutes_below_60_witness:
  "hh_mm_fields (Fin 7200) = (Fin 2, Fin 0) \<and> (\<exists>i. (0 :: rat) = of_int i \<and> i \<le> 59)"
proof -
  have d: "to_double 2 = Fin 2" "to_double 7200 = Fin 7200" "to_double 0 = Fin 0"
    using to_double_of_int [of 2] to_double_of_int [of 7200] to_double_of_int [of 0] by simp_all
  have f: "\<lfloor>1 / 2 :: rat\<rfloor> = 0" by (simp add: floor_eq_iff)
  have c: "\<not> dle (to_double (5999 / 100)) (Fin 0)"
    by (rule to_double_between [of 59 "5999 / 100" 60]) (auto simp: dle_def)
  have "hh_mm_fields (Fin 7200) = (Fin 2, Fin 0)"
    using c by (simp add: hh_mm_fields_def Let_def hour_seconds_def minute_seconds_def d dsub_def round_away_def f)
  with hh_mm_minutes_below_60 [OF this] show ?thesis by blast
qed

end
