(* ===== verification/Calendar.thy ===== *)
theory Calendar
  imports Util
begin

text \<open>
  Dates and times of \<^verbatim>\<open>nanonet/util.h\<close> and \<^verbatim>\<open>src/util.cpp\<close> with the calendar functions of the C
  library that they use: \<^verbatim>\<open>gmtime_r\<close>, \<^verbatim>\<open>strftime\<close>, \<^verbatim>\<open>strptime\<close> and \<^verbatim>\<open>timegm\<close>, in the ``C'' locale and
  for the conversions that occur in the formats of the sources. The Gregorian calendar is extended
  to all years; \<open>z\<close> is a number of days since January 1, 1970.
\<close>

section \<open>The calendar\<close>

definition leap :: "int \<Rightarrow> bool" where
  "leap y \<longleftrightarrow> 4 dvd y \<and> (\<not> 100 dvd y \<or> 400 dvd y)"

definition month_lengths :: "bool \<Rightarrow> int list" where
  "month_lengths lp = [31, if lp then 29 else 28, 31, 30, 31, 30, 31, 31, 30, 31, 30, 31]"

text \<open>Days before the first of January of a year, and the year of a day.\<close>

definition leaps :: "int \<Rightarrow> int" where
  "leaps n = n div 4 - n div 100 + n div 400"

definition days_before :: "int \<Rightarrow> int" where
  "days_before y = 365 * (y - 1970) + (leaps (y - 1) - leaps 1969)"

definition year_of :: "int \<Rightarrow> int" where
  "year_of z =
     (let y = 1970 + (400 * z) div 146097
      in if z < days_before y then y - 1 else if days_before (y + 1) \<le> z then y + 1 else y)"

text \<open>The month, from 0, and the day of the month, from 0, of a day of the year.\<close>

fun month_day :: "int list \<Rightarrow> int \<Rightarrow> nat \<times> int" where
  "month_day [] d = (0, d)"
| "month_day (l # ls) d =
     (if d < l then (0, d) else (case month_day ls (d - l) of (m, d') \<Rightarrow> (Suc m, d')))"

record tm =
  tm_sec :: int
  tm_min :: int
  tm_hour :: int
  tm_mday :: int
  tm_mon :: int
  tm_year :: int
  tm_wday :: int
  tm_yday :: int

definition clear_tm :: tm where
  "clear_tm = \<lparr>tm_sec = 0, tm_min = 0, tm_hour = 0, tm_mday = 0, tm_mon = 0, tm_year = 0, tm_wday = 0, tm_yday = 0\<rparr>"

text \<open>\<^verbatim>\<open>gmtime_r\<close> fails if the year is out of the range of \<^verbatim>\<open>int\<close>.\<close>

definition gmtime :: "int \<Rightarrow> tm option" where
  "gmtime t =
     (let z = t div 86400; s = t mod 86400; y = year_of z; yd = z - days_before y;
          (m, d) = month_day (month_lengths (leap y)) yd
      in if - (2 ^ 31) \<le> y - 1900 \<and> y - 1900 < 2 ^ 31
         then Some \<lparr>tm_sec = s mod 60, tm_min = s div 60 mod 60, tm_hour = s div 3600, tm_mday = d + 1,
                    tm_mon = int m, tm_year = y - 1900, tm_wday = (z + 4) mod 7, tm_yday = yd\<rparr>
         else None)"

text \<open>\<^verbatim>\<open>timegm\<close>, for a month from 0 to 11.\<close>

definition timegm :: "tm \<Rightarrow> int" where
  "timegm t =
     (let y = tm_year t + 1900
      in (days_before y + sum_list (take (nat (tm_mon t)) (month_lengths (leap y))) + (tm_mday t - 1)) * 86400
         + tm_hour t * 3600 + tm_min t * 60 + tm_sec t)"

section \<open>Formats\<close>

text \<open>\<^verbatim>\<open>%F\<close> and \<^verbatim>\<open>%T\<close> are abbreviations.\<close>

fun expand_format :: "string \<Rightarrow> string" where
  "expand_format [] = []"
| "expand_format (c # cs) =
     (if c = CHR ''%'' \<and> cs \<noteq> []
      then (let d = hd cs
            in (if d = CHR ''F'' then ''%Y-%m-%d'' else if d = CHR ''T'' then ''%H:%M:%S'' else [c, d])
               @ expand_format (tl cs))
      else c # expand_format cs)"

fun dec :: "nat \<Rightarrow> nat \<Rightarrow> string" where
  "dec 0 n = []"
| "dec (Suc w) n = dec w (n div 10) @ [digit_char (n mod 10)]"

definition conversion :: "char \<Rightarrow> tm \<Rightarrow> string" where
  "conversion c t =
     (if c = CHR ''Y'' then int_to_string (tm_year t + 1900)
      else if c = CHR ''m'' then dec 2 (nat (tm_mon t + 1))
      else if c = CHR ''d'' then dec 2 (nat (tm_mday t))
      else if c = CHR ''H'' then dec 2 (nat (tm_hour t))
      else if c = CHR ''M'' then dec 2 (nat (tm_min t))
      else if c = CHR ''S'' then dec 2 (nat (tm_sec t))
      else [CHR ''%'', c])"

fun strftime_exp :: "string \<Rightarrow> tm \<Rightarrow> string" where
  "strftime_exp [] t = []"
| "strftime_exp (c # cs) t =
     (if c = CHR ''%'' \<and> cs \<noteq> [] then conversion (hd cs) t @ strftime_exp (tl cs) t
      else c # strftime_exp cs t)"

definition strftime :: "string \<Rightarrow> tm \<Rightarrow> string" where
  "strftime f t = strftime_exp (expand_format f) t"

text \<open>Reading a number between \<open>lo\<close> and \<open>hi\<close> of at most \<open>n\<close> digits.\<close>

fun more_digits :: "nat \<Rightarrow> nat \<Rightarrow> nat \<Rightarrow> string \<Rightarrow> nat \<times> string" where
  "more_digits 0 hi v s = (v, s)"
| "more_digits (Suc n) hi v [] = (v, [])"
| "more_digits (Suc n) hi v (c # cs) =
     (if v * 10 \<le> hi \<and> isdigit c then more_digits n hi (v * 10 + digit_val c) cs else (v, c # cs))"

definition get_number :: "nat \<Rightarrow> nat \<Rightarrow> nat \<Rightarrow> string \<Rightarrow> (nat \<times> string) option" where
  "get_number lo hi n s =
     (case dropWhile isspace s of
        [] \<Rightarrow> None
      | c # cs \<Rightarrow>
          if \<not> isdigit c then None
          else (case more_digits (n - 1) hi (digit_val c) cs of
                  (v, r) \<Rightarrow> if v < lo \<or> v > hi then None else Some (v, r)))"

definition parse_conversion :: "char \<Rightarrow> string \<Rightarrow> tm \<Rightarrow> (string \<times> tm) option" where
  "parse_conversion c s t =
     (if c = CHR ''Y'' then map_option (\<lambda>(v, r). (r, t\<lparr>tm_year := int v - 1900\<rparr>)) (get_number 0 9999 4 s)
      else if c = CHR ''m'' then map_option (\<lambda>(v, r). (r, t\<lparr>tm_mon := int v - 1\<rparr>)) (get_number 1 12 2 s)
      else if c = CHR ''d'' then map_option (\<lambda>(v, r). (r, t\<lparr>tm_mday := int v\<rparr>)) (get_number 1 31 2 s)
      else if c = CHR ''H'' then map_option (\<lambda>(v, r). (r, t\<lparr>tm_hour := int v\<rparr>)) (get_number 0 23 2 s)
      else if c = CHR ''M'' then map_option (\<lambda>(v, r). (r, t\<lparr>tm_min := int v\<rparr>)) (get_number 0 59 2 s)
      else if c = CHR ''S'' then map_option (\<lambda>(v, r). (r, t\<lparr>tm_sec := int v\<rparr>)) (get_number 0 61 2 s)
      else None)"

fun strptime_exp :: "string \<Rightarrow> string \<Rightarrow> tm \<Rightarrow> (string \<times> tm) option" where
  "strptime_exp [] s t = Some (s, t)"
| "strptime_exp (c # cs) s t =
     (if isspace c then strptime_exp cs (dropWhile isspace s) t
      else if c = CHR ''%'' \<and> cs \<noteq> []
      then (case parse_conversion (hd cs) s t of None \<Rightarrow> None | Some (s', t') \<Rightarrow> strptime_exp (tl cs) s' t')
      else (case s of [] \<Rightarrow> None | d # ds \<Rightarrow> if d = c then strptime_exp cs ds t else None))"

definition strptime :: "string \<Rightarrow> string \<Rightarrow> (string \<times> tm) option" where
  "strptime s f = strptime_exp (expand_format f) s clear_tm"

section \<open>The functions of the library\<close>

definition llmilliseconds :: "(double \<Rightarrow> int result) \<Rightarrow> double \<Rightarrow> int result" where
  "llmilliseconds llrint t = llrint (dmul t (Fin 1000))"

definition time_format_hh_mm :: string where "time_format_hh_mm = ''%H:%M''"
definition time_format_hh_mm_ss :: string where "time_format_hh_mm_ss = ''%H:%M:%S''"
definition default_datetime_format :: string where "default_datetime_format = ''%FT%TZ''"

definition year_seconds :: double where "year_seconds = dmul (Fin 365) day_seconds"
definition default_past_limit :: double where "default_past_limit = dmul (Fin (- 1970)) year_seconds"

text \<open>\<open>format_datetime\<close> and \<open>parse_datetime\<close> with the calendar above; a \<^verbatim>\<open>time_t\<close> has 64 bits, as a
  \<^verbatim>\<open>long\<close>, and \<open>errmsg\<close> is the message of the error number.\<close>

definition datetime_to_string :: "string \<Rightarrow> double \<Rightarrow> string \<Rightarrow> string result" where
  "datetime_to_string errmsg t format =
     format_datetime to_long gmtime errmsg strftime t format default_past_limit ''-''"

definition string_to_datetime :: "string \<Rightarrow> string \<Rightarrow> double result" where
  "string_to_datetime s format = parse_datetime strptime timegm s format"

definition format_date :: "string \<Rightarrow> double \<Rightarrow> string result" where
  "format_date errmsg t = datetime_to_string errmsg t ''%F''"

definition format_time :: "string \<Rightarrow> double \<Rightarrow> string result" where
  "format_time errmsg t = datetime_to_string errmsg t ''%TZ''"

definition format_time_no_z :: "string \<Rightarrow> double \<Rightarrow> string result" where
  "format_time_no_z errmsg t = datetime_to_string errmsg t ''%T''"

text \<open>The clock counts nanoseconds since the epoch.\<close>

definition utc :: "int \<Rightarrow> double" where
  "utc now_ns = ddiv (to_double (of_int now_ns)) (to_double (10 ^ 9))"

section \<open>Facts of the calendar\<close>

lemma div_pred: "0 < k \<Longrightarrow> (y - 1) div k = y div k - (if k dvd y then 1 else 0)" for k y :: int
proof -
  assume k: "0 < k"
  have y: "y = k * (y div k) + y mod k" by simp
  show ?thesis
  proof (cases "k dvd y")
    case True
    then have "y - 1 = k * (y div k - 1) + (k - 1)" by (simp add: algebra_simps)
    with k True show ?thesis using int_div_pos_eq [of "y - 1" k "y div k - 1" "k - 1"] by simp
  next
    case False
    then have "0 < y mod k" using k by (simp add: dvd_eq_mod_eq_0 order_less_le)
    moreover have "y - 1 = k * (y div k) + (y mod k - 1)" using y by simp
    ultimately show ?thesis using k False pos_mod_bound [OF k, of y]
        int_div_pos_eq [of "y - 1" k "y div k" "y mod k - 1"] by simp
  qed
qed

lemma leap_count:
  "(h \<Longrightarrow> f) \<Longrightarrow> (t \<Longrightarrow> h) \<Longrightarrow>
     (a - b + c) - (a - (if f then 1 else 0) - (b - (if h then 1 else 0)) + (c - (if t then 1 else 0)))
       = (if f \<and> (\<not> h \<or> t) then 1 else 0)" for a b c :: int
  by (cases f; cases h; cases t) auto

lemma leaps_step: "leaps y - leaps (y - 1) = (if leap y then 1 else 0)"
proof -
  have "100 dvd y \<Longrightarrow> 4 dvd y" "400 dvd y \<Longrightarrow> 100 dvd y"
    using dvd_trans [of 4 100 y] dvd_trans [of 100 400 y] by simp_all
  moreover have "leaps (y - 1) = y div 4 - (if 4 dvd y then 1 else 0) - (y div 100 - (if 100 dvd y then 1 else 0))
      + (y div 400 - (if 400 dvd y then 1 else 0))"
    unfolding leaps_def by (simp only: div_pred zero_less_numeral)
  ultimately show ?thesis unfolding leap_def leaps_def [of y] by (simp only: leap_count)
qed

lemma days_before_step: "days_before (y + 1) = days_before y + (if leap y then 366 else 365)"
  using leaps_step [of y] by (simp add: days_before_def split: if_splits)

lemma div_bounds: "0 < k \<Longrightarrow> k * (n div k) \<le> n" "0 < k \<Longrightarrow> n < k * (n div k) + k" for n k :: int
  using pos_mod_bound [of k n] pos_mod_sign [of k n] minus_mult_div_eq_mod [of n k] by linarith+

lemma days_before_bounds:
  "146097 * (y - 1970) - 800 \<le> 400 * days_before y" "400 * days_before y \<le> 146097 * (y - 1970) + 800"
proof -
  let ?n = "y - 1"
  note b = div_bounds [of 4 ?n] div_bounds [of 100 ?n] div_bounds [of 400 ?n]
  have "leaps 1969 = 477" by (simp add: leaps_def)
  then have e: "400 * days_before y = 146000 * (y - 1970) + 100 * (4 * (?n div 4)) - 4 * (100 * (?n div 100)) + 400 * (?n div 400) - 190800"
    by (simp add: days_before_def leaps_def)
  show "146097 * (y - 1970) - 800 \<le> 400 * days_before y" "400 * days_before y \<le> 146097 * (y - 1970) + 800"
    unfolding e using b by simp_all
qed

lemma year_of_bounds: "days_before (year_of z) \<le> z \<and> z < days_before (year_of z + 1)"
proof -
  define y where "y = 1970 + (400 * z) div 146097"
  have q: "146097 * (y - 1970) \<le> 400 * z" "400 * z < 146097 * (y - 1970) + 146097"
    using div_bounds [of 146097 "400 * z"] unfolding y_def by simp_all
  have "days_before (y - 1) \<le> z" "z < days_before (y + 2)"
    using days_before_bounds(2) [of "y - 1"] days_before_bounds(1) [of "y + 2"] q by simp_all
  then show ?thesis unfolding year_of_def Let_def y_def [symmetric] by (auto simp: ac_simps)
qed

lemma month_day_inverse:
  "0 \<le> d \<Longrightarrow> d < sum_list ls \<Longrightarrow> list_all (\<lambda>l. 0 \<le> l) ls \<Longrightarrow> month_day ls d = (m, r) \<Longrightarrow>
     m < length ls \<and> 0 \<le> r \<and> r < ls ! m \<and> sum_list (take m ls) + r = d"
proof (induction ls d arbitrary: m r rule: month_day.induct)
  case (2 l ls d)
  then show ?case by (cases "d < l") (auto split: prod.splits)
qed simp

lemma month_lengths_sum: "sum_list (month_lengths lp) = (if lp then 366 else 365)"
  by (simp add: month_lengths_def)

lemma month_lengths_bounds: "m < 12 \<Longrightarrow> month_lengths lp ! m \<le> 31"
  by (auto simp: month_lengths_def less_Suc_eq numeral_eq_Suc)

text \<open>A broken-down time with all its fields in range.\<close>

definition tm_ok :: "tm \<Rightarrow> bool" where
  "tm_ok t \<longleftrightarrow> 0 \<le> tm_sec t \<and> tm_sec t < 60 \<and> 0 \<le> tm_min t \<and> tm_min t < 60 \<and> 0 \<le> tm_hour t \<and> tm_hour t < 24
     \<and> 1 \<le> tm_mday t \<and> tm_mday t \<le> 31 \<and> 0 \<le> tm_mon t \<and> tm_mon t < 12"

lemma clock_fields:
  fixes s :: int
  assumes "0 \<le> s" "s < 86400"
  shows "s div 3600 * 3600 + s div 60 mod 60 * 60 + s mod 60 = s \<and> 0 \<le> s div 3600 \<and> s div 3600 < 24"
proof -
  have h: "s div 3600 = s div 60 div 60" using zdiv_zmult2_eq [of 60 s 60] by simp
  have "s = 60 * (s div 60) + s mod 60" "s div 60 = 60 * (s div 60 div 60) + s div 60 mod 60"
    by simp_all
  then have "s div 3600 * 3600 + s div 60 mod 60 * 60 + s mod 60 = s"
    unfolding h by linarith
  moreover have "s div 3600 < 24" "0 \<le> s div 3600" using assms div_bounds [of 3600 s] by simp_all
  ultimately show ?thesis by simp
qed

lemma gmtime_timegm:
  assumes "gmtime t = Some b"
  shows "timegm b = t \<and> tm_ok b \<and> tm_year b + 1900 = year_of (t div 86400)"
proof -
  define z where "z = t div 86400"
  define s where "s = t mod 86400"
  define y where "y = year_of z"
  define yd where "yd = z - days_before y"
  obtain m d where md: "month_day (month_lengths (leap y)) yd = (m, d)" by (rule prod.exhaust)
  have b: "b = \<lparr>tm_sec = s mod 60, tm_min = s div 60 mod 60, tm_hour = s div 3600, tm_mday = d + 1,
      tm_mon = int m, tm_year = y - 1900, tm_wday = (z + 4) mod 7, tm_yday = yd\<rparr>"
    using assms
    unfolding gmtime_def Let_def z_def [symmetric] s_def [symmetric] y_def [symmetric] yd_def [symmetric] md
    by (simp only: prod.case split: if_splits) simp_all
  have "0 \<le> yd" "yd < sum_list (month_lengths (leap y))"
    using year_of_bounds [of z] days_before_step [of y]
    by (auto simp: yd_def month_lengths_sum y_def)
  from month_day_inverse [OF this _ md]
  have i: "m < 12" "0 \<le> d" "d < month_lengths (leap y) ! m" "sum_list (take m (month_lengths (leap y))) + d = yd"
    by (simp_all add: month_lengths_def numeral_eq_Suc)
  have d: "d < 31" using i(1,3) month_lengths_bounds [of m "leap y"] by linarith
  define hh mi se where "hh = s div 3600" and "mi = s div 60 mod 60" and "se = s mod 60"
  have r: "hh * 3600 + mi * 60 + se = s" "0 \<le> hh" "hh < 24" "0 \<le> mi" "mi < 60" "0 \<le> se" "se < 60"
    using clock_fields [of s] by (simp_all add: hh_def mi_def se_def s_def)
  have b: "b = \<lparr>tm_sec = se, tm_min = mi, tm_hour = hh, tm_mday = d + 1,
      tm_mon = int m, tm_year = y - 1900, tm_wday = (z + 4) mod 7, tm_yday = yd\<rparr>"
    unfolding b hh_def mi_def se_def ..
  have "timegm b = (days_before y + sum_list (take m (month_lengths (leap y))) + d) * 86400 + (hh * 3600 + mi * 60 + se)"
    by (simp add: timegm_def b Let_def)
  also have "\<dots> = z * 86400 + s" using i(4) r(1) by (simp add: yd_def)
  also have "\<dots> = t" by (simp add: z_def s_def)
  finally have tg: "timegm b = t" .
  have "tm_ok b" using i(1,2) d r by (simp add: b tm_ok_def)
  with tg show ?thesis by (simp add: b y_def z_def)
qed

lemma days_before_mono: "y \<le> y' \<Longrightarrow> days_before y \<le> days_before y'"
proof (induction rule: int_ge_induct)
  case (step i)
  then show ?case using days_before_step [of i] by (auto split: if_splits)
qed simp

lemma year_of_range:
  assumes "days_before a \<le> z" "z < days_before b"
  shows "a \<le> year_of z \<and> year_of z < b"
proof -
  have "days_before (year_of z) \<le> z" "z < days_before (year_of z + 1)"
    using year_of_bounds by simp_all
  then show ?thesis
    using days_before_mono [of b "year_of z"] days_before_mono [of "year_of z + 1" a] assms by linarith
qed

section \<open>Facts of the formats\<close>

lemma digit_not_space: "d < 10 \<Longrightarrow> \<not> isspace (digit_char d)"
  using digit_char_props(1) [of d] by (auto simp: char_simps)

lemma dec_2: "n < 100 \<Longrightarrow> dec 2 n = [digit_char (n div 10), digit_char (n mod 10)]"
  by (simp add: numeral_2_eq_2)

lemma four_digits:
  fixes n :: nat
  shows "n div 10 div 10 = n div 100" "n div 100 div 10 = n div 1000"
    "((n div 1000 * 10 + n div 100 mod 10) * 10 + n div 10 mod 10) * 10 + n mod 10 = n"
proof -
  show e: "n div 10 div 10 = n div 100" "n div 100 div 10 = n div 1000"
    using div_mult2_eq [of n 10 10] div_mult2_eq [of n 100 10] by simp_all
  show "((n div 1000 * 10 + n div 100 mod 10) * 10 + n div 10 mod 10) * 10 + n mod 10 = n"
    by (simp only: div_mult_mod_eq [of "n div 100" 10, unfolded e] div_mult_mod_eq [of "n div 10" 10, unfolded e]
        div_mult_mod_eq [of n 10])
qed

lemma dec_4:
  "n < 10000 \<Longrightarrow> dec 4 n = [digit_char (n div 1000), digit_char (n div 100 mod 10), digit_char (n div 10 mod 10), digit_char (n mod 10)]"
proof -
  assume "n < 10000"
  then have "n div 1000 < 10" by linarith
  moreover have "4 = Suc (Suc (Suc (Suc 0)))" by simp
  then have "dec 4 n = dec (Suc (Suc (Suc (Suc 0)))) n" by (simp only:)
  ultimately show ?thesis by (simp add: four_digits(1,2))
qed

lemma get_number_dec_2:
  assumes "lo \<le> n" "n \<le> hi" "hi < 100"
  shows "get_number lo hi 2 (dec 2 n @ rest) = Some (n, rest)"
proof -
  have e: "n div 10 * 10 + n mod 10 = n" by (rule div_mult_mod_eq)
  then have d: "n div 10 < 10" "n div 10 * 10 \<le> hi" using assms by linarith+
  show ?thesis
    using assms e d by (simp add: get_number_def dec_2 digit_not_space numeral_2_eq_2)
qed

lemma get_number_dec_4:
  assumes "n < 10000"
  shows "get_number 0 9999 4 (dec 4 n @ rest) = Some (n, rest)"
proof -
  define a b c d where "a = n div 1000" and "b = n div 100 mod 10" and "c = n div 10 mod 10" and "d = n mod 10"
  have r: "a < 10" "b < 10" "c < 10" "d < 10" using assms by (simp_all add: a_def b_def c_def d_def)
  have "((a * 10 + b) * 10 + c) * 10 + d = n" unfolding a_def b_def c_def d_def by (rule four_digits(3))
  moreover have "dec 4 n = [digit_char a, digit_char b, digit_char c, digit_char d]"
    using dec_4 [OF assms] by (simp add: a_def b_def c_def d_def)
  moreover have "more_digits 3 hi v t = more_digits (Suc (Suc (Suc 0))) hi v t" for hi v t
    by (rule arg_cong [of 3 "Suc (Suc (Suc 0))"]) simp
  ultimately show ?thesis
    using r assms by (simp add: get_number_def digit_not_space)
qed

lemma int_to_string_year: "1000 \<le> y \<Longrightarrow> y \<le> 9999 \<Longrightarrow> int_to_string y = dec 4 (nat y)"
proof -
  assume y: "1000 \<le> y" "y \<le> 9999"
  define n where "n = nat y"
  have n: "1000 \<le> n" "n < 10000" using y by (auto simp: n_def)
  have "nat_to_string n = nat_to_string (n div 1000) @ [digit_char (n div 100 mod 10), digit_char (n div 10 mod 10), digit_char (n mod 10)]"
    using n nat_to_string.simps [of n] nat_to_string.simps [of "n div 10"] nat_to_string.simps [of "n div 100"]
      four_digits(1,2) [of n] by (simp add: div_less_iff_less_mult not_less)
  moreover have "nat_to_string (n div 1000) = [digit_char (n div 1000)]"
    using n by (subst nat_to_string.simps) simp
  ultimately show ?thesis using y n by (simp add: int_to_string_def dec_4 flip: n_def)
qed

text \<open>The text of the default format, and what reading it gives.\<close>

definition iso_text :: "tm \<Rightarrow> string" where
  "iso_text b = dec 4 (nat (tm_year b + 1900)) @ ''-'' @ dec 2 (nat (tm_mon b + 1)) @ ''-'' @ dec 2 (nat (tm_mday b))
     @ ''T'' @ dec 2 (nat (tm_hour b)) @ '':'' @ dec 2 (nat (tm_min b)) @ '':'' @ dec 2 (nat (tm_sec b)) @ ''Z''"

lemma default_expanded: "expand_format default_datetime_format = ''%Y-%m-%dT%H:%M:%SZ''"
  by (simp add: default_datetime_format_def)

lemma strftime_default:
  assumes "tm_ok b" "1000 \<le> tm_year b + 1900" "tm_year b + 1900 \<le> 9999"
  shows "strftime default_datetime_format b = iso_text b"
  using assms by (simp add: strftime_def default_expanded conversion_def iso_text_def int_to_string_year)

lemma dec_length: "length (dec w n) = w"
  by (induction w arbitrary: n) simp_all

lemma iso_text_length: "length (iso_text b) = 20"
  by (simp add: iso_text_def dec_length)

lemma strptime_iso:
  assumes "tm_ok b" "1000 \<le> tm_year b + 1900" "tm_year b + 1900 \<le> 9999"
  shows "strptime (iso_text b) default_datetime_format = Some ([], b\<lparr>tm_wday := 0, tm_yday := 0\<rparr>)"
proof -
  have n: "get_number 0 9999 4 (dec 4 (nat (tm_year b + 1900)) @ r) = Some (nat (tm_year b + 1900), r)"
    "get_number (Suc 0) 12 2 (dec 2 (nat (tm_mon b + 1)) @ r) = Some (nat (tm_mon b + 1), r)"
    "get_number (Suc 0) 31 2 (dec 2 (nat (tm_mday b)) @ r) = Some (nat (tm_mday b), r)"
    "get_number 0 23 2 (dec 2 (nat (tm_hour b)) @ r) = Some (nat (tm_hour b), r)"
    "get_number 0 59 2 (dec 2 (nat (tm_min b)) @ r) = Some (nat (tm_min b), r)"
    "get_number 0 61 2 (dec 2 (nat (tm_sec b)) @ r) = Some (nat (tm_sec b), r)" for r
    using assms by (auto simp: tm_ok_def intro!: get_number_dec_4 get_number_dec_2)
  have f: "int (nat (tm_year b + 1900)) - 1900 = tm_year b" "int (nat (tm_mon b + 1)) - 1 = tm_mon b"
    "int (nat (tm_mday b)) = tm_mday b" "int (nat (tm_hour b)) = tm_hour b" "int (nat (tm_min b)) = tm_min b"
    "int (nat (tm_sec b)) = tm_sec b"
    using assms by (simp_all add: tm_ok_def)
  show ?thesis
    unfolding strptime_def default_expanded iso_text_def
    by (simp add: parse_conversion_def n f isspace_def in_range_def clear_tm_def del: int_nat_eq)
qed

section \<open>Formatting and parsing\<close>

text \<open>Adding a half and truncating: the number itself from the epoch on, the next one before it.\<close>

lemma rounded_seconds:
  assumes "- (2 ^ 51) \<le> n" "n < 2 ^ 51"
  shows "to_long (dadd (Fin (of_int n)) (to_double (1 / 2))) = Inr (if 0 \<le> n then n else n + 1)"
proof -
  have e: "of_int n + 1 / 2 = rat_of_int (2 * n + 1) / 2 ^ 1" by simp
  have s: "to_double (of_int n + 1 / 2) = Fin (of_int n + 1 / 2)"
    unfolding e by (rule to_double_dyadic) (use assms in simp_all)
  have f: "\<lfloor>rat_of_int n + 1 / 2\<rfloor> = n" "\<lfloor>- (rat_of_int n + 1 / 2)\<rfloor> = - n - 1"
    by (rule floor_unique; simp)+
  have "0 \<le> rat_of_int n + 1 / 2 \<longleftrightarrow> 0 \<le> n"
  proof
    assume "0 \<le> rat_of_int n + 1 / 2"
    then have "- 1 < rat_of_int n" by simp
    then have "rat_of_int (- 1) < of_int n" by simp
    then show "0 \<le> n" by (simp only: of_int_less_iff)
  qed simp
  then have "trunc (rat_of_int n + 1 / 2) = (if 0 \<le> n then n else n + 1)"
    unfolding trunc_def f by simp
  then show ?thesis
    unfolding half_double dadd.simps s to_long.simps using assms by (simp add: long_min_def long_max_def)
qed

lemma past_limit_eq: "default_past_limit = Fin (- 62125920000)"
  using to_double_of_int [of 31536000] to_double_of_int [of "- 62125920000"]
  by (simp add: default_past_limit_def year_seconds_def day_seconds_def)

lemma datetime_text:
  assumes "to_long (dadd t (to_double (1 / 2))) = Inr k" "\<not> dless t default_past_limit"
    and "- 30610224000 \<le> k" "k < 253402300800"
  shows "\<exists>s. datetime_to_string errmsg t default_datetime_format = Inr s \<and> length s = 20
    \<and> string_to_datetime s default_datetime_format = Inr (Fin (of_int k))"
proof -
  let ?z = "k div 86400"
  have "days_before 1000 = - 354285" "days_before 10000 = 2932897"
    by (simp_all add: days_before_def leaps_def)
  moreover have "- 354285 \<le> ?z" "?z < 2932897"
    using assms(3,4) div_bounds [of 86400 k] by simp_all
  ultimately have y: "1000 \<le> year_of ?z" "year_of ?z < 10000"
    using year_of_range [of 1000 ?z 10000] by simp_all
  then have "gmtime k \<noteq> None" by (simp add: gmtime_def Let_def split: prod.split)
  then obtain b where b: "gmtime k = Some b" by blast
  note g = gmtime_timegm [OF b]
  have o: "tm_ok b" "1000 \<le> tm_year b + 1900" "tm_year b + 1900 \<le> 9999" using g y by simp_all
  let ?s = "iso_text b"
  have "?s \<noteq> []" using iso_text_length [of b] by auto
  then have "datetime_to_string errmsg t default_datetime_format = Inr ?s"
    using assms(1,2) b strftime_default [OF o]
    by (simp add: datetime_to_string_def format_datetime_def utc_tm_def Let_def iso_text_length)
  moreover have "string_to_datetime ?s default_datetime_format = Inr (Fin (of_int k))"
  proof -
    have "timegm (b\<lparr>tm_wday := 0, tm_yday := 0\<rparr>) = timegm b" by (simp add: timegm_def)
    with g have "timegm (b\<lparr>tm_wday := 0, tm_yday := 0\<rparr>) = k" by simp
    then show ?thesis
      using assms(3,4) by (simp add: string_to_datetime_def parse_datetime_def strptime_iso [OF o])
  qed
  ultimately show ?thesis using iso_text_length [of b] by blast
qed

text \<open>A time before the epoch that is a whole number of seconds comes back one second later.\<close>

lemma datetime_before_epoch:
  assumes "- 30610224000 \<le> n" "n < 0"
  shows "\<exists>s. datetime_to_string errmsg (Fin (of_int n)) default_datetime_format = Inr s
    \<and> string_to_datetime s default_datetime_format = Inr (Fin (of_int (n + 1)))"
proof -
  have "to_long (dadd (Fin (of_int n)) (to_double (1 / 2))) = Inr (n + 1)"
    using rounded_seconds [of n] assms by simp
  moreover have "\<not> dless (Fin (of_int n)) default_past_limit"
    using assms by (simp add: past_limit_eq of_int_less_iff [where 'a = rat, of n "- 62125920000", simplified])
  ultimately show ?thesis using datetime_text [of "Fin (of_int n)" "n + 1" errmsg] assms by auto
qed

section \<open>Properties\<close>

text \<open>C24: Dates and times. Every whole number of seconds from January 1, 1970 to the end of the year 9999
  is formatted by \<^verbatim>\<open>format_datetime\<close> with the default format as a text of 20 characters, with the
  calendar of the C library, and \<^verbatim>\<open>parse_datetime\<close> reads exactly that number back.\<close>

theorem datetime_roundtrip:
  assumes "0 \<le> n" "n < 253402300800"
  shows "\<exists>s. datetime_to_string errmsg (Fin (of_int n)) default_datetime_format = Inr s \<and> length s = 20
    \<and> string_to_datetime s default_datetime_format = Inr (Fin (of_int n))"
proof (rule datetime_text)
  show "to_long (dadd (Fin (of_int n)) (to_double (1 / 2))) = Inr n"
    using rounded_seconds [of n] assms by simp
  have "- 62125920000 \<le> rat_of_int n" using assms(1) by (metis of_int_0_le_iff order_trans neg_le_0_iff_le zero_le_numeral)
  then show "\<not> dless (Fin (of_int n)) default_past_limit" by (simp add: past_limit_eq)
qed (use assms in simp_all)

lemma datetime_roundtrip_witness:
  "\<exists>s. datetime_to_string [] (Fin 951782400) default_datetime_format = Inr s \<and> length s = 20
     \<and> string_to_datetime s default_datetime_format = Inr (Fin 951782400)"
  using datetime_roundtrip [of 951782400 "[]"] by simp

end
