(* ===== verification/Utf8.thy ===== *)
theory Utf8
  imports Util
begin

text \<open>
  The UTF-8 functions of \<^verbatim>\<open>src/util.cpp\<close>. A wide string is the list of its code points;
  \<^verbatim>\<open>std::wstring_convert\<close> decodes and encodes UTF-8 and throws \<^verbatim>\<open>std::range_error\<close> for what is not
  valid. The classification and the case mapping of the locale \<^verbatim>\<open>en_US.UTF-8\<close> are parameters.
\<close>

section \<open>Code points and bytes\<close>

definition surrogate :: "nat \<Rightarrow> bool" where
  "surrogate w \<longleftrightarrow> 0xD800 \<le> w \<and> w \<le> 0xDFFF"

definition scalar :: "nat \<Rightarrow> bool" where
  "scalar w \<longleftrightarrow> w \<le> 0x10FFFF \<and> \<not> surrogate w"

definition cont_byte :: "nat \<Rightarrow> char" where
  "cont_byte x = char_of (128 + x mod 64)"

definition encode_char :: "nat \<Rightarrow> string" where
  "encode_char w =
     (if w < 0x80 then [char_of w]
      else if w < 0x800 then [char_of (192 + w div 64), cont_byte w]
      else if w < 0x10000 then [char_of (224 + w div 4096), cont_byte (w div 64), cont_byte w]
      else [char_of (240 + w div 262144), cont_byte (w div 4096), cont_byte (w div 64), cont_byte w])"

definition is_cont :: "char \<Rightarrow> bool" where
  "is_cont c \<longleftrightarrow> 128 \<le> (of_char c :: nat) \<and> of_char c < (192 :: nat)"

definition cont_val :: "char \<Rightarrow> nat" where
  "cont_val c = of_char c - 128"

text \<open>The first code point of a string: overlong forms, surrogates and numbers that are too large
  are not valid.\<close>

definition decode_char :: "string \<Rightarrow> (nat \<times> string) option" where
  "decode_char s =
     (case s of
        [] \<Rightarrow> None
      | a # r \<Rightarrow>
          let x = of_char a in
          if x < 0x80 then Some (x, r)
          else if x < 0xC0 then None
          else if x < 0xE0 then
            (case r of
               b # r' \<Rightarrow>
                 let w = (x - 192) * 64 + cont_val b
                 in if is_cont b \<and> 0x80 \<le> w then Some (w, r') else None
             | _ \<Rightarrow> None)
          else if x < 0xF0 then
            (case r of
               b # c # r' \<Rightarrow>
                 let w = ((x - 224) * 64 + cont_val b) * 64 + cont_val c
                 in if is_cont b \<and> is_cont c \<and> 0x800 \<le> w \<and> \<not> surrogate w then Some (w, r') else None
             | _ \<Rightarrow> None)
          else
            (case r of
               b # c # d # r' \<Rightarrow>
                 let w = (((x - 240) * 64 + cont_val b) * 64 + cont_val c) * 64 + cont_val d
                 in if is_cont b \<and> is_cont c \<and> is_cont d \<and> 0x10000 \<le> w \<and> w \<le> 0x10FFFF then Some (w, r') else None
             | _ \<Rightarrow> None))"

lemma decode_char_less: "decode_char s = Some (w, r) \<Longrightarrow> length r < length s"
  by (auto simp: decode_char_def Let_def split: list.splits if_splits)

function utf8_decode :: "string \<Rightarrow> nat list option" where
  "utf8_decode s =
     (if s = [] then Some []
      else (case decode_char s of
              None \<Rightarrow> None
            | Some (w, r) \<Rightarrow> map_option (Cons w) (utf8_decode r)))"
  by pat_completeness auto
termination
  by (relation "measure length") (use decode_char_less in auto)

declare utf8_decode.simps [simp del]

definition utf8_encode :: "nat list \<Rightarrow> string" where
  "utf8_encode ws = concat (map encode_char ws)"

section \<open>The functions of the library\<close>

definition to_wstring :: "string \<Rightarrow> nat list result" where
  "to_wstring s =
     (case utf8_decode s of
        None \<Rightarrow> Inl (Runtime_error ''wstring_convert::from_bytes'')
      | Some ws \<Rightarrow> Inr ws)"

definition of_wstring :: "nat list \<Rightarrow> string result" where
  "of_wstring ws =
     (if list_all scalar ws then Inr (utf8_encode ws)
      else Inl (Runtime_error ''wstring_convert::to_bytes''))"

record wide_locale =
  w_tolower :: "nat \<Rightarrow> nat"
  w_toupper :: "nat \<Rightarrow> nat"
  w_isalnum :: "nat \<Rightarrow> bool"

definition utf8_tolower :: "wide_locale \<Rightarrow> string \<Rightarrow> string result" where
  "utf8_tolower loc s = rbind (to_wstring s) (\<lambda>ws. of_wstring (map (w_tolower loc) ws))"

definition utf8_toupper :: "wide_locale \<Rightarrow> string \<Rightarrow> string result" where
  "utf8_toupper loc s = rbind (to_wstring s) (\<lambda>ws. of_wstring (map (w_toupper loc) ws))"

text \<open>A wide character is equal to its conversion to \<^verbatim>\<open>char\<close> if it is below 128.\<close>

definition keep_wide :: "wide_locale \<Rightarrow> string \<Rightarrow> nat \<Rightarrow> bool" where
  "keep_wide loc extra c \<longleftrightarrow> w_isalnum loc c \<or> (c < 128 \<and> str_find extra (char_of c) \<noteq> None)"

definition utf8_canonical :: "wide_locale \<Rightarrow> string \<Rightarrow> string \<Rightarrow> int \<Rightarrow> string result" where
  "utf8_canonical loc s extra convert =
     rbind (c_assert (- 1 \<le> convert \<and> convert \<le> 1) ''-1 <= convert && convert <= 1'') (\<lambda>_.
     rbind (to_wstring s) (\<lambda>ws.
     of_wstring
       (map (\<lambda>c. if 1 = convert then w_toupper loc c else if - 1 = convert then w_tolower loc c else c)
         (filter (keep_wide loc extra) ws))))"

section \<open>Facts\<close>

lemma of_char_of [simp]: "x < 256 \<Longrightarrow> of_char (char_of x :: char) = (x :: nat)"
  by simp

lemma cont_byte_props [simp]: "is_cont (cont_byte x)" "cont_val (cont_byte x) = x mod 64"
proof -
  have "x mod 64 < 64" by simp
  then have "128 + x mod 64 < 192" "128 + x mod 64 < 256" by linarith+
  then show "is_cont (cont_byte x)" "cont_val (cont_byte x) = x mod 64"
    by (simp_all add: cont_byte_def is_cont_def cont_val_def)
qed

lemma base64:
  fixes w :: nat
  shows "w div 64 * 64 + w mod 64 = w" "w div 4096 * 64 + w div 64 mod 64 = w div 64"
    "w div 262144 * 64 + w div 4096 mod 64 = w div 4096"
proof -
  have e: "w div 64 div 64 = w div 4096" "w div 4096 div 64 = w div 262144"
    using div_mult2_eq [of w 64 64] div_mult2_eq [of w 4096 64] by simp_all
  show "w div 64 * 64 + w mod 64 = w" by (rule div_mult_mod_eq)
  show "w div 4096 * 64 + w div 64 mod 64 = w div 64"
    using div_mult_mod_eq [of "w div 64" 64] unfolding e .
  show "w div 262144 * 64 + w div 4096 mod 64 = w div 4096"
    using div_mult_mod_eq [of "w div 4096" 64] unfolding e .
qed

lemma decode_encode_char:
  assumes "scalar w"
  shows "decode_char (encode_char w @ r) = Some (w, r)"
proof -
  consider "w < 0x80" | "0x80 \<le> w" "w < 0x800" | "0x800 \<le> w" "w < 0x10000" | "0x10000 \<le> w" by linarith
  then show ?thesis
  proof cases
    case 1
    then show ?thesis by (simp add: encode_char_def decode_char_def)
  next
    case 2
    then have "w div 64 < 32" by linarith
    then have "of_char (char_of (192 + w div 64) :: char) = 192 + w div 64" by (intro of_char_of) linarith
    with 2 \<open>w div 64 < 32\<close> show ?thesis
      by (simp add: encode_char_def decode_char_def base64 Let_def)
  next
    case 3
    then have "w div 4096 < 16" by linarith
    then have "of_char (char_of (224 + w div 4096) :: char) = 224 + w div 4096" by (intro of_char_of) linarith
    with 3 \<open>w div 4096 < 16\<close> assms show ?thesis
      by (simp add: encode_char_def decode_char_def base64 Let_def scalar_def)
  next
    case 4
    then have "w div 262144 < 16" using assms unfolding scalar_def by linarith
    then have "of_char (char_of (240 + w div 262144) :: char) = 240 + w div 262144" by (intro of_char_of) linarith
    moreover have "4096 * (w div 4096) + w div 64 mod 64 * 64 + w mod 64 = w" using base64 [of w] by linarith
    ultimately show ?thesis using 4 \<open>w div 262144 < 16\<close> assms
      by (simp add: encode_char_def decode_char_def base64 Let_def scalar_def)
  qed
qed

lemma encode_char_nonempty: "encode_char w \<noteq> []"
  by (simp add: encode_char_def)

lemma utf8_decode_encode: "list_all scalar ws \<Longrightarrow> utf8_decode (utf8_encode ws) = Some ws"
proof (induction ws)
  case Nil
  then show ?case by (subst utf8_decode.simps) (simp add: utf8_encode_def)
next
  case (Cons w ws)
  then show ?case
    using encode_char_nonempty [of w] by (subst utf8_decode.simps) (simp add: utf8_encode_def decode_encode_char)
qed

lemma decode_char_scalar: "decode_char s = Some (w, r) \<Longrightarrow> scalar w"
proof -
  have x: "(of_char a :: nat) < 256" for a :: char by simp
  have c: "is_cont b \<Longrightarrow> cont_val b < 64" for b by (auto simp: is_cont_def cont_val_def)
  assume "decode_char s = Some (w, r)"
  then show ?thesis
  proof (cases s)
    case (Cons a t)
    with \<open>decode_char s = Some (w, r)\<close> show ?thesis
      using x [of a] by (auto simp: decode_char_def Let_def scalar_def surrogate_def split: list.splits if_splits dest!: c)
  qed (simp add: decode_char_def)
qed

text \<open>Text in ASCII is its own encoding.\<close>

lemma ascii_encode: "list_all (\<lambda>c. of_char c < (128 :: nat)) s \<Longrightarrow> utf8_encode (map of_char s) = s"
  by (induction s) (auto simp: utf8_encode_def encode_char_def)

lemma ascii_scalar: "list_all (\<lambda>c. of_char c < (128 :: nat)) s \<Longrightarrow> list_all scalar (map of_char s)"
  by (induction s) (auto simp: scalar_def surrogate_def)

lemma to_wstring_ascii: "list_all (\<lambda>c. of_char c < (128 :: nat)) s \<Longrightarrow> to_wstring s = Inr (map of_char s)"
  using utf8_decode_encode [OF ascii_scalar, of s] by (simp add: to_wstring_def ascii_encode)

text \<open>A string that is valid is the encoding of its code points, so it has only one.\<close>

lemma cont_byte_val: "is_cont b \<Longrightarrow> cont_byte (k * 64 + cont_val b) = b"
proof -
  assume b: "is_cont b"
  then have v: "cont_val b < 64" "128 + cont_val b = of_char b" by (auto simp: is_cont_def cont_val_def)
  then have "(k * 64 + cont_val b) mod 64 = cont_val b" by simp
  then show ?thesis using v by (simp add: cont_byte_def)
qed

lemma cont_val_less: "is_cont b \<Longrightarrow> cont_val b < 64"
  by (auto simp: is_cont_def cont_val_def)

lemma div64: "v < 64 \<Longrightarrow> (k * 64 + v) div 64 = (k :: nat)"
  by simp

lemma decode_char_encode:
  assumes "decode_char s = Some (w, r)"
  shows "s = encode_char w @ r"
proof -
  obtain a t where s: "s = a # t" using assms by (cases s) (auto simp: decode_char_def)
  define x where "x = (of_char a :: nat)"
  have a: "a = char_of x" and x: "x < 256" by (simp_all add: x_def)
  consider "x < 0x80" | "0x80 \<le> x" "x < 0xC0" | "0xC0 \<le> x" "x < 0xE0" | "0xE0 \<le> x" "x < 0xF0" | "0xF0 \<le> x"
    by linarith
  then show ?thesis
  proof cases
    case 1
    then show ?thesis using assms by (auto simp: s decode_char_def encode_char_def a simp flip: x_def)
  next
    case 2
    then show ?thesis using assms by (simp add: s decode_char_def flip: x_def)
  next
    case 3
    then obtain b where b: "t = b # r" "is_cont b" "w = (x - 192) * 64 + cont_val b" "0x80 \<le> w"
      using assms by (auto simp: s decode_char_def Let_def simp flip: x_def split: list.splits if_splits)
    have "w div 64 = x - 192" unfolding b(3) by (rule div64 [OF cont_val_less [OF b(2)]])
    moreover have "w < 0x800" using b(3) cont_val_less [OF b(2)] 3 by linarith
    ultimately show ?thesis
      using 3 b cont_byte_val [OF b(2), of "x - 192"] by (simp add: s a encode_char_def)
  next
    case 4
    then obtain b c where b: "t = b # c # r" "is_cont b" "is_cont c"
      "w = ((x - 224) * 64 + cont_val b) * 64 + cont_val c" "0x800 \<le> w"
      using assms by (auto simp: s decode_char_def Let_def simp flip: x_def split: list.splits if_splits)
    have d: "w div 64 = (x - 224) * 64 + cont_val b" unfolding b(4) by (rule div64 [OF cont_val_less [OF b(3)]])
    have "w div 4096 = w div 64 div 64" using div_mult2_eq [of w 64 64] by simp
    also have "\<dots> = x - 224" unfolding d by (rule div64 [OF cont_val_less [OF b(2)]])
    finally have "w div 4096 = x - 224" .
    moreover have "w div 64 < 1024" using cont_val_less [OF b(2)] 4 unfolding d by linarith
    then have "w < 0x10000" by linarith
    moreover have "cont_byte w = c" unfolding b(4) by (rule cont_byte_val [OF b(3)])
    moreover have "cont_byte (w div 64) = b" unfolding d by (rule cont_byte_val [OF b(2)])
    ultimately show ?thesis using 4 b(1,5) by (simp add: s a encode_char_def)
  next
    case 5
    then obtain b c e where b: "t = b # c # e # r" "is_cont b" "is_cont c" "is_cont e"
      "w = (((x - 240) * 64 + cont_val b) * 64 + cont_val c) * 64 + cont_val e" "0x10000 \<le> w"
      using assms by (auto simp: s decode_char_def Let_def simp flip: x_def split: list.splits if_splits)
    have d: "w div 64 = ((x - 240) * 64 + cont_val b) * 64 + cont_val c"
      unfolding b(5) by (rule div64 [OF cont_val_less [OF b(4)]])
    have "w div 4096 = w div 64 div 64" using div_mult2_eq [of w 64 64] by simp
    also have "\<dots> = (x - 240) * 64 + cont_val b" unfolding d by (rule div64 [OF cont_val_less [OF b(3)]])
    finally have f: "w div 4096 = (x - 240) * 64 + cont_val b" .
    have "w div 262144 = w div 4096 div 64" using div_mult2_eq [of w 4096 64] by simp
    also have "\<dots> = x - 240" unfolding f by (rule div64 [OF cont_val_less [OF b(2)]])
    finally have "w div 262144 = x - 240" .
    moreover have "cont_byte w = e" unfolding b(5) by (rule cont_byte_val [OF b(4)])
    moreover have "cont_byte (w div 64) = c" unfolding d by (rule cont_byte_val [OF b(3)])
    moreover have "cont_byte (w div 4096) = b" unfolding f by (rule cont_byte_val [OF b(2)])
    ultimately show ?thesis using 5 b(1,6) by (simp add: s a encode_char_def)
  qed
qed

lemma utf8_encode_decode: "utf8_decode s = Some ws \<Longrightarrow> utf8_encode ws = s \<and> list_all scalar ws"
proof (induction "length s" arbitrary: s ws rule: less_induct)
  case less
  show ?case
  proof (cases "s = []")
    case True
    with less.prems show ?thesis by (simp add: utf8_decode.simps utf8_encode_def)
  next
    case False
    with less.prems obtain w r vs where d: "decode_char s = Some (w, r)" "utf8_decode r = Some vs" "ws = w # vs"
      by (subst (asm) utf8_decode.simps) (auto split: option.splits)
    then show ?thesis
      using less.hyps [OF decode_char_less [OF d(1)] d(2)] decode_char_encode [OF d(1)] decode_char_scalar [OF d(1)]
      by (simp add: utf8_encode_def)
  qed
qed

lemma to_wstring_Inr: "to_wstring s = Inr ws \<Longrightarrow> utf8_encode ws = s \<and> list_all scalar ws"
  using utf8_encode_decode by (auto simp: to_wstring_def split: option.splits)

section \<open>Properties\<close>


definition ascii_locale :: wide_locale where
  "ascii_locale = \<lparr>w_tolower = (\<lambda>w. w), w_toupper = (\<lambda>w. if 97 \<le> w \<and> w \<le> 122 then w - 32 else w),
     w_isalnum = (\<lambda>w. (48 \<le> w \<and> w \<le> 57) \<or> (65 \<le> w \<and> w \<le> 90) \<or> (97 \<le> w \<and> w \<le> 122) \<or> w = 0xE9)\<rparr>"


end
