(* ===== verification/Containers.thy ===== *)
theory Containers
  imports Base
begin

text \<open>
  The containers and sequence algorithms of \<^verbatim>\<open>nanonet/container-util.h\<close>: the vectors with
  checked access, \<^verbatim>\<open>safe_advance\<close> and \<^verbatim>\<open>distance_at_least\<close> for both iterator categories,
  \<^verbatim>\<open>check_strictly_ascending\<close>, \<^verbatim>\<open>erase_if\<close>, \<^verbatim>\<open>flatten\<close> and \<^verbatim>\<open>write_sequence\<close>.
  A range of a forward iterator is the list of its elements; an iterator into a random access
  sequence is its index.
\<close>

section \<open>Vectors\<close>

record 'a rvector =
  rv_elems :: "'a list"

definition rv_check_index :: "'a rvector \<Rightarrow> nat \<Rightarrow> unit result" where
  "rv_check_index v i = c_assert (i < length (rv_elems v)) ''i < v.size()''"

definition rv_get :: "'a rvector \<Rightarrow> nat \<Rightarrow> 'a result" where
  "rv_get v i = rbind (rv_check_index v i) (\<lambda>_. Inr (rv_elems v ! i))"

definition rv_set :: "nat \<Rightarrow> 'a \<Rightarrow> ('a rvector, unit) sx" where
  "rv_set i x v =
     (case rv_check_index v i of
        Inl e \<Rightarrow> (Inl e, v)
      | Inr _ \<Rightarrow> (Inr (), v\<lparr>rv_elems := (rv_elems v)[i := x]\<rparr>))"

text \<open>\<^verbatim>\<open>at\<close> throws \<^verbatim>\<open>std::out_of_range\<close>, a \<^verbatim>\<open>std::logic_error\<close>.\<close>

definition rv_at :: "'a rvector \<Rightarrow> nat \<Rightarrow> 'a result" where
  "rv_at v i = (if i < length (rv_elems v) then Inr (rv_elems v ! i) else Inl (Logic_error ''out of range''))"

text \<open>The array of a \<^verbatim>\<open>capped_vector\<close> has \<open>max_size\<close> elements from the start; \<open>cv_size\<close> says how
  many are in use.\<close>

record 'a capped_vector =
  cv_size :: nat
  cv_array :: "'a list"

definition cv_new :: "'a list \<Rightarrow> 'a capped_vector" where
  "cv_new initial = \<lparr>cv_size = 0, cv_array = initial\<rparr>"

definition cv_capacity :: "'a capped_vector \<Rightarrow> nat" where
  "cv_capacity v = length (cv_array v)"

definition cv_full :: "'a capped_vector \<Rightarrow> bool" where
  "cv_full v \<longleftrightarrow> cv_size v \<ge> cv_capacity v"

definition cv_empty :: "'a capped_vector \<Rightarrow> bool" where
  "cv_empty v \<longleftrightarrow> 0 = cv_size v"

definition cv_check_index :: "'a capped_vector \<Rightarrow> nat \<Rightarrow> unit result" where
  "cv_check_index v i = c_assert (i < cv_size v) ''i < size()''"

definition cv_get :: "'a capped_vector \<Rightarrow> nat \<Rightarrow> 'a result" where
  "cv_get v i = rbind (cv_check_index v i) (\<lambda>_. Inr (cv_array v ! i))"

definition cv_at :: "'a capped_vector \<Rightarrow> nat \<Rightarrow> 'a result" where
  "cv_at v i = (if i < length (cv_array v) then Inr (cv_array v ! i) else Inl (Logic_error ''out of range''))"

definition cv_front :: "'a capped_vector \<Rightarrow> 'a result" where
  "cv_front v = rbind (cv_check_index v 0) (\<lambda>_. Inr (cv_array v ! 0))"

definition cv_push_back :: "'a \<Rightarrow> ('a capped_vector, unit) sx" where
  "cv_push_back t v =
     (case c_assert (\<not> cv_full v) ''!full()'' of
        Inl e \<Rightarrow> (Inl e, v)
      | Inr _ \<Rightarrow> (Inr (), v\<lparr>cv_array := (cv_array v)[cv_size v := t], cv_size := cv_size v + 1\<rparr>))"

definition cv_pop_back :: "('a capped_vector, unit) sx" where
  "cv_pop_back v =
     (case c_assert (\<not> cv_empty v) ''!empty()'' of
        Inl e \<Rightarrow> (Inl e, v)
      | Inr _ \<Rightarrow> (Inr (), v\<lparr>cv_size := cv_size v - 1\<rparr>))"

text \<open>The range from \<^verbatim>\<open>begin()\<close> to \<^verbatim>\<open>end()\<close>, which are those of the array.\<close>

definition cv_range :: "'a capped_vector \<Rightarrow> 'a list" where
  "cv_range v = cv_array v"

section \<open>Sequences\<close>

definition contains :: "('k \<rightharpoonup> 'v) \<Rightarrow> 'k \<Rightarrow> bool" where
  "contains c key \<longleftrightarrow> c key \<noteq> None"

definition append_to :: "'a list \<Rightarrow> 'a list \<Rightarrow> 'a list" where
  "append_to c1 c2 = c1 @ c2"

definition flatten :: "'a list list \<Rightarrow> 'a list" where
  "flatten c = foldl append_to [] c"

definition distance_at_least_ra :: "nat \<Rightarrow> nat \<Rightarrow> int \<Rightarrow> bool" where
  "distance_at_least_ra i1 i2 dist \<longleftrightarrow> int i2 - int i1 \<ge> dist"

fun distance_loop :: "int \<Rightarrow> 'a list \<Rightarrow> int \<Rightarrow> bool" where
  "distance_loop d [] dist = False"
| "distance_loop d (x # xs) dist = (if d + 1 \<ge> dist then True else distance_loop (d + 1) xs dist)"

definition distance_at_least_in :: "'a list \<Rightarrow> int \<Rightarrow> bool" where
  "distance_at_least_in rng dist = distance_loop 0 rng dist"

definition safe_advance_ra :: "nat \<Rightarrow> nat \<Rightarrow> nat \<Rightarrow> nat result" where
  "safe_advance_ra i end_i d =
     rbind (c_assert (d \<ge> 1) ''d >= 1'') (\<lambda>_.
     rbind (c_assert (int end_i - int i \<ge> 0) ''std::distance( i , end ) >= 0'') (\<lambda>_.
     Inr (if end_i - i > d then i + d else end_i)))"

fun advance_loop :: "nat \<Rightarrow> 'a list \<Rightarrow> 'a list" where
  "advance_loop 0 rng = rng"
| "advance_loop (Suc d) [] = []"
| "advance_loop (Suc d) (x # xs) = advance_loop d xs"

definition safe_advance_fwd :: "'a list \<Rightarrow> nat \<Rightarrow> 'a list result" where
  "safe_advance_fwd rng d = rbind (c_assert (d \<ge> 1) ''d >= 1'') (\<lambda>_. Inr (advance_loop d rng))"

text \<open>The loop of \<^verbatim>\<open>check_strictly_ascending\<close> over the rest of the range; \<open>d\<close> is at least 1 there.\<close>

lemma advance_loop_drop: "advance_loop d xs = drop d xs"
  by (induction d xs rule: advance_loop.induct) simp_all

function ascending_loop :: "('a :: linorder) list \<Rightarrow> nat \<Rightarrow> unit result" where
  "ascending_loop rng d =
     (if d = 0 then Inl (Abort ''d >= 1'')
      else case advance_loop d rng of
             [] \<Rightarrow> Inr ()
           | y # ys \<Rightarrow>
               if hd rng \<ge> y then Inl (Runtime_error ''sequence not strictly ascending'')
               else ascending_loop (y # ys) d)"
  by pat_completeness auto
termination
  by (relation "measure (\<lambda>(r, d). length r)")
    (auto simp: advance_loop_drop dest: arg_cong [where f = length])

declare ascending_loop.simps [simp del]

definition check_strictly_ascending :: "('a :: linorder) list \<Rightarrow> nat \<Rightarrow> unit result" where
  "check_strictly_ascending rng d = (if rng = [] then Inr () else ascending_loop rng d)"

definition next_is_end :: "'a list \<Rightarrow> bool" where
  "next_is_end rng = (case rng of [] \<Rightarrow> False | x # xs \<Rightarrow> xs = [])"

fun all_equal :: "'a list \<Rightarrow> 'a \<Rightarrow> bool" where
  "all_equal [] t = True"
| "all_equal (x # xs) t = (if x = t then all_equal xs t else False)"

fun erase_if :: "'a list \<Rightarrow> ('a \<Rightarrow> bool) \<Rightarrow> 'a list" where
  "erase_if [] predicate = []"
| "erase_if (x # xs) predicate = (if predicate x then erase_if xs predicate else x # erase_if xs predicate)"

text \<open>\<^verbatim>\<open>write_sequence\<close>: what is written, for elements given by their printed text.\<close>

fun write_elements :: "string list \<Rightarrow> string \<Rightarrow> string" where
  "write_elements [] separator = []"
| "write_elements (x # xs) separator =
     x @ (if xs \<noteq> [] then separator else []) @ write_elements xs separator"

definition write_sequence :: "string list \<Rightarrow> char \<Rightarrow> string \<Rightarrow> string" where
  "write_sequence elems open_c separator =
     (if open_c \<noteq> CHR 0x00 then [open_c] else []) @ write_elements elems separator
     @ (if CHR ''{'' = open_c then ''}''
        else if CHR ''['' = open_c then '']''
        else if CHR ''('' = open_c then '')''
        else if CHR ''<'' = open_c then ''>'' else [])"

section \<open>Facts\<close>

text \<open>The abstract value of a capped vector: the elements in use.\<close>

definition cv_list :: "'a capped_vector \<Rightarrow> 'a list" where
  "cv_list v = take (cv_size v) (cv_array v)"

definition cv_inv :: "'a capped_vector \<Rightarrow> bool" where
  "cv_inv v \<longleftrightarrow> cv_size v \<le> cv_capacity v"

locale bounded_stack =
  fixes push :: "'a \<Rightarrow> ('s, unit) sx"
    and pop :: "('s, unit) sx"
    and elems :: "'s \<Rightarrow> 'a list"
    and cap :: "'s \<Rightarrow> nat"
    and inv :: "'s \<Rightarrow> bool"
  assumes push_ok: "inv s \<Longrightarrow> length (elems s) < cap s \<Longrightarrow>
      \<exists>s'. push x s = (Inr (), s') \<and> elems s' = elems s @ [x] \<and> cap s' = cap s \<and> inv s'"
    and push_full: "inv s \<Longrightarrow> length (elems s) \<ge> cap s \<Longrightarrow> \<exists>m. push x s = (Inl (Abort m), s)"
    and pop_ok: "inv s \<Longrightarrow> elems s \<noteq> [] \<Longrightarrow>
      \<exists>s'. pop s = (Inr (), s') \<and> elems s' = butlast (elems s) \<and> cap s' = cap s \<and> inv s'"
    and pop_empty: "inv s \<Longrightarrow> elems s = [] \<Longrightarrow> \<exists>m. pop s = (Inl (Abort m), s)"
    and bound: "inv s \<Longrightarrow> length (elems s) \<le> cap s"
begin

lemma push_pop:
  assumes "inv s" "push x s = (Inr (), s1)"
  shows "\<exists>s2. pop s1 = (Inr (), s2) \<and> elems s2 = elems s"
proof -
  from assms have "length (elems s) < cap s" using push_full [of s x] by fastforce
  with push_ok [OF assms(1), of x] assms(2) have s1: "elems s1 = elems s @ [x]" "inv s1" by auto
  with pop_ok [OF s1(2)] show ?thesis by auto
qed

fun push_all :: "'a list \<Rightarrow> 's \<Rightarrow> unit result \<times> 's" where
  "push_all [] s = (Inr (), s)"
| "push_all (x # xs) s = (case push x s of (Inl e, s') \<Rightarrow> (Inl e, s') | (Inr _, s') \<Rightarrow> push_all xs s')"

lemma push_all_ok:
  "inv s \<Longrightarrow> length (elems s) + length xs \<le> cap s \<Longrightarrow>
     \<exists>s'. push_all xs s = (Inr (), s') \<and> elems s' = elems s @ xs \<and> cap s' = cap s \<and> inv s'"
proof (induction xs arbitrary: s)
  case (Cons x xs)
  from Cons.prems have "length (elems s) < cap s" by simp
  then obtain s1 where s1: "push x s = (Inr (), s1)" "elems s1 = elems s @ [x]" "cap s1 = cap s" "inv s1"
    using push_ok [OF Cons.prems(1)] by blast
  with Cons.IH [of s1] Cons.prems show ?case by auto
qed simp

end

lemma cv_list_length: "cv_inv v \<Longrightarrow> length (cv_list v) = cv_size v"
  by (simp add: cv_list_def cv_inv_def cv_capacity_def)

interpretation capped: bounded_stack cv_push_back cv_pop_back cv_list cv_capacity cv_inv
proof
  fix s :: "'a capped_vector" and x
  assume i: "cv_inv s"
  note d = cv_inv_def cv_capacity_def cv_list_def cv_full_def cv_empty_def
  show "length (cv_list s) \<le> cv_capacity s"
    using i by (simp add: d)
  show "\<exists>s'. cv_push_back x s = (Inr (), s') \<and> cv_list s' = cv_list s @ [x]
      \<and> cv_capacity s' = cv_capacity s \<and> cv_inv s'" if "length (cv_list s) < cv_capacity s"
    using that i by (auto simp: cv_push_back_def d take_Suc_conv_app_nth take_update_cancel)
  show "\<exists>m. cv_push_back x s = (Inl (Abort m), s)" if "length (cv_list s) \<ge> cv_capacity s"
    using that i by (auto simp: cv_push_back_def c_assert_def d)
  show "\<exists>s'. cv_pop_back s = (Inr (), s') \<and> cv_list s' = butlast (cv_list s)
      \<and> cv_capacity s' = cv_capacity s \<and> cv_inv s'" if "cv_list s \<noteq> []"
    using that i by (auto simp: cv_pop_back_def d butlast_take)
  show "\<exists>m. cv_pop_back s = (Inl (Abort m), s)" if "cv_list s = []"
    using that i by (auto simp: cv_pop_back_def c_assert_def d)
qed

lemma distance_loop_eq: "distance_loop d xs dist \<longleftrightarrow> xs \<noteq> [] \<and> (d + int (length xs) \<ge> dist)"
proof (induction d xs dist rule: distance_loop.induct)
  case (2 d x xs dist)
  then show ?case by (cases xs) auto
qed simp

text \<open>The elements that \<^verbatim>\<open>check_strictly_ascending\<close> looks at.\<close>

function strided :: "nat \<Rightarrow> 'a list \<Rightarrow> 'a list" where
  "strided d xs = (if xs = [] then [] else hd xs # (if d = 0 then [] else strided d (drop d xs)))"
  by pat_completeness auto
termination
  by (relation "measure (\<lambda>(d, xs). length xs)") auto

declare strided.simps [simp del]

fun strictly_ascending :: "('a :: linorder) list \<Rightarrow> bool" where
  "strictly_ascending (x # y # ys) = (x < y \<and> strictly_ascending (y # ys))"
| "strictly_ascending _ = True"

lemma strictly_ascending_sorted: "strictly_ascending xs \<longleftrightarrow> sorted_wrt (<) xs"
proof (induction xs rule: strictly_ascending.induct)
  case (1 x y ys)
  then show ?case by (auto intro: less_trans)
qed simp_all

lemma ascending_loop_eq:
  "d \<ge> 1 \<Longrightarrow> xs \<noteq> [] \<Longrightarrow> ascending_loop xs d =
     (if strictly_ascending (strided d xs) then Inr () else Inl (Runtime_error ''sequence not strictly ascending''))"
proof (induction "length xs" arbitrary: xs rule: less_induct)
  case less
  show ?case
  proof (cases "drop d xs")
    case Nil
    then have "strided d (drop d xs) = []" by (simp add: strided.simps)
    with Nil less.prems show ?thesis
      by (simp add: ascending_loop.simps [of xs] advance_loop_drop strided.simps [of d xs])
  next
    case (Cons y ys)
    have "length (drop d xs) < length xs" using less.prems by (auto intro!: diff_less)
    then have l: "length (y # ys) < length xs" unfolding Cons .
    have "strided d (y # ys) = y # (strided d (drop d (y # ys)))"
      using less.prems by (simp add: strided.simps [of d "y # ys"])
    moreover have "strided d xs = hd xs # strided d (y # ys)"
      using less.prems Cons by (simp add: strided.simps [of d xs])
    ultimately show ?thesis
      using less.hyps [OF l less.prems(1)] Cons less.prems
      by (auto simp: ascending_loop.simps [of xs] advance_loop_drop not_le)
  qed
qed

lemma write_elements_Cons: "write_elements (x # xs) sep = x @ concat (map (\<lambda>y. sep @ y) xs)"
proof (induction xs arbitrary: x)
  case (Cons y ys)
  from Cons.IH [of y] show ?case by simp
qed simp

section \<open>Properties\<close>

text \<open>A \<open>capped_vector\<close> behaves like a stack of at most \<open>max_size\<close> elements. From the empty
  vector, pushing up to \<open>max_size\<close> elements succeeds and keeps them in order, each is found at its
  index, \<open>pop_back\<close> undoes \<open>push_back\<close>, pushing onto a full and popping an empty vector are
  assertion failures; but iteration from \<open>begin\<close> to \<open>end\<close> always covers the whole array, not the
  elements in use.\<close>

theorem capped_vector_is_bounded_stack:
  assumes "length xs \<le> length initial"
  shows "\<exists>v. capped.push_all xs (cv_new initial) = (Inr (), v) \<and> cv_list v = xs
    \<and> (\<forall>i x. cv_get v i = Inr x \<longleftrightarrow> i < length xs \<and> xs ! i = x)
    \<and> (if length xs = length initial then \<exists>m. cv_push_back y v = (Inl (Abort m), v)
       else \<exists>v' v''. cv_push_back y v = (Inr (), v') \<and> cv_list v' = xs @ [y]
          \<and> cv_pop_back v' = (Inr (), v'') \<and> cv_list v'' = xs)
    \<and> length (cv_range v) = length initial"
proof -
  have i: "cv_inv (cv_new initial)" and l: "cv_list (cv_new initial) = []" and c: "cv_capacity (cv_new initial) = length initial"
    by (simp_all add: cv_inv_def cv_new_def cv_list_def cv_capacity_def)
  obtain v where v: "capped.push_all xs (cv_new initial) = (Inr (), v)" "cv_list v = xs" "cv_inv v"
    and cap: "cv_capacity v = length initial"
    using capped.push_all_ok [OF i, of xs] l c assms by auto
  have sz: "cv_size v = length xs" using cv_list_length [OF v(3)] v(2) by simp
  have nth: "i < length xs \<Longrightarrow> cv_array v ! i = xs ! i" for i
    using sz v(2) by (metis cv_list_def nth_take)
  have get: "cv_get v i = Inr x \<longleftrightarrow> i < length xs \<and> xs ! i = x" for i x
    using sz nth [of i] by (auto simp: cv_get_def cv_check_index_def c_assert_def)
  have full: "\<exists>m. cv_push_back y v = (Inl (Abort m), v)" if "length xs = length initial"
    using capped.push_full [OF v(3)] v(2) cap that by simp
  have room: "\<exists>v' v''. cv_push_back y v = (Inr (), v') \<and> cv_list v' = xs @ [y]
          \<and> cv_pop_back v' = (Inr (), v'') \<and> cv_list v'' = xs" if "length xs \<noteq> length initial"
  proof -
    have "length (cv_list v) < cv_capacity v" using that assms v(2) cap by simp
    then obtain v' where v': "cv_push_back y v = (Inr (), v')" "cv_list v' = xs @ [y]"
      using capped.push_ok [OF v(3)] v(2) by metis
    with capped.push_pop [OF v(3) v'(1)] v(2) show ?thesis by auto
  qed
  have "length (cv_range v) = length initial" using cap by (simp add: cv_range_def cv_capacity_def)
  with v(1,2) get full room show ?thesis by auto
qed

lemma capped_vector_is_bounded_stack_witness:
  "\<exists>v. capped.push_all [1 :: nat, 2] (cv_new [0, 0, 0]) = (Inr (), v) \<and> cv_list v = [1, 2] \<and> length (cv_range v) = 3"
  using capped_vector_is_bounded_stack [of "[1 :: nat, 2]" "[0, 0, 0]" 7] by auto

text \<open>\<open>safe_advance\<close> gives the same position for random access iterators, by arithmetic, and for
  forward iterators, by its loop: \<open>d\<close> steps ahead, or the end of the range where it is nearer.\<close>

theorem safe_advance_categories_agree:
  assumes "i \<le> e" "e \<le> length xs" "d \<ge> 1"
  shows "safe_advance_ra i e d = Inr (min (i + d) e)
    \<and> safe_advance_fwd (drop i (take e xs)) d = Inr (drop (min (i + d) e) (take e xs))"
proof -
  have "safe_advance_ra i e d = Inr (min (i + d) e)"
    using assms by (auto simp: safe_advance_ra_def min_def)
  moreover have "drop d (drop i (take e xs)) = drop (min (i + d) e) (take e xs)"
    using assms by (auto simp: min_def add.commute)
  ultimately show ?thesis
    using assms(3) by (simp add: safe_advance_fwd_def advance_loop_drop)
qed

lemma safe_advance_categories_agree_witness:
  "safe_advance_ra 1 3 5 = Inr 3 \<and> safe_advance_fwd (drop 1 (take 3 ''abcd'')) 5 = Inr []"
  using safe_advance_categories_agree [of 1 3 "''abcd''" 5] by simp

text \<open>\<open>distance_at_least\<close> for random access iterators decides whether the distance is at least
  \<open>dist\<close>; the loop for other iterators agrees with it on every non-empty range and for every
  positive \<open>dist\<close>, and answers false on an empty range, where the documented answer for \<open>dist\<close> not
  positive is true.\<close>

theorem distance_at_least_agrees:
  "(distance_at_least_ra i (i + length xs) dist \<longleftrightarrow> int (length xs) \<ge> dist)
   \<and> (distance_at_least_in xs dist \<longleftrightarrow> distance_at_least_ra i (i + length xs) dist \<and> xs \<noteq> [])"
  by (auto simp: distance_at_least_ra_def distance_at_least_in_def distance_loop_eq)

text \<open>\<open>check_strictly_ascending\<close> accepts a range exactly when the elements at the multiples of the
  stride are in strictly ascending order, and throws otherwise; an empty range is accepted.\<close>

theorem check_strictly_ascending_spec:
  assumes "d \<ge> 1"
  shows "check_strictly_ascending xs d =
    (if sorted_wrt (<) (strided d xs) then Inr () else Inl (Runtime_error ''sequence not strictly ascending''))"
  using ascending_loop_eq [OF assms, of xs]
  by (auto simp: check_strictly_ascending_def strictly_ascending_sorted strided.simps [of d "[]"])

lemma check_strictly_ascending_spec_witness:
  "check_strictly_ascending [1 :: nat, 9, 2, 9, 3] 2 = Inr ()"
proof -
  have "strided 2 [1 :: nat, 9, 2, 9, 3] = [1, 2, 3]" by (simp add: strided.simps)
  then show ?thesis using check_strictly_ascending_spec [of 2 "[1 :: nat, 9, 2, 9, 3]"] by simp
qed

text \<open>The sequence helpers against their references: \<open>erase_if\<close> keeps the elements that do not
  satisfy the predicate in order, \<open>flatten\<close> concatenates, \<open>all_equal\<close> and \<open>next_is_end\<close> decide what
  they say, and \<open>write_sequence\<close> writes the elements with a separator between any two, inside the
  bracket and its partner.\<close>

theorem sequence_helpers:
  "erase_if xs p = filter (\<lambda>x. \<not> p x) xs
   \<and> flatten xss = concat xss
   \<and> (all_equal xs t \<longleftrightarrow> xs = replicate (length xs) t)
   \<and> (next_is_end xs \<longleftrightarrow> length xs = 1)
   \<and> write_sequence (z # zs) CHR ''['' sep = ''['' @ z @ concat (map (\<lambda>y. sep @ y) zs) @ '']''"
proof -
  have "erase_if xs p = filter (\<lambda>x. \<not> p x) xs" by (induction xs) auto
  moreover have "foldl append_to a xss = a @ concat xss" for a
    by (induction xss arbitrary: a) (simp_all add: append_to_def)
  moreover have "all_equal xs t \<longleftrightarrow> xs = replicate (length xs) t" by (induction xs) auto
  moreover have "next_is_end xs \<longleftrightarrow> length xs = 1" by (auto simp: next_is_end_def split: list.splits)
  moreover have "write_elements (z # zs) sep = z @ concat (map (\<lambda>y. sep @ y) zs)" by (rule write_elements_Cons)
  ultimately show ?thesis by (simp add: flatten_def write_sequence_def del: write_elements.simps)
qed

end
