(* ===== verification/Iterators.thy ===== *)
theory Iterators
  imports Containers Doubles
begin

text \<open>
  The rest of \<^verbatim>\<open>nanonet/container-util.h\<close>: constructors, ranges and the functions that only move an
  iterator; \<^verbatim>\<open>nanonet/random.h\<close>, \<^verbatim>\<open>nanonet/database.h\<close>, and the compile-time predicates of
  \<^verbatim>\<open>nanonet/type_traits.h\<close> as functions on a datatype of types. An iterator into a sequence is a
  position, from 0 to the length of the sequence.
\<close>

section \<open>Constructors and ranges\<close>

definition rv_of :: "'a list \<Rightarrow> 'a rvector" where
  "rv_of v = \<lparr>rv_elems = v\<rparr>"

definition rv_replicate :: "nat \<Rightarrow> 'a \<Rightarrow> 'a rvector" where
  "rv_replicate s t = \<lparr>rv_elems = replicate s t\<rparr>"

definition rv_size :: "'a rvector \<Rightarrow> nat" where
  "rv_size v = length (rv_elems v)"

definition rv_range :: "'a rvector \<Rightarrow> 'a list" where
  "rv_range v = rv_elems v"

definition string_from_sequence :: "char list \<Rightarrow> string" where
  "string_from_sequence s = s"

text \<open>\<open>ctor\<close> is the constructor of the container from a range.\<close>

definition convert_to :: "('a list \<Rightarrow> 'c) \<Rightarrow> 'a list \<Rightarrow> 'c" where
  "convert_to ctor s = ctor s"

section \<open>Moving iterators\<close>

definition in_range_of :: "'a list \<Rightarrow> int \<Rightarrow> nat result" where
  "in_range_of xs i =
     (if 0 \<le> i \<and> i \<le> int (length xs) then Inr (nat i) else Inl (Undefined ''iterator outside its sequence''))"

definition it_next :: "'a list \<Rightarrow> nat \<Rightarrow> nat result" where
  "it_next xs i = in_range_of xs (int i + 1)"

definition it_previous :: "'a list \<Rightarrow> nat \<Rightarrow> nat result" where
  "it_previous xs i = in_range_of xs (int i - 1)"

definition it_advanced :: "'a list \<Rightarrow> nat \<Rightarrow> int \<Rightarrow> nat result" where
  "it_advanced xs i d = in_range_of xs (int i + d)"

datatype category = Input_iterator | Forward_iterator | Bidirectional_iterator | Random_access_iterator

definition distance_at_least :: "category \<Rightarrow> 'a list \<Rightarrow> nat \<Rightarrow> nat \<Rightarrow> int \<Rightarrow> bool" where
  "distance_at_least cat xs i1 i2 n =
     (if cat = Random_access_iterator then distance_at_least_ra i1 i2 n
      else distance_at_least_in (drop i1 (take i2 xs)) n)"

text \<open>The overload for random access iterators, and the one for the others, which returns what is left
  of the range.\<close>

definition safe_advanced :: "category \<Rightarrow> 'a list \<Rightarrow> nat \<Rightarrow> nat \<Rightarrow> nat \<Rightarrow> nat result" where
  "safe_advanced cat xs i end_i d =
     (if cat = Random_access_iterator then safe_advance_ra i end_i d
      else rbind (safe_advance_fwd (drop i (take end_i xs)) d) (\<lambda>rest. Inr (end_i - length rest)))"

text \<open>The category of the iterator makes no difference.\<close>

lemma safe_advanced_category:
  assumes "i \<le> end_i" "end_i \<le> length xs" "1 \<le> d"
  shows "safe_advanced cat xs i end_i d = Inr (min (i + d) end_i)"
  using assms by (auto simp: safe_advanced_def safe_advance_ra_def safe_advance_fwd_def advance_loop_drop)

lemma next_previous:
  assumes "i < length xs"
  shows "it_next xs i = Inr (Suc i) \<and> it_previous xs (Suc i) = Inr i"
  using assms by (auto simp: it_next_def it_previous_def in_range_of_def nat_add_distrib)

section \<open>Random sequences\<close>

text \<open>The generator \<open>rand\<close> is a state, the distributions draw from it. The size is converted to
  \<^verbatim>\<open>unsigned long\<close>, of 64 bits.\<close>

fun draw :: "('s \<Rightarrow> 'a \<times> 's) \<Rightarrow> nat \<Rightarrow> 's \<Rightarrow> 'a list \<times> 's" where
  "draw vd 0 rand = ([], rand)"
| "draw vd (Suc n) rand =
     (case vd rand of (x, rand1) \<Rightarrow> (case draw vd n rand1 of (xs, rand2) \<Rightarrow> (x # xs, rand2)))"

definition random_sequence :: "('s \<Rightarrow> int \<times> 's) \<Rightarrow> ('s \<Rightarrow> 'a \<times> 's) \<Rightarrow> 's \<Rightarrow> 'a list \<times> 's" where
  "random_sequence sd vd rand =
     (case sd rand of (n, rand1) \<Rightarrow> draw vd (nat (n mod 2 ^ 64)) rand1)"

lemma draw_length: "length (fst (draw vd n rand)) = n"
  by (induction n arbitrary: rand) (simp_all add: case_prod_beta)

lemma draw_values: "x \<in> set (fst (draw vd n rand)) \<Longrightarrow> \<exists>r. x = fst (vd r)"
proof (induction n arbitrary: rand)
  case (Suc n)
  obtain y r1 where y: "vd rand = (y, r1)" by (rule prod.exhaust)
  obtain ys r2 where ys: "draw vd n r1 = (ys, r2)" by (rule prod.exhaust)
  from Suc.prems y ys have "x = y \<or> x \<in> set (fst (draw vd n r1))" by simp
  then show ?case using Suc.IH y by (metis fst_conv)
qed simp

text \<open>The size is the drawn one, unless that is negative: then it wraps around.\<close>

lemma random_sequence_size:
  assumes "sd rand = (n, rand1)" "- (2 ^ 63) \<le> n" "n < 2 ^ 63"
  shows "length (fst (random_sequence sd vd rand)) = (if 0 \<le> n then nat n else nat (n + 2 ^ 64))"
proof -
  have "n mod 2 ^ 64 = n + 2 ^ 64" if "n < 0"
  proof -
    have "n mod 2 ^ 64 = (n + 2 ^ 64) mod 2 ^ 64" by simp
    also have "\<dots> = n + 2 ^ 64" using that assms(2) by (intro mod_pos_pos_trivial) simp_all
    finally show ?thesis .
  qed
  then show ?thesis using assms by (auto simp: random_sequence_def draw_length mod_pos_pos_trivial)
qed

section \<open>Table statistics\<close>

record table_statistics =
  ts_name :: string
  ts_type :: string
  ts_size :: double
  ts_bytes_estimate :: double
  ts_bytes_precise :: double

definition default_table_statistics :: table_statistics where
  "default_table_statistics =
     \<lparr>ts_name = [], ts_type = [], ts_size = Fin 0, ts_bytes_estimate = Fin 0, ts_bytes_precise = Fin 0\<rparr>"

section \<open>Type traits\<close>

datatype std_template =
    Std_array | Std_vector | Std_deque | Std_list | Std_forward_list | Std_set | Std_multiset | Std_map
  | Std_multimap | Std_unordered_set | Std_unordered_multiset | Std_unordered_map | Std_unordered_multimap
  | Std_stack | Std_queue | Std_priority_queue | Std_pair | Other_template string

datatype cpp_type =
    Instance std_template "cpp_type list"
  | Plain string
  | Const cpp_type
  | Reference cpp_type
  | C_array cpp_type
  | Pointer cpp_type

text \<open>\<^verbatim>\<open>std::decay_t\<close>, for types without functions.\<close>

fun remove_cv :: "cpp_type \<Rightarrow> cpp_type" where
  "remove_cv (Const t) = remove_cv t"
| "remove_cv t = t"

fun decay_value :: "cpp_type \<Rightarrow> cpp_type" where
  "decay_value (C_array t) = Pointer t"
| "decay_value (Const (C_array t)) = Pointer (Const t)"
| "decay_value t = remove_cv t"

fun decay :: "cpp_type \<Rightarrow> cpp_type" where
  "decay (Reference t) = decay_value t"
| "decay t = decay_value t"

fun detail_is_container :: "cpp_type \<Rightarrow> bool" where
  "detail_is_container (Instance t args) =
     (case t of Std_pair \<Rightarrow> False | Other_template _ \<Rightarrow> False | _ \<Rightarrow> True)"
| "detail_is_container _ = False"

fun detail_is_pair :: "cpp_type \<Rightarrow> bool" where
  "detail_is_pair (Instance t args) = (t = Std_pair \<and> length args = 2)"
| "detail_is_pair _ = False"

definition is_container :: "cpp_type \<Rightarrow> bool" where
  "is_container t = detail_is_container (decay t)"

definition is_pair :: "cpp_type \<Rightarrow> bool" where
  "is_pair t = detail_is_pair (decay t)"

text \<open>The public predicates look through a reference and \<^verbatim>\<open>const\<close>, those in \<^verbatim>\<open>detail_\<close> do not; no type is
  both.\<close>

lemma traits_look_through:
  "is_container (Reference (Const (Instance t args))) = detail_is_container (Instance t args)
   \<and> is_pair (Reference (Const (Instance t args))) = detail_is_pair (Instance t args)
   \<and> \<not> detail_is_container (Const u) \<and> \<not> (is_container u \<and> is_pair u)"
proof -
  have "\<not> (detail_is_container v \<and> detail_is_pair v)" for v
    by (cases v) (auto split: std_template.splits)
  then show ?thesis by (simp add: is_container_def is_pair_def)
qed

end
