(* ===== verification/Safe_Queue.thy ===== *)
theory Safe_Queue
  imports Base
begin

text \<open>
  The thread-safe queue of \<^verbatim>\<open>nanonet/safe_queue.h\<close>: its operations under the lock, and the
  calls of \<open>push\<close> and \<open>pop\<close> by any number of threads as a step relation, with the two condition
  variables. A step is what one thread does while it holds the mutex, or one notification; a
  condition variable may wake a thread that was not notified.
\<close>

section \<open>The queue under its lock\<close>

record 'a squeue =
  sq_items :: "'a list"
  sq_limit :: int
  sq_bounded :: bool

definition sq_long_max :: int where
  "sq_long_max = 2 ^ 63 - 1"

definition new_safe_queue :: "bool \<Rightarrow> int \<Rightarrow> 'a squeue result" where
  "new_safe_queue bounded capacity =
     (if \<not> bounded \<and> capacity \<noteq> sq_long_max
      then Inl (Logic_error ''Attempt to construct unbounded queue with limited capacity'')
      else if capacity < 1 then Inl (Runtime_error ''Queue capacity must be >= 1'')
      else Inr \<lparr>sq_items = [], sq_limit = capacity, sq_bounded = bounded\<rparr>)"

definition sq_capacity :: "'a squeue \<Rightarrow> int result" where
  "sq_capacity sq =
     (if \<not> sq_bounded sq then Inl (Logic_error ''Attempt to obtain capacity of unbounded queue'')
      else Inr (sq_limit sq))"

definition sq_empty :: "'a squeue \<Rightarrow> bool" where
  "sq_empty sq \<longleftrightarrow> sq_items sq = []"

definition sq_full :: "'a squeue \<Rightarrow> bool" where
  "sq_full sq = (if \<not> sq_bounded sq then False else int (length (sq_items sq)) = sq_limit sq)"

text \<open>The guard of the wait loop of \<open>push\<close>, and the two changes of the queue.\<close>

definition sq_must_wait :: "'a squeue \<Rightarrow> bool" where
  "sq_must_wait sq \<longleftrightarrow> sq_bounded sq \<and> int (length (sq_items sq)) = sq_limit sq"

definition sq_put :: "'a \<Rightarrow> 'a squeue \<Rightarrow> 'a squeue" where
  "sq_put x sq = sq\<lparr>sq_items := sq_items sq @ [x]\<rparr>"

definition sq_take :: "'a squeue \<Rightarrow> ('a \<times> 'a squeue) option" where
  "sq_take sq = (case sq_items sq of [] \<Rightarrow> None | x # xs \<Rightarrow> Some (x, sq\<lparr>sq_items := xs\<rparr>))"

text \<open>The contract of a first-in first-out queue.\<close>

locale fifo =
  fixes put :: "'a \<Rightarrow> 'q \<Rightarrow> 'q"
    and take1 :: "'q \<Rightarrow> ('a \<times> 'q) option"
    and items :: "'q \<Rightarrow> 'a list"
  assumes items_put: "items (put x q) = items q @ [x]"
    and take_None: "take1 q = None \<longleftrightarrow> items q = []"
    and take_Some: "take1 q = Some (x, q') \<Longrightarrow> items q = x # items q'"
begin

text \<open>The log of what went in and what came out, with the queue.\<close>

definition consistent :: "'a list \<Rightarrow> 'a list \<Rightarrow> 'q \<Rightarrow> bool" where
  "consistent inp out q \<longleftrightarrow> inp = out @ items q"

lemma consistent_put: "consistent inp out q \<Longrightarrow> consistent (inp @ [x]) out (put x q)"
  by (simp add: consistent_def items_put)

lemma consistent_take: "consistent inp out q \<Longrightarrow> take1 q = Some (x, q') \<Longrightarrow> consistent inp (out @ [x]) q'"
  by (simp add: consistent_def take_Some)

end

interpretation sq: fifo sq_put sq_take sq_items
  by unfold_locales (auto simp: sq_put_def sq_take_def split: list.splits)

section \<open>Calls by several threads\<close>

text \<open>
  The calls under way, each a number: those that are about to take the mutex (they have just been
  made, or were woken), those that sleep on the condition variable, and those that have released
  the mutex and are about to notify. \<open>arg\<close> is the element that a call of \<open>push\<close> brings, \<open>log_in\<close>
  and \<open>log_out\<close> what has been pushed and popped so far.
\<close>

record 'a qsys =
  queue :: "'a squeue"
  arg :: "nat \<Rightarrow> 'a"
  push_ready :: "nat set"
  push_sleep :: "nat set"
  push_notify :: "nat set"
  pop_ready :: "nat set"
  pop_sleep :: "nat set"
  pop_notify :: "nat set"
  log_in :: "'a list"
  log_out :: "'a list"

definition qsys_init :: "'a squeue \<Rightarrow> (nat \<Rightarrow> 'a) \<Rightarrow> 'a qsys" where
  "qsys_init sq f =
     \<lparr>queue = sq, arg = f, push_ready = {}, push_sleep = {}, push_notify = {},
      pop_ready = {}, pop_sleep = {}, pop_notify = {}, log_in = [], log_out = []\<rparr>"

definition calls :: "'a qsys \<Rightarrow> nat set" where
  "calls s = push_ready s \<union> push_sleep s \<union> push_notify s \<union> pop_ready s \<union> pop_sleep s \<union> pop_notify s"

inductive qstep :: "'a qsys \<Rightarrow> 'a qsys \<Rightarrow> bool" where
  call_push: "c \<notin> calls s \<Longrightarrow> qstep s (s\<lparr>push_ready := insert c (push_ready s)\<rparr>)"
| call_pop: "c \<notin> calls s \<Longrightarrow> qstep s (s\<lparr>pop_ready := insert c (pop_ready s)\<rparr>)"
| push_wait: "c \<in> push_ready s \<Longrightarrow> sq_must_wait (queue s) \<Longrightarrow>
    qstep s (s\<lparr>push_ready := push_ready s - {c}, push_sleep := insert c (push_sleep s)\<rparr>)"
| push_item: "c \<in> push_ready s \<Longrightarrow> \<not> sq_must_wait (queue s) \<Longrightarrow>
    qstep s (s\<lparr>queue := sq_put (arg s c) (queue s), push_ready := push_ready s - {c},
               push_notify := insert c (push_notify s), log_in := log_in s @ [arg s c]\<rparr>)"
| notify_data: "c \<in> push_notify s \<Longrightarrow> w \<in> pop_sleep s \<Longrightarrow>
    qstep s (s\<lparr>push_notify := push_notify s - {c}, pop_ready := insert w (pop_ready s),
               pop_sleep := pop_sleep s - {w}\<rparr>)"
| notify_data_none: "c \<in> push_notify s \<Longrightarrow> pop_sleep s = {} \<Longrightarrow>
    qstep s (s\<lparr>push_notify := push_notify s - {c}\<rparr>)"
| pop_wait: "c \<in> pop_ready s \<Longrightarrow> sq_take (queue s) = None \<Longrightarrow>
    qstep s (s\<lparr>pop_ready := pop_ready s - {c}, pop_sleep := insert c (pop_sleep s)\<rparr>)"
| pop_item: "c \<in> pop_ready s \<Longrightarrow> sq_take (queue s) = Some (x, q') \<Longrightarrow>
    qstep s (s\<lparr>queue := q', pop_ready := pop_ready s - {c},
               pop_notify := (if sq_bounded (queue s) then insert c (pop_notify s) else pop_notify s),
               log_out := log_out s @ [x]\<rparr>)"
| notify_space: "c \<in> pop_notify s \<Longrightarrow> w \<in> push_sleep s \<Longrightarrow>
    qstep s (s\<lparr>push_ready := insert w (push_ready s), push_sleep := push_sleep s - {w},
               pop_notify := pop_notify s - {c}\<rparr>)"
| notify_space_none: "c \<in> pop_notify s \<Longrightarrow> push_sleep s = {} \<Longrightarrow>
    qstep s (s\<lparr>pop_notify := pop_notify s - {c}\<rparr>)"
| spurious_push: "w \<in> push_sleep s \<Longrightarrow>
    qstep s (s\<lparr>push_ready := insert w (push_ready s), push_sleep := push_sleep s - {w}\<rparr>)"
| spurious_pop: "w \<in> pop_sleep s \<Longrightarrow>
    qstep s (s\<lparr>pop_ready := insert w (pop_ready s), pop_sleep := pop_sleep s - {w}\<rparr>)"

inductive_cases qstepE: "qstep s t"

inductive qreach :: "'a qsys \<Rightarrow> 'a qsys \<Rightarrow> bool" for s0 where
  start: "qreach s0 s0"
| more: "qreach s0 s \<Longrightarrow> qstep s t \<Longrightarrow> qreach s0 t"

section \<open>Invariants\<close>

text \<open>First in, first out, nothing lost and nothing twice; and the capacity.\<close>

definition fifo_inv :: "'a qsys \<Rightarrow> bool" where
  "fifo_inv s \<longleftrightarrow> log_in s = log_out s @ sq_items (queue s)"

definition capacity_inv :: "'a qsys \<Rightarrow> bool" where
  "capacity_inv s \<longleftrightarrow> (sq_bounded (queue s) \<longrightarrow> int (length (sq_items (queue s))) \<le> sq_limit (queue s))"

lemma sq_take_frame:
  "sq_take q = Some (x, q') \<Longrightarrow>
     sq_items q = x # sq_items q' \<and> sq_limit q' = sq_limit q \<and> sq_bounded q' = sq_bounded q"
  by (auto simp: sq_take_def split: list.splits)

lemma sq_put_frame [simp]:
  "sq_limit (sq_put x q) = sq_limit q" "sq_bounded (sq_put x q) = sq_bounded q" "sq_items (sq_put x q) = sq_items q @ [x]"
  by (simp_all add: sq_put_def)

lemma qstep_fifo: "qstep s t \<Longrightarrow> fifo_inv s \<Longrightarrow> fifo_inv t"
  by (induction rule: qstep.induct) (auto simp: fifo_inv_def dest: sq.take_Some)

lemma qstep_capacity: "qstep s t \<Longrightarrow> capacity_inv s \<Longrightarrow> capacity_inv t"
  by (induction rule: qstep.induct)
    (auto simp: capacity_inv_def sq_must_wait_def dest: sq_take_frame)

text \<open>
  No wake-up is lost: while a call of \<open>pop\<close> sleeps, the queue holds at most as many elements as
  there are calls of \<open>pop\<close> awake and notifications on their way, and likewise for \<open>push\<close> and the
  free space.
\<close>

definition disjoint_inv :: "'a qsys \<Rightarrow> bool" where
  "disjoint_inv s \<longleftrightarrow>
     finite (calls s)
     \<and> push_ready s \<inter> push_sleep s = {} \<and> push_ready s \<inter> push_notify s = {} \<and> push_sleep s \<inter> push_notify s = {}
     \<and> pop_ready s \<inter> pop_sleep s = {} \<and> pop_ready s \<inter> pop_notify s = {} \<and> pop_sleep s \<inter> pop_notify s = {}"

definition wake_inv :: "'a qsys \<Rightarrow> bool" where
  "wake_inv s \<longleftrightarrow>
     (pop_sleep s \<noteq> {} \<longrightarrow> length (sq_items (queue s)) \<le> card (pop_ready s) + card (push_notify s))
     \<and> (push_sleep s \<noteq> {} \<longrightarrow> sq_limit (queue s) - int (length (sq_items (queue s)))
           \<le> int (card (push_ready s) + card (pop_notify s)) \<and> sq_bounded (queue s))"

lemma qstep_disjoint: "qstep s t \<Longrightarrow> disjoint_inv s \<Longrightarrow> disjoint_inv t"
  by (induction rule: qstep.induct) (auto simp: disjoint_inv_def calls_def)

lemma disjoint_finite:
  "disjoint_inv s \<Longrightarrow> finite (push_ready s) \<and> finite (push_sleep s) \<and> finite (push_notify s)
     \<and> finite (pop_ready s) \<and> finite (pop_sleep s) \<and> finite (pop_notify s)"
  by (simp add: disjoint_inv_def calls_def)

lemma card_move:
  "finite A \<Longrightarrow> c \<in> A \<Longrightarrow> 0 < card A"
  "finite B \<Longrightarrow> d \<notin> B \<Longrightarrow> card (insert d B) = Suc (card B)"
  by (auto simp: card_gt_0_iff)

lemma disjoint_moves:
  assumes "disjoint_inv s"
  shows "c \<in> push_ready s \<Longrightarrow> c \<notin> push_sleep s \<and> c \<notin> push_notify s"
    and "d \<in> push_sleep s \<Longrightarrow> d \<notin> push_ready s \<and> d \<notin> push_notify s"
    and "e \<in> pop_ready s \<Longrightarrow> e \<notin> pop_sleep s \<and> e \<notin> pop_notify s"
    and "g \<in> pop_sleep s \<Longrightarrow> g \<notin> pop_ready s \<and> g \<notin> pop_notify s"
  using assms unfolding disjoint_inv_def by blast+

lemma qstep_wake: "qstep s t \<Longrightarrow> disjoint_inv s \<Longrightarrow> wake_inv s \<Longrightarrow> wake_inv t"
proof (induction rule: qstep.induct)
  case (call_push c s)
  then have "card (insert c (push_ready s)) = Suc (card (push_ready s))"
    using disjoint_finite [of s] by (intro card_move) (auto simp: calls_def)
  with call_push show ?case by (auto simp: wake_inv_def)
next
  case (call_pop c s)
  then have "card (insert c (pop_ready s)) = Suc (card (pop_ready s))"
    using disjoint_finite [of s] by (intro card_move) (auto simp: calls_def)
  with call_pop show ?case by (auto simp: wake_inv_def)
next
  case (push_wait c s)
  then have "0 < card (push_ready s)"
    using disjoint_finite [of s] by (intro card_move) auto
  with push_wait show ?case by (auto simp: wake_inv_def sq_must_wait_def)
next
  case (push_item c s)
  have "0 < card (push_ready s)"
    using push_item disjoint_finite [of s] by (intro card_move) auto
  moreover have "card (insert c (push_notify s)) = Suc (card (push_notify s))"
    using push_item disjoint_finite [of s] disjoint_moves(1) [of s c] by (intro card_move) auto
  ultimately show ?case using push_item by (auto simp: wake_inv_def)
next
  case (notify_data c s w)
  have "0 < card (push_notify s)"
    using notify_data disjoint_finite [of s] by (intro card_move) auto
  moreover have "card (insert w (pop_ready s)) = Suc (card (pop_ready s))"
    using notify_data disjoint_finite [of s] disjoint_moves(4) [of s w] by (intro card_move) auto
  ultimately show ?case using notify_data by (auto simp: wake_inv_def)
next
  case (notify_data_none c s)
  then show ?case by (auto simp: wake_inv_def)
next
  case (pop_wait c s)
  then have "0 < card (pop_ready s)"
    using disjoint_finite [of s] by (intro card_move) auto
  with pop_wait show ?case by (auto simp: wake_inv_def sq.take_None)
next
  case (pop_item c s x q')
  have "0 < card (pop_ready s)"
    using pop_item disjoint_finite [of s] by (intro card_move) auto
  moreover have "card (insert c (pop_notify s)) = Suc (card (pop_notify s))"
    using pop_item disjoint_finite [of s] disjoint_moves(3) [of s c] by (intro card_move) auto
  ultimately show ?case using pop_item sq_take_frame [OF pop_item(2)] by (auto simp: wake_inv_def)
next
  case (notify_space c s w)
  have "0 < card (pop_notify s)"
    using notify_space disjoint_finite [of s] by (intro card_move) auto
  moreover have "card (insert w (push_ready s)) = Suc (card (push_ready s))"
    using notify_space disjoint_finite [of s] disjoint_moves(2) [of s w] by (intro card_move) auto
  ultimately show ?case using notify_space by (auto simp: wake_inv_def)
next
  case (notify_space_none c s)
  then show ?case by (auto simp: wake_inv_def)
next
  case (spurious_push w s)
  have "card (insert w (push_ready s)) = Suc (card (push_ready s))"
    using spurious_push disjoint_finite [of s] disjoint_moves(2) [of s w] by (intro card_move) auto
  then show ?case using spurious_push by (auto simp: wake_inv_def)
next
  case (spurious_pop w s)
  have "card (insert w (pop_ready s)) = Suc (card (pop_ready s))"
    using spurious_pop disjoint_finite [of s] disjoint_moves(4) [of s w] by (intro card_move) auto
  then show ?case using spurious_pop by (auto simp: wake_inv_def)
qed

definition queue_inv :: "'a qsys \<Rightarrow> bool" where
  "queue_inv s \<longleftrightarrow> fifo_inv s \<and> capacity_inv s \<and> disjoint_inv s \<and> wake_inv s"

lemma qreach_inv: "qreach s0 s \<Longrightarrow> queue_inv s0 \<Longrightarrow> queue_inv s"
  by (induction rule: qreach.induct)
    (auto simp: queue_inv_def intro: qstep_fifo qstep_capacity qstep_disjoint qstep_wake)

lemma queue_inv_init: "new_safe_queue b n = Inr sq \<Longrightarrow> queue_inv (qsys_init sq f)"
  by (auto simp: queue_inv_def fifo_inv_def capacity_inv_def disjoint_inv_def wake_inv_def qsys_init_def
      new_safe_queue_def calls_def split: if_splits)

section \<open>Properties\<close>

text \<open>C4: However the calls of any number of threads interleave, the queue is first in, first out:
  what has been popped, followed by what is in the queue, is what has been pushed, in that order,
  so no element is lost or delivered twice; and a bounded queue never holds more than its capacity.\<close>

theorem queue_fifo_and_bounded:
  assumes "new_safe_queue b n = Inr sq" "qreach (qsys_init sq f) s"
  shows "log_in s = log_out s @ sq_items (queue s)
    \<and> (sq_bounded (queue s) \<longrightarrow> int (length (sq_items (queue s))) \<le> sq_limit (queue s))"
  using qreach_inv [OF assms(2) queue_inv_init [OF assms(1)]]
  by (simp add: queue_inv_def fifo_inv_def capacity_inv_def)

text \<open>A run of a queue of one element: two calls of \<open>push\<close>, of which the second has to wait, a call of
  \<open>pop\<close> and its notification.\<close>

definition sample_queue :: "nat squeue" where
  "sample_queue = \<lparr>sq_items = [], sq_limit = 1, sq_bounded = True\<rparr>"

lemma sample_queue_new: "new_safe_queue True 1 = Inr sample_queue"
  by (simp add: new_safe_queue_def sample_queue_def)

lemma sample_run:
  "\<exists>s. qreach (qsys_init sample_queue Suc) s \<and> log_in s = [1] \<and> push_sleep s = {1} \<and> push_notify s = {}
     \<and> push_ready s = {} \<and> pop_notify s = {} \<and> pop_sleep s = {} \<and> pop_ready s = {}"
proof -
  let ?s0 = "qsys_init sample_queue Suc"
  define s1 where "s1 = ?s0\<lparr>push_ready := {0}\<rparr>"
  define s2 where "s2 = s1\<lparr>queue := sq_put 1 sample_queue, push_ready := {}, push_notify := {0}, log_in := [1]\<rparr>"
  define s3 where "s3 = s2\<lparr>push_notify := {}\<rparr>"
  define s4 where "s4 = s3\<lparr>push_ready := {1}\<rparr>"
  define s5 where "s5 = s4\<lparr>push_ready := {}, push_sleep := {1}\<rparr>"
  note d = s1_def s2_def s3_def s4_def s5_def qsys_init_def sample_queue_def calls_def
  have "qstep ?s0 s1" using qstep.call_push [of 0 ?s0] by (simp add: d)
  moreover have "qstep s1 s2"
    using qstep.push_item [of 0 s1] by (simp add: d sq_must_wait_def)
  moreover have "qstep s2 s3" using qstep.notify_data_none [of 0 s2] by (simp add: d)
  moreover have "qstep s3 s4" using qstep.call_push [of 1 s3] by (simp add: d)
  moreover have "qstep s4 s5" using qstep.push_wait [of 1 s4] by (simp add: d sq_must_wait_def)
  ultimately have "qreach ?s0 s5" by (meson qreach.intros)
  then show ?thesis by (intro exI [of _ s5]) (simp add: d)
qed

lemma queue_fifo_and_bounded_witness:
  "\<exists>s. qreach (qsys_init sample_queue Suc) s \<and> log_in s = [1] \<and> log_in s = log_out s @ sq_items (queue s)"
  using sample_run queue_fifo_and_bounded [OF sample_queue_new] by blast

text \<open>C20: No wake-up is lost. When no call is about to take the mutex or to notify, a call of \<open>pop\<close>
  sleeps only if the queue is empty, and a call of \<open>push\<close> only if the queue is bounded and full:
  with \<open>notify_one\<close> after every operation, no thread sleeps while what it waits for is there.\<close>

theorem no_lost_wakeup:
  assumes "new_safe_queue b n = Inr sq" "qreach (qsys_init sq f) s"
    and "push_ready s = {}" "pop_ready s = {}" "push_notify s = {}" "pop_notify s = {}"
  shows "(pop_sleep s = {} \<or> sq_empty (queue s)) \<and> (push_sleep s = {} \<or> sq_full (queue s))"
proof -
  have i: "wake_inv s" "capacity_inv s"
    using qreach_inv [OF assms(2) queue_inv_init [OF assms(1)]] by (simp_all add: queue_inv_def)
  then show ?thesis
    using assms(3-) by (auto simp: wake_inv_def capacity_inv_def sq_empty_def sq_full_def)
qed

lemma no_lost_wakeup_witness:
  "\<exists>s. qreach (qsys_init sample_queue Suc) s \<and> push_sleep s = {1} \<and> sq_full (queue s)"
  using sample_run no_lost_wakeup [OF sample_queue_new] by (metis insert_not_empty)

text \<open>Construction. A queue that is declared unbounded must not be given a capacity, and a capacity
  must be at least 1; \<open>capacity\<close> of an unbounded queue throws \<^verbatim>\<open>std::logic_error\<close>, and such a queue is
  never full.\<close>

theorem queue_construction:
  "(is_ok (new_safe_queue b n) \<longleftrightarrow> n \<ge> 1 \<and> (b \<or> n = sq_long_max))
   \<and> (case new_safe_queue b n of
        Inr sq \<Rightarrow> sq_empty sq \<and> sq_capacity sq = (if b then Inr n
            else Inl (Logic_error ''Attempt to obtain capacity of unbounded queue'')) \<and> \<not> sq_full sq
      | Inl e \<Rightarrow> is_std_exception e)"
  by (auto simp: new_safe_queue_def sq_capacity_def sq_full_def sq_empty_def sq_long_max_def)

end
