(* ===== verification/Dispatch.thy ===== *)
theory Dispatch
  imports Safe_Queue "HOL-Library.Multiset"
begin

text \<open>
  The thread pool of \<^verbatim>\<open>nanonet/dispatch.h\<close> and \<^verbatim>\<open>src/dispatch.cpp\<close>: the worker threads, the owner
  that dispatches tasks and then destroys the pool, and the queue of theory \<open>Safe_Queue\<close> between
  them, as a step relation; and the calls that run a task in the calling thread. A task is a
  value of any type; what is observed of it is when it is started and when it has finished.
\<close>

section \<open>The pool\<close>

datatype 'a worker = Idle | Running 'a | Exited

datatype phase = Open | Closing nat | Destroyed
  \<comment> \<open>the owner: dispatching, having pushed that many ends of file, past the joins\<close>

record 'a pool =
  tasks :: "('a \<times> bool) squeue"
  workers :: "'a worker list"
  empty_task :: 'a
  owner :: phase
  dispatched :: "'a list"
  started :: "'a list"
  finished :: "'a list"

definition num_workers :: "'a pool \<Rightarrow> nat" where
  "num_workers p = length (workers p)"

definition new_thread_pool :: "'a \<Rightarrow> int \<Rightarrow> 'a pool result" where
  "new_thread_pool e n_threads =
     rbind (new_safe_queue False sq_long_max) (\<lambda>q.
     rbind (verify (n_threads \<ge> 0) ''thread pool: number of worker threads must be >= 0'') (\<lambda>_.
     Inr \<lparr>tasks = q, workers = replicate (nat n_threads) Idle, empty_task = e, owner = Open,
          dispatched = [], started = [], finished = []\<rparr>))"

text \<open>One turn of the loop of \<open>thread_function\<close>, on what it has popped.\<close>

fun thread_function :: "'a \<times> bool \<Rightarrow> 'a worker" where
  "thread_function (t, cont) = (if \<not> cont then Exited else Running t)"

definition start_of :: "'a \<times> bool \<Rightarrow> 'a list" where
  "start_of tac = (if snd tac then [fst tac] else [])"

text \<open>A step of the owner, or of one worker between two operations on the queue.\<close>

inductive pstep :: "'a pool \<Rightarrow> 'a pool \<Rightarrow> bool" where
  dispatch_task: "owner p = Open \<Longrightarrow> num_workers p > 0 \<Longrightarrow>
    pstep p (p\<lparr>tasks := sq_put (t, True) (tasks p), dispatched := dispatched p @ [t]\<rparr>)"
| begin_close: "owner p = Open \<Longrightarrow> pstep p (p\<lparr>owner := Closing 0\<rparr>)"
| push_eof: "owner p = Closing k \<Longrightarrow> k < num_workers p \<Longrightarrow>
    pstep p (p\<lparr>tasks := sq_put (empty_task p, False) (tasks p), owner := Closing (Suc k)\<rparr>)"
| joined: "owner p = Closing (num_workers p) \<Longrightarrow> \<forall>w \<in> set (workers p). w = Exited \<Longrightarrow>
    pstep p (p\<lparr>owner := Destroyed\<rparr>)"
| worker_pop: "i < num_workers p \<Longrightarrow> workers p ! i = Idle \<Longrightarrow> sq_take (tasks p) = Some (tac, q) \<Longrightarrow>
    pstep p (p\<lparr>tasks := q, workers := (workers p)[i := thread_function tac], started := started p @ start_of tac\<rparr>)"
| worker_done: "i < num_workers p \<Longrightarrow> workers p ! i = Running t \<Longrightarrow>
    pstep p (p\<lparr>workers := (workers p)[i := Idle], finished := finished p @ [t]\<rparr>)"

inductive_cases pstepE: "pstep p p'"

inductive preach :: "'a pool \<Rightarrow> 'a pool \<Rightarrow> bool" for p0 where
  pool_start: "preach p0 p0"
| pool_more: "preach p0 p \<Longrightarrow> pstep p p' \<Longrightarrow> preach p0 p'"

section \<open>Running a task in the calling thread\<close>

text \<open>What a call of the function of a packaged task leaves in the shared state.\<close>

datatype 'a outcome = Value 'a | Exception exc | Other_exception

text \<open>\<open>dispatch\<close> with no workers. The first argument is whether the pool has been moved from; the
  second whether the future of the task has already been taken. The result is the state after the
  call with what is thrown, if anything: \<open>None\<close> inside stands for an exception that is no
  \<^verbatim>\<open>std::exception\<close>.\<close>

definition dispatch_here :: "bool \<Rightarrow> bool \<Rightarrow> ('s \<Rightarrow> unit outcome \<times> 's) \<Rightarrow> 's \<Rightarrow> unit outcome \<times> 's" where
  "dispatch_here moved_from retrieved t s =
     (case verify (\<not> moved_from) ''using moved-from thread_pool'' of
        Inl e \<Rightarrow> (Exception e, s)
      | Inr _ \<Rightarrow>
          (case t s of (out, s') \<Rightarrow>
             if retrieved then (Exception (Logic_error ''future_already_retrieved''), s') else (out, s')))"

text \<open>
  The end of \<open>dispatch_returning\<close>, from the outcomes of the wrapper (for a pool with workers) and of
  the task: the value, or the default one with a message to the log.
\<close>

definition wrapper_log :: "unit outcome \<Rightarrow> string list" where
  "wrapper_log w =
     (case w of Value _ \<Rightarrow> []
      | Exception e \<Rightarrow> [''DISPATCH: Error in wrapper task: '' @ what e]
      | Other_exception \<Rightarrow> [''DISPATCH: Unknown error in wrapper task''])"

definition returning_result :: "'a \<Rightarrow> 'a outcome \<Rightarrow> 'a \<times> string list" where
  "returning_result def out =
     (case out of Value x \<Rightarrow> (x, [])
      | Exception e \<Rightarrow> (def, [''DISPATCH: Error in returning task: '' @ what e])
      | Other_exception \<Rightarrow> (def, [''DISPATCH: Unknown error in returning task'']))"

text \<open>The wrapper calls the packaged task, which keeps what its function throws to itself.\<close>

definition wrapper_outcome :: "'a outcome \<Rightarrow> unit outcome" where
  "wrapper_outcome out = Value ()"

definition dispatch_returning :: "nat \<Rightarrow> 'a \<Rightarrow> ('s \<Rightarrow> 'a outcome \<times> 's) \<Rightarrow> 's \<Rightarrow> ('a \<times> string list) \<times> 's" where
  "dispatch_returning n def t s =
     (case t s of (out, s') \<Rightarrow>
        let w = (if 0 = n then [] else wrapper_log (wrapper_outcome out));
            (x, l) = returning_result def out
        in ((x, w @ l), s'))"

section \<open>Invariants\<close>

definition waiting :: "'a pool \<Rightarrow> 'a list" where
  "waiting p = map fst (filter snd (sq_items (tasks p)))"

fun running_task :: "'a worker \<Rightarrow> 'a list" where
  "running_task (Running t) = [t]"
| "running_task _ = []"

definition running :: "'a pool \<Rightarrow> 'a list" where
  "running p = concat (map running_task (workers p))"

definition eofs_waiting :: "'a pool \<Rightarrow> nat" where
  "eofs_waiting p = length (filter (\<lambda>x. \<not> snd x) (sq_items (tasks p)))"

definition exited :: "'a pool \<Rightarrow> nat" where
  "exited p = length (filter (\<lambda>w. w = Exited) (workers p))"

fun eofs_pushed :: "nat \<Rightarrow> phase \<Rightarrow> nat" where
  "eofs_pushed n Open = 0"
| "eofs_pushed n (Closing k) = k"
| "eofs_pushed n Destroyed = n"

text \<open>In the queue, no task stands behind an end of file.\<close>

fun tasks_first :: "('a \<times> bool) list \<Rightarrow> bool" where
  "tasks_first [] = True"
| "tasks_first ((t, c) # xs) = (if c then tasks_first xs else (\<forall>x \<in> set xs. \<not> snd x))"

definition order_inv :: "'a pool \<Rightarrow> bool" where
  "order_inv p \<longleftrightarrow> started p @ waiting p = dispatched p
     \<and> mset (started p) = mset (finished p) + mset (running p)
     \<and> (num_workers p = 1 \<longrightarrow> started p = finished p @ running p)"

definition eof_inv :: "'a pool \<Rightarrow> bool" where
  "eof_inv p \<longleftrightarrow> tasks_first (sq_items (tasks p))
     \<and> eofs_waiting p + exited p = eofs_pushed (num_workers p) (owner p)
     \<and> (exited p > 0 \<longrightarrow> waiting p = [])
     \<and> eofs_pushed (num_workers p) (owner p) \<le> num_workers p
     \<and> (owner p = Destroyed \<longrightarrow> exited p = num_workers p)"

lemma tasks_first_snoc:
  "tasks_first xs \<Longrightarrow> tasks_first (xs @ [(t, False)])"
  "tasks_first xs \<Longrightarrow> \<forall>x \<in> set xs. snd x \<Longrightarrow> tasks_first (xs @ [(t, True)])"
  by (induction xs rule: tasks_first.induct) auto

lemma tasks_first_eofs: "\<forall>x \<in> set xs. \<not> snd x \<Longrightarrow> tasks_first xs"
  by (induction xs rule: tasks_first.induct) auto

lemma eofs_waiting_0: "eofs_waiting p = 0 \<longleftrightarrow> (\<forall>x \<in> set (sq_items (tasks p)). snd x)"
  by (auto simp: eofs_waiting_def filter_empty_conv)

text \<open>Changing the state of one worker.\<close>

lemma concat_update:
  "i < length ws \<Longrightarrow> mset (concat (map f (ws[i := w]))) + mset (f (ws ! i)) = mset (concat (map f ws)) + mset (f w)"
proof (induction ws arbitrary: i)
  case (Cons v ws)
  then show ?case by (cases i) (auto simp: ac_simps)
qed simp

lemma running_update:
  assumes "i < length ws" "ws ! i = v"
  shows "mset (concat (map running_task (ws[i := w]))) + mset (running_task v)
    = mset (concat (map running_task ws)) + mset (running_task w)"
  using concat_update [of i ws running_task w] assms by simp

lemma filter_update:
  "i < length ws \<Longrightarrow> \<not> P (ws ! i) \<Longrightarrow>
     length (filter P (ws[i := w])) = length (filter P ws) + (if P w then 1 else 0)"
  using length_filter_update [of i ws P w] by simp

lemma length_filter_all: "length (filter P xs) = length xs \<longleftrightarrow> (\<forall>x \<in> set xs. P x)"
  by (metis filter_True length_filter_less less_irrefl)

lemma one_worker: "length ws = 1 \<Longrightarrow> i < length ws \<Longrightarrow> i = 0 \<and> ws = [ws ! 0]"
  by (cases ws) auto

lemma thread_function_facts:
  "running_task (thread_function tac) = start_of tac"
  "thread_function tac = Exited \<longleftrightarrow> \<not> snd tac"
  by (cases tac; simp add: start_of_def)+

lemmas pool_defs = order_inv_def eof_inv_def waiting_def running_def eofs_waiting_def exited_def num_workers_def

lemma pstep_order: "pstep p p' \<Longrightarrow> order_inv p \<Longrightarrow> order_inv p'"
proof (induction rule: pstep.induct)
  case (worker_pop i p tac q)
  have it: "sq_items (tasks p) = tac # sq_items q"
    by (rule sq.take_Some [OF worker_pop(3)])
  have m: "mset (concat (map running_task ((workers p)[i := thread_function tac])))
      = mset (concat (map running_task (workers p))) + mset (start_of tac)"
    using running_update [of i "workers p" Idle "thread_function tac"] worker_pop(1,2)
    by (simp add: num_workers_def thread_function_facts)
  have one: "concat (map running_task ((workers p)[i := thread_function tac])) = concat (map running_task (workers p)) @ start_of tac"
    if "num_workers p = 1"
    using one_worker [of "workers p" i] worker_pop(1,2) that
    by (cases "workers p") (auto simp: num_workers_def thread_function_facts)
  show ?case
    using worker_pop(4) m one it by (auto simp: pool_defs start_of_def)
next
  case (worker_done i p t)
  have m: "mset (concat (map running_task ((workers p)[i := Idle]))) + {#t#}
      = mset (concat (map running_task (workers p)))"
    using running_update [of i "workers p" "Running t" Idle] worker_done(1,2)
    by (simp add: num_workers_def)
  have one: "concat (map running_task (workers p)) = [t]" "concat (map running_task ((workers p)[i := Idle])) = []"
    if "num_workers p = 1"
    using one_worker [of "workers p" i] worker_done(1,2) that
    by (cases "workers p"; auto simp: num_workers_def)+
  show ?case
    using worker_done(3) m one by (auto simp: pool_defs union_ac)
qed (auto simp: pool_defs)

lemma pstep_eof: "pstep p p' \<Longrightarrow> eof_inv p \<Longrightarrow> eof_inv p'"
proof (induction rule: pstep.induct)
  case (dispatch_task p t)
  then have "eofs_waiting p = 0" "exited p = 0"
    by (simp_all add: eof_inv_def)
  with dispatch_task show ?case
    using eofs_waiting_0 [of p] by (auto simp: pool_defs intro: tasks_first_snoc)
next
  case (push_eof p k)
  then show ?case by (auto simp: pool_defs intro: tasks_first_snoc)
next
  case (joined p)
  then have "exited p = num_workers p"
    using length_filter_all [of "\<lambda>w. w = Exited" "workers p"] by (simp add: exited_def num_workers_def)
  with joined show ?case by (simp add: eof_inv_def) (simp add: pool_defs)
next
  case (worker_pop i p tac q)
  have it: "sq_items (tasks p) = tac # sq_items q"
    by (rule sq.take_Some [OF worker_pop(3)])
  have e: "length (filter (\<lambda>w. w = Exited) ((workers p)[i := thread_function tac]))
      = length (filter (\<lambda>w. w = Exited) (workers p)) + (if snd tac then 0 else 1)"
    using filter_update [of i "workers p" "\<lambda>w. w = Exited" "thread_function tac"] worker_pop(1,2)
    by (simp add: num_workers_def thread_function_facts)
  have d: "owner p \<noteq> Destroyed"
    using worker_pop(1,2,4) length_filter_all [of "\<lambda>w. w = Exited" "workers p"]
    by (auto simp: eof_inv_def exited_def num_workers_def dest!: nth_mem)
  show ?case
    using worker_pop(4) e it d by (cases tac; cases "snd tac") (auto simp: pool_defs tasks_first_eofs)
next
  case (worker_done i p t)
  have e: "length (filter (\<lambda>w. w = Exited) ((workers p)[i := Idle])) = length (filter (\<lambda>w. w = Exited) (workers p))"
    using filter_update [of i "workers p" "\<lambda>w. w = Exited" Idle] worker_done(1,2)
    by (simp add: num_workers_def)
  show ?case using worker_done(3) e by (simp add: pool_defs)
qed (auto simp: pool_defs)

definition pool_inv :: "'a pool \<Rightarrow> bool" where
  "pool_inv p \<longleftrightarrow> order_inv p \<and> eof_inv p"

lemma preach_inv: "preach p0 p \<Longrightarrow> pool_inv p0 \<Longrightarrow> pool_inv p"
  by (induction rule: preach.induct) (auto simp: pool_inv_def intro: pstep_order pstep_eof)

lemma pstep_workers: "pstep p p' \<Longrightarrow> num_workers p' = num_workers p"
  by (induction rule: pstep.induct) (auto simp: num_workers_def)

lemma preach_workers: "preach p0 p \<Longrightarrow> num_workers p = num_workers p0"
  by (induction rule: preach.induct) (auto dest: pstep_workers)

lemma new_pool_inv: "new_thread_pool e n = Inr p \<Longrightarrow> pool_inv p \<and> int (num_workers p) = n"
  by (auto simp: new_thread_pool_def new_safe_queue_def sq_long_max_def verify_def rbind_Inr_iff pool_inv_def
      pool_defs filter_empty_conv split: if_splits)

section \<open>Destruction\<close>

text \<open>What is left to do once the owner has begun to destroy the pool.\<close>

fun owner_work :: "nat \<Rightarrow> phase \<Rightarrow> nat" where
  "owner_work n Open = 0"
| "owner_work n (Closing k) = 3 * (n - k) + 1"
| "owner_work n Destroyed = 0"

definition work_left :: "'a pool \<Rightarrow> nat" where
  "work_left p = owner_work (num_workers p) (owner p) + 2 * length (sq_items (tasks p)) + length (running p)"

lemma length_running_update:
  assumes "i < length ws" "ws ! i = v"
  shows "length (concat (map running_task (ws[i := w]))) + length (running_task v)
    = length (concat (map running_task ws)) + length (running_task w)"
  using arg_cong [OF running_update [OF assms, of w], of size] by simp

lemma work_left_decreases: "pstep p p' \<Longrightarrow> owner p \<noteq> Open \<Longrightarrow> work_left p' < work_left p"
proof (induction rule: pstep.induct)
  case (worker_pop i p tac q)
  have "length (sq_items (tasks p)) = Suc (length (sq_items q))"
    by (simp add: sq.take_Some [OF worker_pop(3)])
  moreover have "length (running_task (thread_function tac)) \<le> 1"
    by (simp add: thread_function_facts start_of_def)
  ultimately show ?case
    using length_running_update [of i "workers p" Idle "thread_function tac"] worker_pop(1,2)
    by (simp add: work_left_def running_def num_workers_def)
next
  case (worker_done i p t)
  then show ?case
    using length_running_update [of i "workers p" "Running t" Idle]
    by (simp add: work_left_def running_def num_workers_def)
qed (simp_all add: work_left_def running_def num_workers_def)

lemma closing_progress:
  assumes "pool_inv p" "owner p = Closing k"
  shows "\<exists>p'. pstep p p'"
proof (cases "k < num_workers p")
  case True
  then show ?thesis using pstep.push_eof [OF assms(2)] by blast
next
  case False
  then have k: "k = num_workers p"
    using assms by (simp add: pool_inv_def eof_inv_def)
  show ?thesis
  proof (cases "\<forall>w \<in> set (workers p). w = Exited")
    case True
    then show ?thesis using pstep.joined [of p] assms(2) k by blast
  next
    case False
    then obtain i where i: "i < num_workers p" "workers p ! i \<noteq> Exited"
      by (metis in_set_conv_nth num_workers_def)
    show ?thesis
    proof (cases "workers p ! i")
      case Idle
      have "exited p < num_workers p"
        using False length_filter_all [of "\<lambda>w. w = Exited" "workers p"] length_filter_le [of "\<lambda>w. w = Exited" "workers p"]
        by (auto simp: exited_def num_workers_def le_less)
      then have "eofs_waiting p \<noteq> 0"
        using assms k by (simp add: pool_inv_def eof_inv_def)
      then have "sq_take (tasks p) \<noteq> None"
        using sq.take_None [of "tasks p"] by (auto simp: eofs_waiting_def)
      then obtain tac q where "sq_take (tasks p) = Some (tac, q)" by auto
      then show ?thesis using pstep.worker_pop [OF i(1) Idle] by blast
    next
      case (Running t)
      then show ?thesis using pstep.worker_done [OF i(1)] by blast
    qed (use i in simp)
  qed
qed

section \<open>Properties\<close>

text \<open>C7: When the destructor of a pool has returned, every task that was dispatched has been executed
  exactly once and to its end, however the workers have interleaved; and at every moment the tasks
  that have been started, in the order of their start, followed by those that wait, are the
  dispatched ones in the order of their dispatch.\<close>

theorem pool_executes_every_task_once:
  assumes "new_thread_pool e n = Inr p0" "preach p0 p"
  shows "started p @ waiting p = dispatched p
    \<and> mset (finished p) \<subseteq># mset (dispatched p)
    \<and> (owner p = Destroyed \<longrightarrow> n > 0 \<longrightarrow> mset (finished p) = mset (dispatched p))"
proof -
  have i: "pool_inv p" "int (num_workers p) = n"
    using preach_inv [OF assms(2)] preach_workers [OF assms(2)] new_pool_inv [OF assms(1)] by auto
  have o: "started p @ waiting p = dispatched p" "mset (started p) = mset (finished p) + mset (running p)"
    using i(1) by (simp_all add: pool_inv_def order_inv_def)
  have d: "mset (dispatched p) = mset (finished p) + mset (running p) + mset (waiting p)"
    using o(2) by (simp add: o(1) [symmetric])
  moreover have "running p = [] \<and> waiting p = []" if "owner p = Destroyed" "n > 0"
  proof -
    have "exited p = num_workers p" "num_workers p > 0"
      using i that by (auto simp: pool_inv_def eof_inv_def)
    then have "\<forall>w \<in> set (workers p). w = Exited" "waiting p = []"
      using i length_filter_all [of "\<lambda>w. w = Exited" "workers p"]
      by (auto simp: pool_inv_def eof_inv_def exited_def num_workers_def)
    then show ?thesis by (auto simp: running_def)
  qed
  ultimately show ?thesis using o(1) by auto
qed

text \<open>A pool of one worker that gets one task, and its destruction.\<close>

definition sample_pool :: "nat pool" where
  "sample_pool = \<lparr>tasks = \<lparr>sq_items = [], sq_limit = sq_long_max, sq_bounded = False\<rparr>, workers = [Idle],
     empty_task = 0, owner = Open, dispatched = [], started = [], finished = []\<rparr>"

lemma sample_pool_new: "new_thread_pool 0 1 = Inr sample_pool"
  by (simp add: new_thread_pool_def new_safe_queue_def sample_pool_def sq_long_max_def)

definition sample_state :: "(nat \<times> bool) list \<Rightarrow> nat worker \<Rightarrow> phase \<Rightarrow> nat list \<Rightarrow> nat list \<Rightarrow> nat pool" where
  "sample_state q w ph st fin = sample_pool\<lparr>tasks := \<lparr>sq_items = q, sq_limit = sq_long_max, sq_bounded = False\<rparr>,
     workers := [w], owner := ph, dispatched := [7], started := st, finished := fin\<rparr>"

lemmas sample_defs = sample_state_def sample_pool_def num_workers_def sq_put_def sq_take_def start_of_def

lemma sample_closing:
  "\<exists>p. preach sample_pool p \<and> owner p = Closing 0 \<and> started p = [7] \<and> p = sample_state [] Idle (Closing 0) [7] [7]"
proof -
  have "pstep sample_pool (sample_state [(7, True)] Idle Open [] [])"
    using pstep.dispatch_task [of sample_pool 7] by (simp add: sample_defs)
  moreover have "pstep (sample_state [(7, True)] Idle Open [] []) (sample_state [] (Running 7) Open [7] [])"
    using pstep.worker_pop [of 0 "sample_state [(7, True)] Idle Open [] []"] by (simp add: sample_defs)
  moreover have "pstep (sample_state [] (Running 7) Open [7] []) (sample_state [] Idle Open [7] [7])"
    using pstep.worker_done [of 0 "sample_state [] (Running 7) Open [7] []" 7] by (simp add: sample_defs)
  moreover have "pstep (sample_state [] Idle Open [7] [7]) (sample_state [] Idle (Closing 0) [7] [7])"
    using pstep.begin_close [of "sample_state [] Idle Open [7] [7]"] by (simp add: sample_defs)
  ultimately have "preach sample_pool (sample_state [] Idle (Closing 0) [7] [7])"
    by (meson preach.intros)
  then show ?thesis by (intro exI [of _ "sample_state [] Idle (Closing 0) [7] [7]"]) (simp add: sample_defs)
qed

lemma sample_destroyed:
  "\<exists>p. preach sample_pool p \<and> owner p = Destroyed \<and> finished p = [7]"
proof -
  obtain p where p: "preach sample_pool p" "p = sample_state [] Idle (Closing 0) [7] [7]"
    using sample_closing by blast
  have "pstep p (sample_state [(0, False)] Idle (Closing 1) [7] [7])"
    using pstep.push_eof [of p 0] by (simp add: p(2) sample_defs)
  moreover have "pstep (sample_state [(0, False)] Idle (Closing 1) [7] [7]) (sample_state [] Exited (Closing 1) [7] [7])"
    using pstep.worker_pop [of 0 "sample_state [(0, False)] Idle (Closing 1) [7] [7]"] by (simp add: sample_defs)
  moreover have "pstep (sample_state [] Exited (Closing 1) [7] [7]) (sample_state [] Exited Destroyed [7] [7])"
    using pstep.joined [of "sample_state [] Exited (Closing 1) [7] [7]"] by (simp add: sample_defs)
  ultimately have "preach sample_pool (sample_state [] Exited Destroyed [7] [7])"
    using p(1) by (meson preach.intros)
  then show ?thesis by (intro exI [of _ "sample_state [] Exited Destroyed [7] [7]"]) (simp add: sample_defs)
qed

lemma pool_executes_every_task_once_witness:
  "\<exists>p. preach sample_pool p \<and> owner p = Destroyed \<and> mset (finished p) = mset (dispatched p) \<and> dispatched p \<noteq> []"
proof -
  obtain p where p: "preach sample_pool p" "owner p = Destroyed" "finished p = [7]"
    using sample_destroyed by blast
  then have "mset (finished p) = mset (dispatched p)"
    using pool_executes_every_task_once [OF sample_pool_new p(1)] by simp
  with p show ?thesis by (intro exI [of _ p]) auto
qed

text \<open>With one worker the tasks are also finished in the order of their dispatch: at every moment
  the finished ones, the one that runs and the waiting ones are the dispatched ones, in that
  order.\<close>

theorem single_worker_is_fifo:
  assumes "new_thread_pool e 1 = Inr p0" "preach p0 p"
  shows "finished p @ running p @ waiting p = dispatched p \<and> length (running p) \<le> 1"
proof -
  have i: "pool_inv p" "num_workers p = 1"
    using preach_inv [OF assms(2)] preach_workers [OF assms(2)] new_pool_inv [OF assms(1)] by auto
  then obtain w where "workers p = [w]"
    by (auto simp: num_workers_def length_Suc_conv)
  then have "length (running p) \<le> 1"
    by (cases w) (simp_all add: running_def)
  with i show ?thesis by (auto simp: pool_inv_def order_inv_def)
qed

lemma single_worker_is_fifo_witness:
  "\<exists>p. preach sample_pool p \<and> finished p = [7] \<and> [7] @ running p @ waiting p = dispatched p"
  using sample_destroyed single_worker_is_fifo [OF sample_pool_new] by metis

text \<open>C21: The destructor ends. Once it has begun, no state of the pool is stuck before the destructor
  has returned, and every step of the owner or of a worker makes what is left to do smaller, so that
  it returns after finitely many steps if every task does.\<close>

theorem pool_destructor_terminates:
  assumes "new_thread_pool e n = Inr p0" "preach p0 p" "owner p = Closing k"
  shows "(\<exists>p'. pstep p p') \<and> (\<forall>p'. pstep p p' \<longrightarrow> work_left p' < work_left p)"
proof
  show "\<exists>p'. pstep p p'"
    using closing_progress [OF preach_inv [OF assms(2)] assms(3)] new_pool_inv [OF assms(1)] by simp
  have "owner p \<noteq> Open" using assms(3) by simp
  then show "\<forall>p'. pstep p p' \<longrightarrow> work_left p' < work_left p"
    using work_left_decreases [of p] by blast
qed

lemma pool_destructor_terminates_witness:
  "\<exists>p. owner p = Closing 0 \<and> started p = [7 :: nat] \<and> (\<exists>p'. pstep p p' \<and> work_left p' < work_left p)"
proof -
  obtain p where "preach sample_pool p" "owner p = Closing 0" "started p = [7]"
    using sample_closing by blast
  then show ?thesis
    using pool_destructor_terminates [OF sample_pool_new] by metis
qed

text \<open>\<open>dispatch_returning\<close> never lets an exception of the task out. It returns the value of the
  task, or the default value if the task throws, and then logs one line that says so; it does so
  with and without workers.\<close>

theorem dispatch_returning_spec:
  "dispatch_returning n def t s =
     (case t s of
        (Value x, s') \<Rightarrow> ((x, []), s')
      | (Exception e, s') \<Rightarrow> ((def, [''DISPATCH: Error in returning task: '' @ what e]), s')
      | (Other_exception, s') \<Rightarrow> ((def, [''DISPATCH: Unknown error in returning task'']), s'))"
  by (auto simp: dispatch_returning_def returning_result_def wrapper_log_def wrapper_outcome_def
      split: prod.splits outcome.splits)

end
