(* ===== verification/Pool_Moves.thy ===== *)
theory Pool_Moves
  imports Dispatch
begin

text \<open>
  Ownership of the workers of \<^verbatim>\<open>nanonet::dispatch::thread_pool\<close>: what constructing, moving, assigning and
  destroying pool objects does with the queues, which are on the heap, and with the threads, each of
  which keeps a reference to the queue of the pool that started it. How the workers of one pool and
  its destructor behave is in theory Dispatch.
\<close>

section \<open>Pool objects\<close>

text \<open>A pool object: the address of its queue, if it has not been moved from, and its threads.\<close>

record pool_object =
  po_tasks :: "nat option"
  po_workers :: "nat list"

definition moved_from_pool :: pool_object where
  "moved_from_pool = \<lparr>po_tasks = None, po_workers = []\<rparr>"

text \<open>
  A program with a number of places for pools. Queues and threads are numbered in the order of their
  creation; \<open>queue_of\<close> is the queue that each thread was started with.
\<close>

record pools =
  pools_at :: "pool_object option list"
  queue_of :: "nat list"
  num_queues :: nat
  freed :: "nat list"
  joined :: "nat list"

definition no_pools :: "nat \<Rightarrow> pools" where
  "no_pools n = \<lparr>pools_at = replicate n None, queue_of = [], num_queues = 0, freed = [], joined = []\<rparr>"

definition pool_construct :: "nat \<Rightarrow> int \<Rightarrow> pools \<Rightarrow> pools result" where
  "pool_construct i n s =
     rbind (verify (n \<ge> 0) ''thread pool: number of worker threads must be >= 0'') (\<lambda>_.
       let q = num_queues s; t = length (queue_of s)
       in Inr (s\<lparr>pools_at := (pools_at s)[i := Some \<lparr>po_tasks = Some q, po_workers = [t..<t + nat n]\<rparr>],
                queue_of := queue_of s @ replicate (nat n) q, num_queues := q + 1\<rparr>))"

definition pool_move_construct :: "nat \<Rightarrow> nat \<Rightarrow> pools \<Rightarrow> pools result" where
  "pool_move_construct i j s =
     Inr (s\<lparr>pools_at := (pools_at s)[i := pools_at s ! j, j := Some moved_from_pool]\<rparr>)"

text \<open>
  The defaulted move assignment works member by member: the queue of the left-hand side is freed,
  and its vector of threads is replaced. Destroying a thread that has not been joined ends the
  program.
\<close>

definition pool_move_assign :: "nat \<Rightarrow> nat \<Rightarrow> pool_object \<Rightarrow> pools \<Rightarrow> pools result" where
  "pool_move_assign i j lhs s =
     (if po_workers lhs \<noteq> [] then Inl (Abort ''std::terminate'')
      else Inr (s\<lparr>pools_at := (pools_at s)[i := pools_at s ! j, j := Some moved_from_pool],
                 freed := freed s @ (case po_tasks lhs of None \<Rightarrow> [] | Some q \<Rightarrow> [q])\<rparr>))"

text \<open>The destructor joins the workers, and then the members are destroyed.\<close>

definition pool_destroy :: "nat \<Rightarrow> pool_object \<Rightarrow> pools \<Rightarrow> pools result" where
  "pool_destroy i p s =
     (case po_tasks p of
        None \<Rightarrow>
          if po_workers p \<noteq> [] then Inl (Abort ''std::terminate'')
          else Inr (s\<lparr>pools_at := (pools_at s)[i := None]\<rparr>)
      | Some q \<Rightarrow>
          Inr (s\<lparr>pools_at := (pools_at s)[i := None], joined := joined s @ po_workers p, freed := freed s @ [q]\<rparr>))"

text \<open>A program; a constructor works on an empty place, the other operations on objects. A pool is not
  moved into itself.\<close>

datatype pool_op =
    Pool_construct nat int | Pool_move nat nat | Pool_assign nat nat | Pool_destroy nat

definition place :: "nat \<Rightarrow> pools \<Rightarrow> pool_object option" where
  "place i s = (if i < length (pools_at s) then pools_at s ! i else None)"

fun pool_do :: "pool_op \<Rightarrow> pools \<Rightarrow> pools result" where
  "pool_do (Pool_construct i n) s =
     (if i < length (pools_at s) \<and> place i s = None then pool_construct i n s
      else Inl (Undefined ''construction over an object''))"
| "pool_do (Pool_move i j) s =
     (if i < length (pools_at s) \<and> place i s = None \<and> place j s \<noteq> None then pool_move_construct i j s
      else Inl (Undefined ''construction over an object''))"
| "pool_do (Pool_assign i j) s =
     (case place i s of
        Some lhs \<Rightarrow> if place j s \<noteq> None \<and> i \<noteq> j then pool_move_assign i j lhs s
                    else Inl (Undefined ''assignment without an object'')
      | None \<Rightarrow> Inl (Undefined ''assignment without an object''))"
| "pool_do (Pool_destroy i) s =
     (case place i s of
        Some p \<Rightarrow> pool_destroy i p s
      | None \<Rightarrow> Inl (Undefined ''destruction without an object''))"

fun pool_program :: "pool_op list \<Rightarrow> pools \<Rightarrow> pools result" where
  "pool_program [] s = Inr s"
| "pool_program (x # xs) s = rbind (pool_do x s) (pool_program xs)"

section \<open>The invariant\<close>

fun threads_of :: "pool_object option \<Rightarrow> nat list" where
  "threads_of None = []"
| "threads_of (Some p) = po_workers p"

fun queues_of :: "pool_object option \<Rightarrow> nat list" where
  "queues_of None = []"
| "queues_of (Some p) = (case po_tasks p of None \<Rightarrow> [] | Some q \<Rightarrow> [q])"

definition owned_threads :: "pools \<Rightarrow> nat list" where
  "owned_threads s = concat (map threads_of (pools_at s))"

definition owned_queues :: "pools \<Rightarrow> nat list" where
  "owned_queues s = concat (map queues_of (pools_at s))"

text \<open>Every thread has been joined once or is owned by one object, whose queue it uses; every queue has
  been freed once or is owned by one object.\<close>

definition pools_inv :: "pools \<Rightarrow> bool" where
  "pools_inv s \<longleftrightarrow> mset (joined s) + mset (owned_threads s) = mset [0..<length (queue_of s)]
     \<and> mset (freed s) + mset (owned_queues s) = mset [0..<num_queues s]
     \<and> (\<forall>p. Some p \<in> set (pools_at s) \<longrightarrow>
          (\<forall>t \<in> set (po_workers p). t < length (queue_of s) \<and> po_tasks p = Some (queue_of s ! t)))"

lemma concat_nth_update:
  "i < length xs \<Longrightarrow>
     mset (concat (map f (xs[i := x]))) + mset (f (xs ! i)) = mset (concat (map f xs)) + mset (f x)"
  by (rule concat_update)

lemma cancel_middle:
  fixes a b :: "'a multiset"
  assumes "a1 + i = a + j" "b + j = a1 + y"
  shows "b + i = a + y"
proof -
  have "b + i + j = (b + j) + i" by (simp only: ac_simps)
  also have "\<dots> = (a1 + i) + y" unfolding assms(2) by (simp only: ac_simps)
  also have "\<dots> = a + y + j" unfolding assms(1) by (simp only: ac_simps)
  finally show ?thesis by simp
qed

lemma concat_swap:
  assumes "i < length xs" "j < length xs" "i \<noteq> j"
  shows "mset (concat (map f (xs[i := xs ! j, j := y]))) + mset (f (xs ! i)) = mset (concat (map f xs)) + mset (f y)"
proof -
  let ?ys = "xs[i := xs ! j]"
  have "mset (concat (map f ?ys)) + mset (f (xs ! i)) = mset (concat (map f xs)) + mset (f (xs ! j))"
    by (rule concat_nth_update [OF assms(1)])
  moreover have "mset (concat (map f (?ys[j := y]))) + mset (f (xs ! j)) = mset (concat (map f ?ys)) + mset (f y)"
    using concat_nth_update [of j ?ys f y] assms by simp
  ultimately show ?thesis by (rule cancel_middle)
qed

lemma placeD: "place i s = Some p \<Longrightarrow> i < length (pools_at s) \<and> pools_at s ! i = Some p"
  by (auto simp: place_def split: if_splits)

lemma construct_inv:
  assumes "pools_inv s" "i < length (pools_at s)" "place i s = None" "pool_construct i n s = Inr s'"
  shows "pools_inv s'"
proof -
  let ?q = "num_queues s" and ?t = "length (queue_of s)" and ?n = "nat n"
  have s': "s' = s\<lparr>pools_at := (pools_at s)[i := Some \<lparr>po_tasks = Some ?q, po_workers = [?t..<?t + ?n]\<rparr>],
      queue_of := queue_of s @ replicate ?n ?q, num_queues := ?q + 1\<rparr>"
    using assms(4) by (auto simp: pool_construct_def verify_def Let_def rbind_Inr_iff split: if_splits)
  have none: "pools_at s ! i = None" using assms(2,3) by (simp add: place_def)
  have t: "mset (owned_threads s') = mset (owned_threads s) + mset [?t..<?t + ?n]"
    using concat_nth_update [OF assms(2), of threads_of "Some \<lparr>po_tasks = Some ?q, po_workers = [?t..<?t + ?n]\<rparr>"] none
    by (simp add: owned_threads_def s')
  have q: "mset (owned_queues s') = mset (owned_queues s) + {#?q#}"
    using concat_nth_update [OF assms(2), of queues_of "Some \<lparr>po_tasks = Some ?q, po_workers = [?t..<?t + ?n]\<rparr>"] none
    by (simp add: owned_queues_def s')
  have "[0..<?t + ?n] = [0..<?t] @ [?t..<?t + ?n]" using upt_add_eq_append [of 0 ?t ?n] by simp
  then have "mset (joined s') + mset (owned_threads s') = mset [0..<length (queue_of s')]"
    using assms(1) unfolding t by (simp add: pools_inv_def s')
  moreover have "mset (freed s') + mset (owned_queues s') = mset [0..<num_queues s']"
    using assms(1) unfolding q by (simp add: pools_inv_def s')
  moreover have "t < length (queue_of s') \<and> po_tasks p = Some (queue_of s' ! t)"
    if "Some p \<in> set (pools_at s')" "t \<in> set (po_workers p)" for p t
  proof -
    have "p = \<lparr>po_tasks = Some ?q, po_workers = [?t..<?t + ?n]\<rparr> \<or> Some p \<in> set (pools_at s)"
      using that(1) set_update_subset_insert [of "pools_at s" i] by (auto simp: s')
    then show ?thesis using that(2) assms(1) by (auto simp: pools_inv_def s' nth_append)
  qed
  ultimately show ?thesis by (simp add: pools_inv_def)
qed

text \<open>An operation that creates no thread and no queue, and loses none.\<close>

lemma pools_inv_step:
  assumes "pools_inv s" "queue_of s' = queue_of s" "num_queues s' = num_queues s"
    and "mset (owned_threads s) = mset (owned_threads s') + a" "mset (joined s') = mset (joined s) + a"
    and "mset (owned_queues s) = mset (owned_queues s') + b" "mset (freed s') = mset (freed s) + b"
    and "\<And>p t. Some p \<in> set (pools_at s') \<Longrightarrow> t \<in> set (po_workers p) \<Longrightarrow> Some p \<in> set (pools_at s)"
  shows "pools_inv s'"
  using assms(1,8) unfolding pools_inv_def assms(2-7)
  by (auto simp: union_assoc union_commute [of a] union_commute [of b])

lemma move_inv:
  assumes "pools_inv s" "i < length (pools_at s)" "j < length (pools_at s)" "i \<noteq> j"
    and "threads_of (pools_at s ! i) = []"
    and "s' = s\<lparr>pools_at := (pools_at s)[i := pools_at s ! j, j := Some moved_from_pool],
           freed := freed s @ queues_of (pools_at s ! i)\<rparr>"
  shows "pools_inv s'"
proof -
  have t: "mset (owned_threads s) = mset (owned_threads s') + {#}"
    using concat_swap [OF assms(2-4), of threads_of "Some moved_from_pool"] assms(5)
    by (simp add: owned_threads_def assms(6) moved_from_pool_def)
  have q: "mset (owned_queues s) = mset (owned_queues s') + mset (queues_of (pools_at s ! i))"
    using concat_swap [OF assms(2-4), of queues_of "Some moved_from_pool"]
    by (simp add: owned_queues_def assms(6) moved_from_pool_def)
  show ?thesis
  proof (rule pools_inv_step [OF assms(1) _ _ t _ q])
    fix p t
    assume p: "Some p \<in> set (pools_at s')" "t \<in> set (po_workers p)"
    have "set (pools_at s') \<subseteq> insert (Some moved_from_pool) (insert (pools_at s ! j) (set (pools_at s)))"
      using set_update_subset_insert [of "(pools_at s)[i := pools_at s ! j]" j "Some moved_from_pool"]
        set_update_subset_insert [of "pools_at s" i "pools_at s ! j"]
      by (auto simp: assms(6))
    with p assms(3) show "Some p \<in> set (pools_at s)" by (auto simp: moved_from_pool_def)
  qed (simp_all add: assms(6))
qed

lemma destroy_inv:
  assumes "pools_inv s" "place i s = Some p" "pool_destroy i p s = Inr s'"
  shows "pools_inv s'"
proof -
  note i = placeD [OF assms(2)]
  have w: "po_workers p = []" if "po_tasks p = None"
    using assms(3) that by (auto simp: pool_destroy_def split: if_splits)
  have s': "s' = s\<lparr>pools_at := (pools_at s)[i := None], joined := joined s @ po_workers p, freed := freed s @ queues_of (Some p)\<rparr>"
    using assms(3) w by (auto simp: pool_destroy_def split: option.splits if_splits)
  have t: "mset (owned_threads s) = mset (owned_threads s') + mset (po_workers p)"
    using concat_nth_update [of i "pools_at s" threads_of None] i by (simp add: owned_threads_def s')
  have q: "mset (owned_queues s) = mset (owned_queues s') + mset (queues_of (Some p))"
    using concat_nth_update [of i "pools_at s" queues_of None] i by (simp add: owned_queues_def s')
  show ?thesis
  proof (rule pools_inv_step [OF assms(1) _ _ t _ q])
    show "Some r \<in> set (pools_at s)" if "Some r \<in> set (pools_at s')" for r
      using that set_update_subset_insert [of "pools_at s" i None] by (auto simp: s')
  qed (simp_all add: s')
qed

lemma pool_do_inv:
  assumes "pools_inv s" "pool_do x s = Inr s'"
  shows "pools_inv s'"
proof (cases x)
  case (Pool_construct i n)
  then show ?thesis using assms construct_inv by (auto split: if_splits)
next
  case (Pool_move i j)
  with assms(2) obtain p where ij: "i < length (pools_at s)" "place i s = None" "place j s = Some p"
    "s' = s\<lparr>pools_at := (pools_at s)[i := pools_at s ! j, j := Some moved_from_pool]\<rparr>"
    by (auto simp: pool_move_construct_def split: if_splits)
  have e: "pools_at s ! i = None" using ij(1,2) by (simp add: place_def)
  show ?thesis
  proof (rule move_inv [OF assms(1) ij(1)])
    show "j < length (pools_at s)" "i \<noteq> j" using placeD [OF ij(3)] e by auto
  qed (simp_all add: e ij(4))
next
  case (Pool_assign i j)
  with assms(2) obtain lhs p where ij: "place i s = Some lhs" "place j s = Some p" "i \<noteq> j"
    "pool_move_assign i j lhs s = Inr s'"
    by (auto split: option.splits if_splits)
  show ?thesis
  proof (rule move_inv [OF assms(1)])
    show "i < length (pools_at s)" "j < length (pools_at s)" "i \<noteq> j"
      using placeD [OF ij(1)] placeD [OF ij(2)] ij(3) by auto
  qed (use placeD [OF ij(1)] ij(4) in \<open>auto simp: pool_move_assign_def split: if_splits\<close>)
next
  case (Pool_destroy i)
  then show ?thesis using assms destroy_inv by (auto split: option.splits)
qed

lemma pool_program_inv: "pools_inv s \<Longrightarrow> pool_program xs s = Inr s' \<Longrightarrow> pools_inv s'"
  by (induction xs arbitrary: s) (auto simp: rbind_Inr_iff dest: pool_do_inv)

lemma no_pools_inv: "pools_inv (no_pools n)"
  by (auto simp: pools_inv_def no_pools_def owned_threads_def owned_queues_def concat_eq_Nil_conv in_set_conv_nth)

section \<open>Properties\<close>

text \<open>C23: Ownership of worker threads. Whatever pools a program constructs, moves, assigns and destroys,
  as long as it runs every thread that was ever started has been joined exactly once or belongs to
  exactly one pool object, and the queue that a thread works on is not freed before the thread
  has been joined; so once no pool object is left all threads have been joined and all queues
  freed. Assigning to a pool that has workers ends the program.\<close>

theorem pool_moves_keep_workers:
  assumes "pool_program xs (no_pools n) = Inr s"
  shows "mset (joined s) + mset (concat (map threads_of (pools_at s))) = mset [0..<length (queue_of s)]
    \<and> (\<forall>t < length (queue_of s). t \<notin> set (joined s) \<longrightarrow> queue_of s ! t \<notin> set (freed s))
    \<and> ((\<forall>p \<in> set (pools_at s). p = None) \<longrightarrow>
         mset (joined s) = mset [0..<length (queue_of s)] \<and> mset (freed s) = mset [0..<num_queues s])
    \<and> (\<forall>i j lhs. place i s = Some lhs \<and> place j s \<noteq> None \<and> i \<noteq> j \<and> po_workers lhs \<noteq> [] \<longrightarrow>
         pool_do (Pool_assign i j) s = Inl (Abort ''std::terminate''))"
proof (intro conjI impI allI)
  have inv: "pools_inv s" by (rule pool_program_inv [OF no_pools_inv assms])
  then show j: "mset (joined s) + mset (concat (map threads_of (pools_at s))) = mset [0..<length (queue_of s)]"
    by (simp add: pools_inv_def owned_threads_def)
  show "queue_of s ! t \<notin> set (freed s)" if "t < length (queue_of s)" "t \<notin> set (joined s)" for t
  proof -
    have "t \<in># mset (joined s) + mset (concat (map threads_of (pools_at s)))" using that(1) unfolding j by simp
    with that(2) have "t \<in> set (concat (map threads_of (pools_at s)))" by auto
    then obtain o1 where o1: "o1 \<in> set (pools_at s)" "t \<in> set (threads_of o1)" by auto
    have "o1 \<noteq> None"
    proof
      assume "o1 = None"
      with o1(2) show False by simp
    qed
    then obtain p where "o1 = Some p" by blast
    with o1 have p: "Some p \<in> set (pools_at s)" "t \<in> set (po_workers p)"
      by simp_all
    then have "po_tasks p = Some (queue_of s ! t)" using inv by (auto simp: pools_inv_def)
    then have "queue_of s ! t \<in> set (queues_of (Some p))" by simp
    with p(1) have "queue_of s ! t \<in> set (owned_queues s)" by (force simp: owned_queues_def)
    moreover have "distinct (freed s @ owned_queues s)"
      using inv mset_eq_imp_distinct_iff [of "freed s @ owned_queues s" "[0..<num_queues s]"]
      by (simp add: pools_inv_def)
    ultimately show ?thesis by auto
  qed
  assume "\<forall>p \<in> set (pools_at s). p = None"
  then have "owned_threads s = []" "owned_queues s = []"
    by (auto simp: owned_queues_def owned_threads_def concat_eq_Nil_conv)
  then show "mset (joined s) = mset [0..<length (queue_of s)]" "mset (freed s) = mset [0..<num_queues s]"
    using inv by (simp_all add: pools_inv_def)
qed (auto simp: pool_move_assign_def)

lemma pool_moves_keep_workers_witness:
  "\<exists>s. pool_program [Pool_construct 0 2, Pool_move 1 0, Pool_construct 2 1, Pool_assign 0 2, Pool_destroy 0, Pool_destroy 1,
          Pool_destroy 2] (no_pools 3) = Inr s
     \<and> mset (joined s) = mset [0..<length (queue_of s)] \<and> joined s = [2, 0, 1]"
proof -
  let ?xs = "[Pool_construct 0 2, Pool_move 1 0, Pool_construct 2 1, Pool_assign 0 2, Pool_destroy 0, Pool_destroy 1, Pool_destroy 2]"
  obtain s where s: "pool_program ?xs (no_pools 3) = Inr s" "joined s = [2, 0, 1]" "\<forall>p \<in> set (pools_at s). p = None"
    by (simp add: no_pools_def place_def pool_construct_def pool_move_construct_def pool_move_assign_def
        pool_destroy_def moved_from_pool_def numeral_3_eq_3 numeral_2_eq_2 Let_def)
  then show ?thesis using pool_moves_keep_workers [OF s(1)] by blast
qed

end
