(* ===== verification/Xdr.thy ===== *)
theory Xdr
  imports Base "HOL-Library.Word"
begin

unbundle bit_operations_syntax

text \<open>
  The external data representation of \<^verbatim>\<open>nanonet/xdr.h\<close>. What is written through the iterator is the
  state of a write, the characters from the iterator on are the state of a read; reading past their
  end is undefined. An unsigned integer type of \<open>w\<close> bits is the type of words of that length, and
  a signed one the integers, converted as the casts do it.
\<close>

section \<open>Characters through an iterator\<close>

definition put_char :: "char \<Rightarrow> (string, unit) sx" where
  "put_char c = smod (\<lambda>out. out @ [c])"

fun next_char :: "(string, char) sx" where
  "next_char [] = (Inl (Undefined ''read past the end''), [])"
| "next_char (c # cs) = (Inr c, cs)"

fun skip :: "nat \<Rightarrow> (string, unit) sx" where
  "skip 0 = sret ()"
| "skip (Suc n) = sbind next_char (\<lambda>_. skip n)"

fun pad :: "nat \<Rightarrow> (string, unit) sx" where
  "pad 0 = sret ()"
| "pad (Suc n) = sbind (put_char CHR 0x00) (\<lambda>_. pad n)"

definition padsize :: "nat \<Rightarrow> nat" where
  "padsize n = (if 0 = n mod 4 then 0 else 4 - n mod 4)"

section \<open>Integers\<close>

text \<open>The loops run over the index of the byte, from \<open>size - 1\<close> down to 0.\<close>

fun read_bytes :: "nat \<Rightarrow> 'a :: len word \<Rightarrow> (string, 'a word) sx" where
  "read_bytes 0 us = sret us"
| "read_bytes (Suc i) us =
     sbind next_char (\<lambda>c. read_bytes i (us OR push_bit (8 * i) (word_of_nat (of_char c))))"

definition read_unsigned :: "(string, 'a :: len word) sx" where
  "read_unsigned = read_bytes (LENGTH('a) div 8) 0"

definition read_signed :: "'a :: len itself \<Rightarrow> (string, int) sx" where
  "read_signed _ = sbind read_unsigned (\<lambda>us :: 'a word. sret (sint us))"

fun write_bytes :: "nat \<Rightarrow> 'a :: len word \<Rightarrow> (string, unit) sx" where
  "write_bytes 0 v = sret ()"
| "write_bytes (Suc i) v =
     sbind (put_char (char_of (unat (drop_bit (8 * i) v AND 0xff)))) (\<lambda>_. write_bytes i v)"

definition write_unsigned :: "'a :: len word \<Rightarrow> (string, unit) sx" where
  "write_unsigned v = write_bytes (LENGTH('a) div 8) v"

definition write_signed :: "'a :: len itself \<Rightarrow> int \<Rightarrow> (string, unit) sx" where
  "write_signed _ v = write_unsigned (word_of_int v :: 'a word)"

section \<open>Raw memory and strings\<close>

text \<open>The object representation of a value, as the list of its bytes in memory.\<close>

fun write_raw :: "string \<Rightarrow> (string, unit) sx" where
  "write_raw [] = sret ()"
| "write_raw (c # cs) = sbind (put_char c) (\<lambda>_. write_raw cs)"

fun read_raw :: "nat \<Rightarrow> (string, string) sx" where
  "read_raw 0 = sret []"
| "read_raw (Suc n) = sbind next_char (\<lambda>c. sbind (read_raw n) (\<lambda>cs. sret (c # cs)))"

definition write_string :: "string \<Rightarrow> (string, unit) sx" where
  "write_string s = sbind (write_raw s) (\<lambda>_. pad (padsize (length s)))"

definition read_string :: "nat \<Rightarrow> (string, string) sx" where
  "read_string n = sbind (read_raw n) (\<lambda>ret. sbind (skip (padsize n)) (\<lambda>_. sret ret))"

section \<open>Facts\<close>

text \<open>A writer only appends: \<open>writes m out\<close> says that \<open>m\<close> appends \<open>out\<close>.\<close>

definition writes :: "(string, unit) sx \<Rightarrow> string \<Rightarrow> bool" where
  "writes m out \<longleftrightarrow> (\<forall>s. m s = (Inr (), s @ out))"

lemma writesI: "(\<And>s. m s = (Inr (), s @ out)) \<Longrightarrow> writes m out"
  by (simp add: writes_def)

lemma writesD: "writes m out \<Longrightarrow> m s = (Inr (), s @ out)"
  by (simp add: writes_def)

lemma writes_put: "writes (put_char c) [c]"
  by (simp add: writes_def put_char_def)

lemma writes_ret: "writes (sret ()) []" "writes (Pair (Inr ())) []"
  by (simp_all add: writes_def)

lemma writes_bind: "writes m a \<Longrightarrow> writes k b \<Longrightarrow> writes (sbind m (\<lambda>_. k)) (a @ b)"
  by (simp add: writes_def sbind_def)

definition xdr_bytes :: "nat \<Rightarrow> 'a :: len word \<Rightarrow> string" where
  "xdr_bytes n v = map (\<lambda>i. char_of (unat (drop_bit (8 * i) v AND 0xff))) (rev [0..<n])"

lemma writes_bytes: "writes (write_bytes n v) (xdr_bytes n v)"
proof (induction n)
  case 0
  then show ?case by (simp add: xdr_bytes_def writes_ret)
next
  case (Suc n)
  then show ?case using writes_bind [OF writes_put Suc] by (simp add: xdr_bytes_def)
qed

lemma writes_raw: "writes (write_raw s) s"
proof (induction s)
  case (Cons c s)
  then show ?case using writes_bind [OF writes_put Cons] by simp
qed (simp add: writes_ret)

lemma writes_pad: "writes (pad n) (replicate n CHR 0x00)"
proof (induction n)
  case (Suc n)
  then show ?case using writes_bind [OF writes_put Suc] by simp
qed (simp add: writes_ret)

lemma writes_string: "writes (write_string s) (s @ replicate (padsize (length s)) CHR 0x00)"
  unfolding write_string_def by (rule writes_bind [OF writes_raw writes_pad])

lemma skip_append: "skip (length xs) (xs @ rest) = (Inr (), rest)"
  by (induction xs) (simp_all add: sbind_def)

lemma read_raw_append: "read_raw (length xs) (xs @ rest) = (Inr xs, rest)"
  by (induction xs) (simp_all add: sbind_def)

lemma byte_mask: "(0xff :: 'a :: len word) = mask 8"
  by (simp add: mask_eq_exp_minus_1)

lemma byte_take: "w AND 0xff = take_bit 8 (w :: 'a :: len word)"
  by (simp add: byte_mask take_bit_eq_mask)

lemma unat_byte: "unat (w AND 0xff :: 'a :: len word) = unat w mod 256"
  unfolding byte_take unsigned_take_bit_eq by (simp add: take_bit_eq_mod)

lemma of_char_of_byte: "of_char (char_of (unat (w AND 0xff :: 'a :: len word)) :: char) = unat (w AND 0xff)"
  by (simp add: unat_byte)

lemma word_of_byte:
  "word_of_nat (of_char (char_of (unat (w AND 0xff :: 'a :: len word)) :: char)) = (w AND 0xff :: 'a word)"
  unfolding of_char_of_byte by simp

text \<open>What the bytes from index \<open>n\<close> on contribute: the word without its lower \<open>8 * n\<close> bits.\<close>

lemma read_bytes_step:
  fixes v :: "'a :: len word"
  shows "push_bit (8 * Suc n) (drop_bit (8 * Suc n) v) OR push_bit (8 * n) (drop_bit (8 * n) v AND 0xff)
    = push_bit (8 * n) (drop_bit (8 * n) v)"
  unfolding byte_take
proof (rule bit_eqI)
  fix k
  show "bit (push_bit (8 * Suc n) (drop_bit (8 * Suc n) v) OR push_bit (8 * n) (take_bit 8 (drop_bit (8 * n) v))) k
    = bit (push_bit (8 * n) (drop_bit (8 * n) v)) k"
    by (cases "8 * Suc n \<le> k") (auto simp: bit_or_iff bit_push_bit_iff bit_drop_bit_eq bit_take_bit_iff)
qed

lemma read_bytes_append:
  fixes v :: "'a :: len word"
  shows "read_bytes n (push_bit (8 * n) (drop_bit (8 * n) v)) (xdr_bytes n v @ rest) = (Inr v, rest)"
proof (induction n)
  case 0
  then show ?case by (simp add: xdr_bytes_def)
next
  case (Suc n)
  have x: "xdr_bytes (Suc n) v = char_of (unat (drop_bit (8 * n) v AND 0xff)) # xdr_bytes n v"
    by (simp add: xdr_bytes_def)
  show ?case
    unfolding x using Suc read_bytes_step [of n v]
    by (simp add: sbind_def word_of_byte del: mult_Suc_right of_char_of)
qed


lemma drop_bit_all: "LENGTH('a) \<le> n \<Longrightarrow> drop_bit n (v :: 'a :: len word) = 0"
  by (rule bit_eqI) (auto simp: bit_drop_bit_eq dest: bit_imp_le_length)

lemma read_unsigned_append:
  fixes v :: "'a :: len word"
  assumes "8 dvd LENGTH('a)"
  shows "read_unsigned (xdr_bytes (LENGTH('a) div 8) v @ rest) = (Inr v, rest)"
proof -
  have "drop_bit (8 * (LENGTH('a) div 8)) v = 0"
    using assms by (intro drop_bit_all) simp
  then show ?thesis
    using read_bytes_append [of "LENGTH('a) div 8" v rest] by (simp add: read_unsigned_def)
qed

text \<open>The value that a big-endian sequence of bytes denotes.\<close>

fun big_endian :: "nat list \<Rightarrow> nat" where
  "big_endian [] = 0"
| "big_endian (b # bs) = b * 256 ^ length bs + big_endian bs"

lemma xdr_bytes_length [simp]: "length (xdr_bytes n v) = n"
  by (simp add: xdr_bytes_def)

lemma big_endian_bytes:
  fixes v :: "'a :: len word"
  shows "big_endian (map of_char (xdr_bytes n v)) = unat v mod 256 ^ n"
proof (induction n)
  case 0
  then show ?case by (simp add: xdr_bytes_def)
next
  case (Suc n)
  have x: "xdr_bytes (Suc n) v = char_of (unat (drop_bit (8 * n) v AND 0xff)) # xdr_bytes n v"
    by (simp add: xdr_bytes_def)
  have p: "(2 :: nat) ^ (8 * n) = 256 ^ n"
    by (simp add: power_mult)
  have d: "unat (drop_bit (8 * n) v AND 0xff) = unat v div 256 ^ n mod 256"
    unfolding p [symmetric]  unat_byte unat_drop_bit_eq unfolding drop_bit_eq_div by simp
  have "unat v mod (256 ^ n * 256) = 256 ^ n * (unat v div 256 ^ n mod 256) + unat v mod 256 ^ n"
    by (rule mod_mult2_eq)
  then show ?case using Suc d
    by (simp add: x of_char_of_byte mult.commute)
qed

section \<open>Floating point numbers\<close>

text \<open>
  A floating point number is its object representation: the word of 32 or 64 bits of the IEEE
  format. In memory its bytes are in the order of the host, \<open>big\<close> for big-endian. \<open>read_float\<close>
  returns a \<^verbatim>\<open>double\<close>; \<open>widen\<close> is the conversion.
\<close>

definition host_bytes :: "bool \<Rightarrow> 'a :: len word \<Rightarrow> string" where
  "host_bytes big v =
     (let bs = xdr_bytes (LENGTH('a) div 8) v in if big then bs else rev bs)"

definition of_host_bytes :: "bool \<Rightarrow> string \<Rightarrow> 'a :: len word" where
  "of_host_bytes big bs = word_of_nat (big_endian (map of_char (if big then bs else rev bs)))"

definition write_double :: "bool \<Rightarrow> 64 word \<Rightarrow> (string, unit) sx" where
  "write_double big v = write_raw (host_bytes big v)"

definition write_float :: "bool \<Rightarrow> 32 word \<Rightarrow> (string, unit) sx" where
  "write_float big v = write_raw (host_bytes big v)"

definition read_double :: "bool \<Rightarrow> (string, 64 word) sx" where
  "read_double big = sbind (read_raw 8) (\<lambda>buf. sret (of_host_bytes big buf))"

definition read_float :: "bool \<Rightarrow> (32 word \<Rightarrow> 'd) \<Rightarrow> (string, 'd) sx" where
  "read_float big widen = sbind (read_raw 4) (\<lambda>buf. sret (widen (of_host_bytes big buf)))"

lemma of_host_bytes_inverse:
  fixes v :: "'a :: len word"
  assumes "8 dvd LENGTH('a)"
  shows "of_host_bytes big (host_bytes big v) = v"
proof -
  have "(256 :: nat) ^ (LENGTH('a) div 8) = 2 ^ (8 * (LENGTH('a) div 8))"
    by (simp add: power_mult)
  then have "big_endian (map of_char (xdr_bytes (LENGTH('a) div 8) v)) = unat v"
    using assms unsigned_less [of v] by (simp add: big_endian_bytes)
  then show ?thesis by (simp add: of_host_bytes_def host_bytes_def Let_def)
qed

lemma host_bytes_length: "length (host_bytes big (v :: 'a :: len word)) = LENGTH('a) div 8"
  by (simp add: host_bytes_def Let_def)

text \<open>A number comes back on a host of the same byte order.\<close>

lemma double_roundtrip:
  assumes "write_double big v out = (Inr (), out @ bytes)"
  shows "read_double big (bytes @ rest) = (Inr v, rest)"
proof -
  have b: "bytes = host_bytes big v"
    using assms writesD [OF writes_raw, of "host_bytes big v" out] by (simp add: write_double_def)
  have "read_raw 8 (bytes @ rest) = (Inr bytes, rest)"
    using read_raw_append [of bytes rest] by (simp add: b host_bytes_length)
  then show ?thesis by (simp add: read_double_def sbind_def b of_host_bytes_inverse)
qed

lemma float_roundtrip:
  assumes "write_float big v out = (Inr (), out @ bytes)"
  shows "read_float big widen (bytes @ rest) = (Inr (widen v), rest)"
proof -
  have b: "bytes = host_bytes big v"
    using assms writesD [OF writes_raw, of "host_bytes big v" out] by (simp add: write_float_def)
  have "read_raw 4 (bytes @ rest) = (Inr bytes, rest)"
    using read_raw_append [of bytes rest] by (simp add: b host_bytes_length)
  then show ?thesis by (simp add: read_float_def sbind_def b of_host_bytes_inverse)
qed

lemma big_endian_zeros: "big_endian (replicate n 0) = 0"
  by (induction n) simp_all

lemma xdr_bytes_one: "xdr_bytes (Suc n) (1 :: 64 word) = replicate n CHR 0x00 @ [CHR 0x01]"
proof (induction n)
  case 0
  then show ?case by (simp add: xdr_bytes_def char_of_def bit_0)
next
  case (Suc n)
  have "drop_bit (8 * Suc n) (1 :: 64 word) = 0"
    by (rule bit_word_eqI) (auto simp: bit_drop_bit_eq bit_1_iff simp del: bit_0_eq)
  then have "xdr_bytes (Suc (Suc n)) (1 :: 64 word) = CHR 0x00 # xdr_bytes (Suc n) (1 :: 64 word)"
    by (simp add: xdr_bytes_def char_of_def)
  with Suc show ?case by simp
qed

text \<open>But on a little-endian host the bytes are not those of the external representation, which is
  big-endian: what a host of the other byte order reads is another number.\<close>

lemma double_is_not_portable:
  "\<exists>v out bytes. write_double False v [] = (Inr (), bytes) \<and> write_unsigned v [] = (Inr (), rev bytes)
     \<and> bytes \<noteq> rev bytes \<and> read_double True bytes = (Inr out, []) \<and> out \<noteq> v"
proof (intro exI conjI)
  let ?v = "1 :: 64 word" and ?b = "CHR 0x01 # replicate 7 CHR 0x00"
  have x: "xdr_bytes 8 ?v = rev ?b"
    using xdr_bytes_one [of 7] by (simp)
  then have h: "host_bytes False ?v = ?b"
    by (simp add: host_bytes_def)
  show "write_double False ?v [] = (Inr (), ?b)"
    using writesD [OF writes_raw, of ?b "[]"] by (simp only: write_double_def h append_Nil)
  show "write_unsigned ?v [] = (Inr (), rev ?b)"
    by (simp add: write_unsigned_def writesD [OF writes_bytes] x)
  show "?b \<noteq> rev ?b"
  proof
    assume "?b = rev ?b"
    then have "hd ?b = hd (rev ?b)" by (rule arg_cong)
    then show False by (simp add: hd_append)
  qed
  show "read_double True ?b = (Inr 0x0100000000000000, [])"
    using read_raw_append [of ?b "[]"]
    by (simp add: read_double_def sbind_def of_host_bytes_def big_endian_zeros)
  show "0x0100000000000000 \<noteq> ?v" by simp
qed

section \<open>Messages\<close>

text \<open>
  A message is a sequence of items, each written by the function for its type; \<open>kind_of\<close> is what the
  reader has to know of an item: its type and, for a string or a block of memory, its length.
\<close>

datatype item =
    U16 "16 word" | U32 "32 word" | U64 "64 word"
  | S16 int | S32 int | S64 int
  | Str string | Raw string

datatype kind = KU16 | KU32 | KU64 | KS16 | KS32 | KS64 | KStr nat | KRaw nat

fun kind_of :: "item \<Rightarrow> kind" where
  "kind_of (U16 _) = KU16"
| "kind_of (U32 _) = KU32"
| "kind_of (U64 _) = KU64"
| "kind_of (S16 _) = KS16"
| "kind_of (S32 _) = KS32"
| "kind_of (S64 _) = KS64"
| "kind_of (Str s) = KStr (length s)"
| "kind_of (Raw s) = KRaw (length s)"

text \<open>The values of the signed types.\<close>

definition fits :: "nat \<Rightarrow> int \<Rightarrow> bool" where
  "fits w i \<longleftrightarrow> - (2 ^ (w - 1)) \<le> i \<and> i < 2 ^ (w - 1)"

fun item_ok :: "item \<Rightarrow> bool" where
  "item_ok (S16 i) = fits 16 i"
| "item_ok (S32 i) = fits 32 i"
| "item_ok (S64 i) = fits 64 i"
| "item_ok _ = True"

fun write_item :: "item \<Rightarrow> (string, unit) sx" where
  "write_item (U16 w) = write_unsigned w"
| "write_item (U32 w) = write_unsigned w"
| "write_item (U64 w) = write_unsigned w"
| "write_item (S16 i) = write_signed TYPE(16) i"
| "write_item (S32 i) = write_signed TYPE(32) i"
| "write_item (S64 i) = write_signed TYPE(64) i"
| "write_item (Str s) = write_string s"
| "write_item (Raw s) = write_raw s"

fun read_item :: "kind \<Rightarrow> (string, item) sx" where
  "read_item KU16 = sbind read_unsigned (\<lambda>w. sret (U16 w))"
| "read_item KU32 = sbind read_unsigned (\<lambda>w. sret (U32 w))"
| "read_item KU64 = sbind read_unsigned (\<lambda>w. sret (U64 w))"
| "read_item KS16 = sbind (read_signed TYPE(16)) (\<lambda>i. sret (S16 i))"
| "read_item KS32 = sbind (read_signed TYPE(32)) (\<lambda>i. sret (S32 i))"
| "read_item KS64 = sbind (read_signed TYPE(64)) (\<lambda>i. sret (S64 i))"
| "read_item (KStr n) = sbind (read_string n) (\<lambda>s. sret (Str s))"
| "read_item (KRaw n) = sbind (read_raw n) (\<lambda>s. sret (Raw s))"

fun write_items :: "item list \<Rightarrow> (string, unit) sx" where
  "write_items [] = sret ()"
| "write_items (x # xs) = sbind (write_item x) (\<lambda>_. write_items xs)"

fun read_items :: "kind list \<Rightarrow> (string, item list) sx" where
  "read_items [] = sret []"
| "read_items (k # ks) = sbind (read_item k) (\<lambda>x. sbind (read_items ks) (\<lambda>xs. sret (x # xs)))"

text \<open>The bytes of an item.\<close>

fun item_bytes :: "item \<Rightarrow> string" where
  "item_bytes (U16 w) = xdr_bytes 2 w"
| "item_bytes (U32 w) = xdr_bytes 4 w"
| "item_bytes (U64 w) = xdr_bytes 8 w"
| "item_bytes (S16 i) = xdr_bytes 2 (word_of_int i :: 16 word)"
| "item_bytes (S32 i) = xdr_bytes 4 (word_of_int i :: 32 word)"
| "item_bytes (S64 i) = xdr_bytes 8 (word_of_int i :: 64 word)"
| "item_bytes (Str s) = s @ replicate (padsize (length s)) CHR 0x00"
| "item_bytes (Raw s) = s"

lemma writes_item: "writes (write_item x) (item_bytes x)"
  by (cases x) (simp_all add: write_signed_def write_unsigned_def writes_bytes writes_string writes_raw)

lemma writes_items: "writes (write_items xs) (concat (map item_bytes xs))"
  by (induction xs) (simp_all add: writes_ret writes_bind writes_item)

lemma sint_word_of_int: "fits LENGTH('a) i \<Longrightarrow> sint (word_of_int i :: 'a :: len word) = i"
  by (simp add: fits_def signed_take_bit_int_eq_self sint_sbintrunc')

lemma read_item_bytes: "item_ok x \<Longrightarrow> read_item (kind_of x) (item_bytes x @ rest) = (Inr x, rest)"
proof (cases x)
  case (Str s)
  then show ?thesis
    using skip_append [of "replicate (padsize (length s)) CHR 0x00" rest]
    by (simp add: read_string_def sbind_def read_raw_append)
qed (use read_unsigned_append [where 'a = 16] read_unsigned_append [where 'a = 32]
      read_unsigned_append [where 'a = 64] sint_word_of_int [where 'a = 16]
      sint_word_of_int [where 'a = 32] sint_word_of_int [where 'a = 64]
     in \<open>simp_all add: sbind_def read_signed_def read_raw_append\<close>)

lemma read_items_bytes:
  "list_all item_ok xs \<Longrightarrow> read_items (map kind_of xs) (concat (map item_bytes xs) @ rest) = (Inr xs, rest)"
  by (induction xs) (simp_all add: sbind_def read_item_bytes)

lemma write_unsigned_layout:
  fixes w :: "'a :: len word"
  assumes "8 dvd LENGTH('a)"
  shows "\<exists>b. write_unsigned w out = (Inr (), out @ b) \<and> length b = LENGTH('a) div 8 \<and> big_endian (map of_char b) = unat w"
proof (intro exI conjI)
  show "write_unsigned w out = (Inr (), out @ xdr_bytes (LENGTH('a) div 8) w)"
    by (simp add: write_unsigned_def writesD [OF writes_bytes])
  have "(256 :: nat) ^ (LENGTH('a) div 8) = 2 ^ (8 * (LENGTH('a) div 8))"
    by (simp add: power_mult)
  then show "big_endian (map of_char (xdr_bytes (LENGTH('a) div 8) w)) = unat w"
    using assms unsigned_less [of w] by (simp add: big_endian_bytes)
qed simp

section \<open>Properties\<close>

text \<open>C40: Any sequence of integers of 16, 32 and 64 bits, signed and unsigned, strings and blocks of
  memory that the writers put out is read back by the readers in the same order, from what was
  already there on, and the readers stop exactly behind it. Signed values survive over the whole
  range of their type.\<close>

theorem xdr_roundtrip:
  assumes "list_all item_ok xs" "write_items xs out = (Inr (), out @ bytes)"
  shows "read_items (map kind_of xs) (bytes @ rest) = (Inr xs, rest)"
  using assms read_items_bytes [of xs rest] writesD [OF writes_items, of xs out] by simp

definition sample_items :: "item list" where
  "sample_items = [U16 0xfffe, S32 (- 2), Str ''ab'', S64 (- (2 ^ 63))]"

lemma xdr_roundtrip_witness:
  "\<exists>bytes. read_items (map kind_of sample_items) (bytes @ ''x'') = (Inr sample_items, ''x'')"
proof -
  have "write_items sample_items [] = (Inr (), [] @ concat (map item_bytes sample_items))"
    using writesD [OF writes_items, of sample_items "[]"] by simp
  from xdr_roundtrip [OF _ this, of "''x''"]
  have "read_items (map kind_of sample_items) (concat (map item_bytes sample_items) @ ''x'') = (Inr sample_items, ''x'')"
    by (simp only: sample_items_def) (simp add: fits_def)
  then show ?thesis by blast
qed

text \<open>The encoding is big-endian: an unsigned integer of 16, 32 or 64 bits is written as its 2, 4
  or 8 bytes, most significant first, without padding; and a string is followed by the zero bytes,
  fewer than four, that make its length a multiple of four.\<close>

theorem xdr_layout:
  "(\<forall>w :: 16 word. \<exists>b. write_unsigned w out = (Inr (), out @ b) \<and> length b = 2 \<and> big_endian (map of_char b) = unat w)
   \<and> (\<forall>w :: 32 word. \<exists>b. write_unsigned w out = (Inr (), out @ b) \<and> length b = 4 \<and> big_endian (map of_char b) = unat w)
   \<and> (\<forall>w :: 64 word. \<exists>b. write_unsigned w out = (Inr (), out @ b) \<and> length b = 8 \<and> big_endian (map of_char b) = unat w)
   \<and> write_string s out = (Inr (), out @ s @ replicate (padsize (length s)) CHR 0x00)
   \<and> padsize (length s) < 4 \<and> 4 dvd length s + padsize (length s)"
proof -
  have p: "padsize n < 4 \<and> 4 dvd n + padsize n" for n
    unfolding padsize_def by presburger
  show ?thesis
    using write_unsigned_layout [where 'a = 16] write_unsigned_layout [where 'a = 32]
      write_unsigned_layout [where 'a = 64] p writesD [OF writes_string]
    by simp
qed

end
