(* ===== verification/Math_Util.thy ===== *)
theory Math_Util
  imports Doubles
begin

text \<open>
  The moving average, the rate estimator and the rounding to an integer type of
  \<^verbatim>\<open>nanonet/math-util.h\<close> and \<^verbatim>\<open>src/math-util.cpp\<close>, over the doubles of theory \<open>Doubles\<close>.
\<close>

section \<open>Moving average\<close>

record moving_average =
  mix_in :: double

definition new_moving_average :: "double \<Rightarrow> moving_average result" where
  "new_moving_average C =
     rbind (assertion (dless (Fin 0) C) ''0 < C'' ''include/nanonet/math-util.h'' 57) (\<lambda>_.
     rbind (assertion (dless C (Fin 1)) ''C < 1'' ''include/nanonet/math-util.h'' 58) (\<lambda>_.
     Inr \<lparr>mix_in = C\<rparr>))"

definition default_discrete_state :: double where
  "default_discrete_state = NaN"

definition update_discrete_states :: "moving_average \<Rightarrow> double \<Rightarrow> double \<Rightarrow> double" where
  "update_discrete_states avg x u =
     (if x = NaN then u
      else dadd (dmul (dsub (Fin 1) (mix_in avg)) x) (dmul (mix_in avg) u))"

section \<open>Rate estimator\<close>

record rate_estimator =
  avg :: moving_average
  dt_estimate :: double
  last_update :: double

definition new_rate_estimator :: "double \<Rightarrow> double \<Rightarrow> rate_estimator result" where
  "new_rate_estimator C initial_estimate =
     rbind (new_moving_average C) (\<lambda>a.
     rbind (assertion (dless (Fin 0) initial_estimate) ''initial_estimate > 0'' ''src/math-util.cpp'' 24) (\<lambda>_.
     Inr \<lparr>avg = a, dt_estimate = ddiv (Fin 1) initial_estimate, last_update = NaN\<rparr>))"

definition re_update :: "rate_estimator \<Rightarrow> double \<Rightarrow> bool \<times> rate_estimator" where
  "re_update r now =
     (if \<not> deq now now then (False, r)
      else if deq (last_update r) (last_update r) then
        (let dt = dsub now (last_update r)
         in if dle (Fin 0) dt
            then (True, r\<lparr>dt_estimate := update_discrete_states (avg r) (dt_estimate r) dt, last_update := now\<rparr>)
            else (False, r))
      else (True, r\<lparr>last_update := now\<rparr>))"

definition estimate :: "rate_estimator \<Rightarrow> double" where
  "estimate r = ddiv (Fin 1) (dt_estimate r)"

definition estimate_at :: "rate_estimator \<Rightarrow> double \<Rightarrow> double" where
  "estimate_at r now = estimate (snd (re_update r now))"

section \<open>Rounding to a signed integer type\<close>

text \<open>\<^verbatim>\<open>std::llround\<close>: the result for a number out of the range of \<^verbatim>\<open>long long\<close>, an infinity or NaN
  is unspecified; it is the parameter \<open>unspec\<close>.\<close>

fun llround :: "(double \<Rightarrow> int) \<Rightarrow> double \<Rightarrow> int" where
  "llround unspec (Fin x) =
     (if - (2 ^ 63) \<le> round_away x \<and> round_away x < 2 ^ 63 then round_away x else unspec (Fin x))"
| "llround unspec x = unspec x"

definition int_min :: "nat \<Rightarrow> int" where
  "int_min bits = - (2 ^ (bits - 1))"

definition int_max :: "nat \<Rightarrow> int" where
  "int_max bits = 2 ^ (bits - 1) - 1"

definition round_to_integer :: "(double \<Rightarrow> int) \<Rightarrow> nat \<Rightarrow> double \<Rightarrow> int result" where
  "round_to_integer unspec bits x =
     (let d = dround x;
          err = Inl (Runtime_error (''value too large to round to integer: '' @ double_to_string x))
      in if dless d (to_double (of_int (int_min bits))) \<or> dless (to_double (of_int (int_max bits))) d then err
         else let i = llround unspec x
              in if i < int_min bits \<or> i > int_max bits then err else Inr i)"

section \<open>Facts\<close>

lemma deq_self: "deq x x \<longleftrightarrow> x \<noteq> NaN"
  by (cases x) auto

lemma nonneg_iff:
  "dle (Fin 0) (Fin x) \<longleftrightarrow> 0 \<le> x" "dle (Fin 0) (Inf n) \<longleftrightarrow> \<not> n" "\<not> dle (Fin 0) NaN"
  by (auto simp: dle_def)

lemma nonneg_add: "dle (Fin 0) x \<Longrightarrow> dle (Fin 0) y \<Longrightarrow> dle (Fin 0) (dadd x y)"
  by (cases x; cases y) (auto simp: nonneg_iff to_double_nonneg)

text \<open>A number that is not below the smallest positive double is not rounded to zero.\<close>

lemma to_double_pos:
  assumes "pow2 (- 1074) \<le> x" "x \<le> 1"
  obtains r where "to_double x = Fin r" "0 < r" "r \<le> 1"
proof -
  have x0: "0 < x" using assms(1) pow2_pos [of "- 1074"] by linarith
  obtain r where r: "to_double x = Fin r" "0 \<le> r" "r \<le> 1"
    using to_double_between [of 0 x 1] x0 assms(2) by auto
  define u where "u = pow2 (ulp_exp \<bar>x\<bar>)"
  have "pow2 (exponent x - 52) \<le> pow2 (exponent x)"
    by (simp add: pow2_powi power_int_increasing)
  then have "u \<le> x"
    using pow2_exponent_le [OF x0] assms(1) x0 by (auto simp: u_def ulp_exp_def max_def)
  then have "1 \<le> x / u" by (simp add: u_def)
  then have "1 \<le> round_even (x / u)" using round_even_ge [of 1 "x / u"] by simp
  then have "0 < rat_of_int (round_even (x / u)) * u" by (simp add: u_def)
  moreover have "to_double x = (let r = of_int (round_even (x / u)) * u in if \<bar>r\<bar> \<le> max_double then Fin r else Inf (x < 0))"
    using x0 by (simp add: to_double_def u_def Let_def)
  ultimately have "0 < r" using r(1) by (auto simp: Let_def split: if_splits)
  with r that show ?thesis by blast
qed

lemma nonneg_mul: "0 < r \<Longrightarrow> dle (Fin 0) y \<Longrightarrow> dle (Fin 0) (dmul (Fin r) y)"
  by (cases y) (auto simp: nonneg_iff to_double_nonneg)

lemma nonneg_inverse: "dle (Fin 0) y \<Longrightarrow> dle (Fin 0) (ddiv (Fin 1) y)"
  by (cases y) (auto simp: nonneg_iff to_double_nonneg)

text \<open>A mixing constant for which \<open>1 - C\<close> is at least the smallest positive double, as it is for
  every double below 1.\<close>

definition good_constant :: "rat \<Rightarrow> bool" where
  "good_constant c \<longleftrightarrow> 0 < c \<and> c \<le> 1 - pow2 (- 1074)"

lemma average_nonneg:
  assumes "good_constant c" "mix_in a = Fin c" "dle (Fin 0) x" "dle (Fin 0) u"
  shows "dle (Fin 0) (update_discrete_states a x u)"
proof -
  have c: "0 < c" "pow2 (- 1074) \<le> 1 - c" "1 - c \<le> 1"
    using assms(1) by (simp_all add: good_constant_def)
  obtain r where r: "to_double (1 - c) = Fin r" "0 < r"
    using to_double_pos [OF c(2,3)] by blast
  then have "dsub (Fin 1) (mix_in a) = Fin r" by (simp add: dsub_def assms(2))
  moreover have "dle (Fin 0) (dadd (dmul (Fin r) x) (dmul (Fin c) u))"
    using nonneg_add nonneg_mul r(2) c(1) assms(3,4) by blast
  ultimately show ?thesis using assms(2-4) by (simp add: update_discrete_states_def)
qed

definition re_inv :: "rat \<Rightarrow> rate_estimator \<Rightarrow> bool" where
  "re_inv c r \<longleftrightarrow> good_constant c \<and> mix_in (avg r) = Fin c \<and> dle (Fin 0) (dt_estimate r)"

lemma re_update_inv: "re_inv c r \<Longrightarrow> re_inv c (snd (re_update r now))"
  by (auto simp: re_inv_def re_update_def Let_def intro: average_nonneg)

definition re_updates :: "rate_estimator \<Rightarrow> double list \<Rightarrow> rate_estimator" where
  "re_updates = foldl (\<lambda>r now. snd (re_update r now))"

lemma re_updates_inv: "re_inv c r \<Longrightarrow> re_inv c (re_updates r nows)"
  by (induction nows arbitrary: r) (simp_all add: re_updates_def re_update_inv)

lemma new_rate_estimator_inv:
  "good_constant c \<Longrightarrow> new_rate_estimator (Fin c) e = Inr r \<Longrightarrow> re_inv c r \<and> last_update r = NaN"
proof -
  assume c: "good_constant c" and r: "new_rate_estimator (Fin c) e = Inr r"
  have e: "dless (Fin 0) e"
    using r by (auto simp: new_rate_estimator_def rbind_Inr_iff)
  then have "dle (Fin 0) (ddiv (Fin 1) e)"
    by (intro nonneg_inverse) (simp add: dle_def)
  then show ?thesis using c r
    by (auto simp: new_rate_estimator_def new_moving_average_def rbind_Inr_iff re_inv_def)
qed

section \<open>Properties\<close>

text \<open>The rate estimator. Whatever times it is given, NaN, infinities and a clock that goes back
  included, the estimated time between events stays at or above zero and is never NaN, and so does
  the estimated rate; \<open>estimate(now)\<close> equals an update followed by \<open>estimate()\<close> on a copy.\<close>

theorem rate_estimator_nonnegative:
  assumes "good_constant c" "new_rate_estimator (Fin c) e = Inr r"
  shows "dle (Fin 0) (dt_estimate (re_updates r nows)) \<and> dle (Fin 0) (estimate (re_updates r nows))
    \<and> dle (Fin 0) (estimate_at (re_updates r nows) now)"
proof -
  have i: "re_inv c (re_updates r nows)"
    using re_updates_inv new_rate_estimator_inv [OF assms] by blast
  moreover have "re_inv c (snd (re_update (re_updates r nows) now))"
    by (rule re_update_inv [OF i])
  ultimately show ?thesis
    by (simp add: re_inv_def estimate_def estimate_at_def nonneg_inverse)
qed

lemma rate_estimator_nonnegative_witness:
  "\<exists>r. new_rate_estimator (Fin (1/2)) (Fin 1) = Inr r
     \<and> dle (Fin 0) (estimate (re_updates r [Fin 1, NaN, Fin 5, Fin 3, Inf False]))"
proof -
  have g: "good_constant (1/2)"
    by (simp add: good_constant_def pow2_def)
  have n: "new_rate_estimator (Fin (1/2)) (Fin 1) = Inr \<lparr>avg = \<lparr>mix_in = Fin (1/2)\<rparr>, dt_estimate = Fin 1, last_update = NaN\<rparr>"
    using to_double_of_int [of 1] by (simp add: new_rate_estimator_def new_moving_average_def)
  show ?thesis using n rate_estimator_nonnegative [OF g n] by blast
qed

text \<open>An update is accepted exactly when the time is a number and not before the last accepted one;
  equal times are accepted. A rejected update changes nothing. The first accepted update only sets
  the clock, every later one mixes the time since the last one into the estimate.\<close>

theorem rate_estimator_update:
  "(fst (re_update r now) \<longleftrightarrow> now \<noteq> NaN \<and> (last_update r = NaN \<or> dle (Fin 0) (dsub now (last_update r))))
   \<and> (if fst (re_update r now)
      then last_update (snd (re_update r now)) = now
         \<and> dt_estimate (snd (re_update r now)) =
             (if last_update r = NaN then dt_estimate r
              else update_discrete_states (avg r) (dt_estimate r) (dsub now (last_update r)))
      else snd (re_update r now) = r)"
  by (simp add: re_update_def deq_self Let_def)

text \<open>\<open>round_to_integer\<close> to a type of 16 or 32 bits: a finite number is rounded to the nearest
  integer, halves away from zero, and accepted exactly when the result is in the range of the
  type; an infinity is rejected.\<close>

theorem round_to_integer_spec:
  assumes "bits \<in> {16, 32}"
  shows "round_to_integer unspec bits (Fin x) =
      (if int_min bits \<le> round_away x \<and> round_away x \<le> int_max bits then Inr (round_away x)
       else Inl (Runtime_error (''value too large to round to integer: '' @ double_to_string (Fin x))))
    \<and> (\<exists>msg. round_to_integer unspec bits (Inf s) = Inl (Runtime_error msg))"
proof -
  have b: "\<bar>int_min bits\<bar> < 2 ^ 53" "\<bar>int_max bits\<bar> < 2 ^ 53"
    using assms by (auto simp: int_min_def int_max_def)
  have m: "- (2 ^ 63) \<le> int_min bits" "int_max bits < 2 ^ 63"
    using assms by (auto simp: int_min_def int_max_def)
  show ?thesis
    using m to_double_of_int [OF b(1)] to_double_of_int [OF b(2)]
    by (cases s) (simp_all add: round_to_integer_def Let_def)
qed

lemma round_to_integer_spec_witness:
  "round_to_integer (\<lambda>_. 0) 16 (Fin (5/2)) = Inr 3
   \<and> \<not> is_ok (round_to_integer (\<lambda>_. 0) 16 (Fin 32767.5))"
  using round_to_integer_spec [of 16 "\<lambda>_. 0" "5/2"] round_to_integer_spec [of 16 "\<lambda>_. 0" "32767.5"]
  by (simp add: round_away_def int_min_def int_max_def)

end
