(* ===== verification/Streambuf.thy ===== *)
theory Streambuf
  imports Base
begin

text \<open>
  The stream buffers of \<^verbatim>\<open>nanonet/util.h\<close> over a reader_writer, the output stream on top of them, and
  \<^verbatim>\<open>auto_resource\<close>. The reader_writer is a parameter: \<open>wr d\<close> is \<^verbatim>\<open>write\<close> of the characters \<open>d\<close>, \<open>rd n\<close>
  is \<^verbatim>\<open>read\<close> of at most \<open>n\<close> (\<open>None\<close> is -1), \<open>sd\<close> is \<^verbatim>\<open>shutdown_write\<close>, all on a state \<open>'w\<close> of the
  world. An operation of a buffer works on the buffer and the world.
\<close>

section \<open>Output buffer\<close>

text \<open>\<open>ob_data\<close> is what lies between \<^verbatim>\<open>pbase()\<close> and \<^verbatim>\<open>pptr()\<close>; \<open>epptr()\<close> is one before the end of
  the buffer, so that \<^verbatim>\<open>overflow\<close> has room for its character. \<open>ob_live\<close> is whether \<^verbatim>\<open>pbase()\<close> is set.\<close>

record obuf =
  ob_rw :: bool
  ob_size :: nat
  ob_data :: string
  ob_live :: bool

definition new_ostreambuf :: "bool \<Rightarrow> int \<Rightarrow> obuf result" where
  "new_ostreambuf rw n =
     (if n < 0 then Inl (Logic_error ''cannot create std::vector larger than max_size()'')
      else rbind (assertion (n \<ge> 1) ''size >= 1'' ''include/nanonet/util.h'' (if rw then 693 else 702)) (\<lambda>_.
           Inr \<lparr>ob_rw = rw, ob_size = nat n, ob_data = [], ob_live = True\<rparr>))"

text \<open>The move constructor: the new object and what is left of the old one.\<close>

definition move_ostreambuf :: "obuf \<Rightarrow> obuf \<times> obuf" where
  "move_ostreambuf other = (other, \<lparr>ob_rw = False, ob_size = 0, ob_data = [], ob_live = False\<rparr>)"

definition set_reader_writer :: "obuf \<Rightarrow> obuf" where
  "set_reader_writer b = b\<lparr>ob_rw := True\<rparr>"

definition ob_flush :: "(string \<Rightarrow> ('w, int) sx) \<Rightarrow> (obuf \<times> 'w, bool) sx" where
  "ob_flush wr s =
     (case s of (b, w) \<Rightarrow>
        if \<not> ob_rw b then (Inr True, s)
        else let n = length (ob_data b)
             in if \<not> n \<le> ob_size b then (Inl (Abort ''n <= buffer.size()''), s)
                else if 0 = n then (Inr True, s)
                else case wr (ob_data b) w of
                       (Inl e, w') \<Rightarrow> (Inl e, (b, w'))
                     | (Inr written, w') \<Rightarrow>
                         if written < 0 then (Inr False, (b, w'))
                         else if int n \<noteq> written then (Inl (Abort ''n == written''), (b, w'))
                         else (Inr True, (b\<lparr>ob_data := []\<rparr>, w')))"

text \<open>\<^verbatim>\<open>overflow\<close> returns whether it did not fail; \<open>None\<close> is the argument \<^verbatim>\<open>eof\<close>.\<close>

definition ob_overflow :: "(string \<Rightarrow> ('w, int) sx) \<Rightarrow> char option \<Rightarrow> (obuf \<times> 'w, bool) sx" where
  "ob_overflow wr c s =
     (case c of
        None \<Rightarrow> ob_flush wr s
      | Some ch \<Rightarrow>
          (case s of (b, w) \<Rightarrow>
             if length (ob_data b) \<ge> ob_size b then (Inl (Undefined ''write past the end of the buffer''), s)
             else ob_flush wr (b\<lparr>ob_data := ob_data b @ [ch]\<rparr>, w)))"

definition ob_sync :: "(string \<Rightarrow> ('w, int) sx) \<Rightarrow> (obuf \<times> 'w, int) sx" where
  "ob_sync wr = sbind (ob_flush wr) (\<lambda>r. sret (if r then 0 else - 1))"

definition ob_destroy :: "(string \<Rightarrow> ('w, int) sx) \<Rightarrow> ('w, unit) sx \<Rightarrow> (obuf \<times> 'w, unit) sx" where
  "ob_destroy wr sd s =
     (if ob_rw (fst s) \<and> ob_live (fst s)
      then sbind (ob_sync wr) (\<lambda>_ s. case sd (snd s) of (r, w) \<Rightarrow> (r, (fst s, w))) s
      else (Inr (), s))"

text \<open>\<^verbatim>\<open>std::streambuf::sputc\<close> and \<^verbatim>\<open>xsputn\<close>, which puts character by character until one fails.\<close>

definition sputc :: "(string \<Rightarrow> ('w, int) sx) \<Rightarrow> char \<Rightarrow> (obuf \<times> 'w, bool) sx" where
  "sputc wr c s =
     (if length (ob_data (fst s)) < ob_size (fst s) - 1
      then (Inr True, ((fst s)\<lparr>ob_data := ob_data (fst s) @ [c]\<rparr>, snd s))
      else ob_overflow wr (Some c) s)"

fun xsputn :: "(string \<Rightarrow> ('w, int) sx) \<Rightarrow> string \<Rightarrow> (obuf \<times> 'w, nat) sx" where
  "xsputn wr [] = sret 0"
| "xsputn wr (c # cs) =
     sbind (sputc wr c) (\<lambda>ok. if ok then sbind (xsputn wr cs) (\<lambda>n. sret (Suc n)) else sret 0)"

section \<open>Output stream\<close>

text \<open>\<^verbatim>\<open>std::ostream\<close> on such a buffer; the flag is \<^verbatim>\<open>badbit\<close>. An operation on a stream that is not good
  does nothing.\<close>

type_synonym 'w ostream = "bool \<times> obuf \<times> 'w"

definition os_write :: "(string \<Rightarrow> ('w, int) sx) \<Rightarrow> string \<Rightarrow> ('w ostream, unit) sx" where
  "os_write wr str s =
     (case s of (bad, bw) \<Rightarrow>
        if bad then (Inr (), s)
        else case xsputn wr str bw of
               (Inl e, bw') \<Rightarrow> (Inl e, (bad, bw'))
             | (Inr n, bw') \<Rightarrow> (Inr (), (n \<noteq> length str, bw')))"

definition os_flush :: "(string \<Rightarrow> ('w, int) sx) \<Rightarrow> ('w ostream, unit) sx" where
  "os_flush wr s =
     (case s of (bad, bw) \<Rightarrow>
        if bad then (Inr (), s)
        else case ob_sync wr bw of
               (Inl e, bw') \<Rightarrow> (Inl e, (bad, bw'))
             | (Inr r, bw') \<Rightarrow> (Inr (), (r = - 1, bw')))"

definition os_endl :: "(string \<Rightarrow> ('w, int) sx) \<Rightarrow> ('w ostream, unit) sx" where
  "os_endl wr = sbind (os_write wr [newline_char]) (\<lambda>_. os_flush wr)"

text \<open>What a program does with the stream.\<close>

datatype os_op = Write string | Flush | Endl

fun os_do :: "(string \<Rightarrow> ('w, int) sx) \<Rightarrow> os_op \<Rightarrow> ('w ostream, unit) sx" where
  "os_do wr (Write str) = os_write wr str"
| "os_do wr Flush = os_flush wr"
| "os_do wr Endl = os_endl wr"

fun os_run :: "(string \<Rightarrow> ('w, int) sx) \<Rightarrow> os_op list \<Rightarrow> ('w ostream, unit) sx" where
  "os_run wr [] = sret ()"
| "os_run wr (x # xs) = sbind (os_do wr x) (\<lambda>_. os_run wr xs)"

fun op_text :: "os_op \<Rightarrow> string" where
  "op_text (Write str) = str"
| "op_text Flush = []"
| "op_text Endl = [newline_char]"

section \<open>Input buffer\<close>

text \<open>The buffer with the three pointers \<^verbatim>\<open>eback()\<close>, \<^verbatim>\<open>gptr()\<close> and \<^verbatim>\<open>egptr()\<close> as indices.\<close>

record ibuffer =
  ib_size_pb :: nat
  ib_mem :: string
  ib_eback :: nat
  ib_gptr :: nat
  ib_egptr :: nat

definition new_istreambuf :: "int \<Rightarrow> int \<Rightarrow> ibuffer result" where
  "new_istreambuf n pb =
     (if n + pb < 0 then Inl (Logic_error ''cannot create std::vector larger than max_size()'')
      else rbind (assertion (n \<ge> 1) ''size >= 1'' ''include/nanonet/util.h'' 806) (\<lambda>_.
           rbind (assertion (pb \<ge> 1) ''size_pb >= 1'' ''include/nanonet/util.h'' 807) (\<lambda>_.
           Inr \<lparr>ib_size_pb = nat pb, ib_mem = replicate (nat (n + pb)) CHR 0x00,
                ib_eback = nat pb, ib_gptr = nat pb, ib_egptr = nat pb\<rparr>)))"

text \<open>\<open>count\<close> characters of \<open>xs\<close> stored from index \<open>at\<close> on: \<^verbatim>\<open>memmove\<close> and what \<^verbatim>\<open>read\<close> does.\<close>

definition store :: "nat \<Rightarrow> string \<Rightarrow> string \<Rightarrow> string" where
  "store i xs mem = take i mem @ xs @ drop (i + length xs) mem"

definition underflow :: "(nat \<Rightarrow> ('w, string option) sx) \<Rightarrow> (ibuffer \<times> 'w, char option) sx" where
  "underflow rd s =
     (case s of (b, w) \<Rightarrow>
        if ib_gptr b < ib_egptr b then (Inr (Some (ib_mem b ! ib_gptr b)), s)
        else
          let pb = ib_size_pb b;
              n_pb = min (ib_gptr b - ib_eback b) pb;
              b1 = b\<lparr>ib_mem := store (pb - n_pb) (take n_pb (drop (ib_gptr b - n_pb) (ib_mem b))) (ib_mem b)\<rparr>
          in case rd (length (ib_mem b) - pb) w of
               (Inl e, w') \<Rightarrow> (Inl e, (b1, w'))
             | (Inr None, w') \<Rightarrow> (Inr None, (b1, w'))
             | (Inr (Some d), w') \<Rightarrow>
                 if d = [] then (Inr None, (b1, w'))
                 else (Inr (Some (store pb d (ib_mem b1) ! pb)),
                       (b1\<lparr>ib_mem := store pb d (ib_mem b1), ib_eback := pb - n_pb, ib_gptr := pb,
                           ib_egptr := pb + length d\<rparr>, w')))"

text \<open>\<^verbatim>\<open>sbumpc\<close> takes a character, \<^verbatim>\<open>sungetc\<close> puts one back if there is room.\<close>

definition sbumpc :: "(nat \<Rightarrow> ('w, string option) sx) \<Rightarrow> (ibuffer \<times> 'w, char option) sx" where
  "sbumpc rd =
     sbind (underflow rd) (\<lambda>c s. (Inr c, (if c = None then s else ((fst s)\<lparr>ib_gptr := ib_gptr (fst s) + 1\<rparr>, snd s))))"

definition sungetc :: "(ibuffer \<times> 'w, char option) sx" where
  "sungetc s =
     (case s of (b, w) \<Rightarrow>
        if ib_eback b < ib_gptr b
        then (Inr (Some (ib_mem b ! (ib_gptr b - 1))), (b\<lparr>ib_gptr := ib_gptr b - 1\<rparr>, w))
        else (Inr None, s))"

fun get_chars :: "(nat \<Rightarrow> ('w, string option) sx) \<Rightarrow> nat \<Rightarrow> (ibuffer \<times> 'w, string) sx" where
  "get_chars rd 0 = sret []"
| "get_chars rd (Suc n) =
     sbind (sbumpc rd) (\<lambda>c. case c of None \<Rightarrow> sret [] | Some ch \<Rightarrow> sbind (get_chars rd n) (\<lambda>cs. sret (ch # cs)))"

section \<open>The contract of a reader_writer\<close>

text \<open>\<^verbatim>\<open>write\<close> delivers all of its argument and returns its length, or delivers a part of it and
  returns -1; \<^verbatim>\<open>read\<close> returns the next characters received, at most as many as asked for.\<close>

locale writer =
  fixes wr :: "string \<Rightarrow> ('w, int) sx"
    and sent :: "'w \<Rightarrow> string"
  assumes write_all: "wr d w = (Inr r, w') \<Longrightarrow> 0 \<le> r \<Longrightarrow> r = int (length d) \<and> sent w' = sent w @ d"
    and write_part: "wr d w = (Inr r, w') \<Longrightarrow> r < 0 \<Longrightarrow> \<exists>k \<le> length d. sent w' = sent w @ take k d"
begin

text \<open>Everything put into the buffer so far has been sent or is still in the buffer.\<close>

definition account :: "string \<Rightarrow> obuf \<times> 'w \<Rightarrow> bool" where
  "account acc s \<longleftrightarrow> ob_rw (fst s) \<and> length (ob_data (fst s)) < ob_size (fst s)
     \<and> sent (snd s) @ ob_data (fst s) = acc"

text \<open>After a failure: the buffer is within its bounds, and what was sent is a prefix.\<close>

definition failed :: "string \<Rightarrow> obuf \<times> 'w \<Rightarrow> bool" where
  "failed acc s \<longleftrightarrow> ob_rw (fst s) \<and> length (ob_data (fst s)) \<le> ob_size (fst s)
     \<and> (\<exists>rest. acc = sent (snd s) @ rest)"

lemma account_failed: "account acc s \<Longrightarrow> failed acc s"
  by (auto simp: account_def failed_def)

lemma failed_mono: "failed acc s \<Longrightarrow> failed (acc @ tl1) s"
  by (auto simp: failed_def)

lemma flush_wp:
  assumes "ob_rw (fst s)" "length (ob_data (fst s)) \<le> ob_size (fst s)" "0 < ob_size (fst s)"
  shows "ob_flush wr s = (Inr r, s') \<Longrightarrow>
    (if r then account (sent (snd s) @ ob_data (fst s)) s' \<and> ob_data (fst s') = []
     else failed (sent (snd s) @ ob_data (fst s)) s')"
proof -
  obtain b w where s: "s = (b, w)" by (cases s)
  assume f: "ob_flush wr s = (Inr r, s')"
  show ?thesis
  proof (cases "ob_data b")
    case Nil
    with f assms s show ?thesis by (auto simp: ob_flush_def account_def)
  next
    case (Cons c cs)
    obtain x w' where x: "wr (ob_data b) w = (x, w')" by (cases "wr (ob_data b) w")
    with f assms s Cons obtain i where i: "x = Inr i"
      by (cases x) (auto simp: ob_flush_def)
    show ?thesis
    proof (cases "i < 0")
      case True
      then have rs: "r = False" "s' = (b, w')"
        using f assms s Cons x i by (auto simp: ob_flush_def)
      obtain k where k: "sent w' = sent w @ take k (ob_data b)"
        using write_part x i True by blast
      have "sent w @ ob_data b = sent w' @ drop k (ob_data b)"
        by (simp add: k)
      then show ?thesis using rs assms s by (auto simp: failed_def)
    next
      case False
      then have "i = int (length (ob_data b))" "sent w' = sent w @ ob_data b"
        using write_all x i by auto
      then show ?thesis
        using f assms s Cons x i by (auto simp: ob_flush_def account_def)
    qed
  qed
qed

lemma sputc_wp:
  assumes "account acc s" "sputc wr c s = (Inr ok, s')"
  shows "if ok then account (acc @ [c]) s' else failed (acc @ [c]) s'"
proof (cases "length (ob_data (fst s)) < ob_size (fst s) - 1")
  case True
  with assms show ?thesis by (auto simp: sputc_def account_def)
next
  case False
  let ?s1 = "((fst s)\<lparr>ob_data := ob_data (fst s) @ [c]\<rparr>, snd s)"
  have "ob_flush wr ?s1 = (Inr ok, s')"
    using assms False by (auto simp: sputc_def ob_overflow_def account_def split: prod.splits)
  from flush_wp [OF _ _ _ this] show ?thesis
    using assms(1) by (auto simp: account_def split: if_splits)
qed

text \<open>No write is past the end of the buffer, and none aborts, as long as the reader_writer does not.\<close>

lemma flush_safe:
  "length (ob_data (fst s)) \<le> ob_size (fst s) \<Longrightarrow> ob_flush wr s = (Inl e, s') \<Longrightarrow>
     \<exists>d w w'. wr d w = (Inl e, w')"
  by (auto simp: ob_flush_def Let_def dest: write_all split: prod.splits sum.splits if_splits)

lemma sputc_safe:
  "account acc s \<Longrightarrow> sputc wr c s = (Inl e, s') \<Longrightarrow> \<exists>d w w'. wr d w = (Inl e, w')"
  by (auto simp: sputc_def ob_overflow_def account_def dest!: flush_safe [rotated] split: prod.splits if_splits)

lemma xsputn_wp:
  "account acc s \<Longrightarrow> xsputn wr str s = (Inr n, s') \<Longrightarrow>
     if n = length str then account (acc @ str) s' else failed (acc @ str) s'"
proof (induction str arbitrary: acc s n)
  case (Cons c cs)
  from Cons.prems(2) obtain ok s1 where ok: "sputc wr c s = (Inr ok, s1)"
    "(if ok then sbind (xsputn wr cs) (\<lambda>n. sret (Suc n)) else sret 0) s1 = (Inr n, s')"
    by (auto elim: sbind_InrE)
  note w = sputc_wp [OF Cons.prems(1) ok(1)]
  show ?case
  proof (cases ok)
    case True
    with ok(2) obtain m where m: "xsputn wr cs s1 = (Inr m, s')" "n = Suc m"
      by (auto elim: sbind_InrE)
    have "if m = length cs then account ((acc @ [c]) @ cs) s' else failed ((acc @ [c]) @ cs) s'"
      using w True by (intro Cons.IH [OF _ m(1)]) simp
    then show ?thesis using m(2) by (auto split: if_splits)
  next
    case False
    then have "failed (acc @ [c]) s'" "n = 0" using ok(2) w by auto
    then show ?thesis using failed_mono [of "acc @ [c]" s' cs] by simp
  qed
qed (simp)

lemma xsputn_safe:
  "account acc s \<Longrightarrow> xsputn wr str s = (Inl e, s') \<Longrightarrow> \<exists>d w w'. wr d w = (Inl e, w')"
proof (induction str arbitrary: acc s)
  case (Cons c cs)
  from Cons.prems(2) show ?case
  proof (simp, elim sbind_InlE)
    assume "sputc wr c s = (Inl e, s')"
    then show ?thesis by (rule sputc_safe [OF Cons.prems(1)])
  next
    fix ok s1
    assume ok: "sputc wr c s = (Inr ok, s1)"
      "(if ok then sbind (xsputn wr cs) (\<lambda>n. sret (Suc n)) else sret 0) s1 = (Inl e, s')"
    then have "ok" "xsputn wr cs s1 = (Inl e, s')"
      by (auto simp: sbind_def split: if_splits prod.splits sum.splits)
    then show ?thesis
      using sputc_wp [OF Cons.prems(1) ok(1)] Cons.IH [of "acc @ [c]" s1] by simp
  qed
qed simp

text \<open>The stream: as long as it is not bad, everything written is accounted for.\<close>

definition stream_ok :: "string \<Rightarrow> 'w ostream \<Rightarrow> bool" where
  "stream_ok acc s \<longleftrightarrow> (if fst s then failed acc (snd s) else account acc (snd s))"

lemma os_write_ok:
  assumes "stream_ok acc s"
  shows "os_write wr str s = (Inr u, s') \<Longrightarrow> stream_ok (acc @ str) s'"
    and "os_write wr str s = (Inl e, s') \<Longrightarrow> \<exists>d w w'. wr d w = (Inl e, w')"
  using assms failed_mono xsputn_wp xsputn_safe
  by (fastforce simp: os_write_def stream_ok_def split: prod.splits sum.splits if_splits)+

lemma os_flush_ok:
  assumes "stream_ok acc s"
  shows "os_flush wr s = (Inr u, s') \<Longrightarrow> stream_ok acc s' \<and> (\<not> fst s' \<longrightarrow> sent (snd (snd s')) = acc)"
    and "os_flush wr s = (Inl e, s') \<Longrightarrow> \<exists>d w w'. wr d w = (Inl e, w')"
proof -
  obtain bad bw where s: "s = (bad, bw)" by (cases s)
  show "stream_ok acc s' \<and> (\<not> fst s' \<longrightarrow> sent (snd (snd s')) = acc)" if f: "os_flush wr s = (Inr u, s')"
  proof (cases bad)
    case True
    with f s assms show ?thesis by (auto simp: os_flush_def)
  next
    case False
    then have a: "account acc bw" using assms s by (simp add: stream_ok_def)
    from f s False obtain r bw' where r: "ob_flush wr bw = (Inr r, bw')" "s' = (\<not> r, bw')"
      by (auto simp: os_flush_def ob_sync_def sbind_def split: prod.splits sum.splits if_splits)
    have "if r then account (sent (snd bw) @ ob_data (fst bw)) bw' \<and> ob_data (fst bw') = []
        else failed (sent (snd bw) @ ob_data (fst bw)) bw'"
      using a by (intro flush_wp [OF _ _ _ r(1)]) (auto simp: account_def)
    then show ?thesis
      using a r(2) by (auto simp: stream_ok_def account_def)
  qed
  show "\<exists>d w w'. wr d w = (Inl e, w')" if "os_flush wr s = (Inl e, s')"
  proof -
    from that s have b: "\<not> bad" and "\<exists>bw'. ob_flush wr bw = (Inl e, bw')"
      by (auto simp: os_flush_def ob_sync_def sbind_def split: prod.splits sum.splits if_splits)
    moreover have "length (ob_data (fst bw)) \<le> ob_size (fst bw)"
      using assms s b by (simp add: stream_ok_def account_def)
    ultimately show ?thesis using flush_safe by blast
  qed
qed


lemma os_do_ok:
  assumes "stream_ok acc s"
  shows "os_do wr x s = (Inr u, s') \<Longrightarrow> stream_ok (acc @ op_text x) s'"
    and "os_do wr x s = (Inl e, s') \<Longrightarrow> \<exists>d w w'. wr d w = (Inl e, w')"
proof -
  show "stream_ok (acc @ op_text x) s'" if "os_do wr x s = (Inr u, s')"
  proof (cases x)
    case (Write str)
    with that show ?thesis using os_write_ok(1) [OF assms] by simp
  next
    case Flush
    with that show ?thesis using os_flush_ok(1) [OF assms] by simp
  next
    case Endl
    with that have "sbind (os_write wr [newline_char]) (\<lambda>_. os_flush wr) s = (Inr u, s')"
      by (simp add: os_endl_def)
    then obtain v s1 where "os_write wr [newline_char] s = (Inr v, s1)" "os_flush wr s1 = (Inr u, s')"
      by (rule sbind_InrE)
    then show ?thesis using os_flush_ok(1) [OF os_write_ok(1) [OF assms]] Endl by simp
  qed
  show "\<exists>d w w'. wr d w = (Inl e, w')" if "os_do wr x s = (Inl e, s')"
  proof (cases x)
    case (Write str)
    with that show ?thesis using os_write_ok(2) [OF assms] by simp
  next
    case Flush
    with that show ?thesis using os_flush_ok(2) [OF assms] by simp
  next
    case Endl
    with that have "sbind (os_write wr [newline_char]) (\<lambda>_. os_flush wr) s = (Inl e, s')"
      by (simp add: os_endl_def)
    then show ?thesis
    proof (rule sbind_InlE)
      fix v s1
      assume "os_write wr [newline_char] s = (Inr v, s1)" "os_flush wr s1 = (Inl e, s')"
      then show ?thesis using os_flush_ok(2) [OF os_write_ok(1) [OF assms]] by blast
    qed (rule os_write_ok(2) [OF assms])
  qed
qed

lemma os_run_ok:
  "stream_ok acc s \<Longrightarrow> os_run wr xs s = (Inr u, s') \<Longrightarrow> stream_ok (acc @ concat (map op_text xs)) s'"
proof (induction xs arbitrary: acc s)
  case (Cons x xs)
  from Cons.prems(2) obtain v s1 where "os_do wr x s = (Inr v, s1)" "os_run wr xs s1 = (Inr u, s')"
    by (auto elim: sbind_InrE)
  then show ?case using Cons.IH [of "acc @ op_text x" s1] os_do_ok(1) [OF Cons.prems(1)] by simp
qed simp

lemma os_run_safe:
  "stream_ok acc s \<Longrightarrow> os_run wr xs s = (Inl e, s') \<Longrightarrow> \<exists>d w w'. wr d w = (Inl e, w')"
proof (induction xs arbitrary: acc s)
  case (Cons x xs)
  from Cons.prems(2) show ?case
  proof (simp, elim sbind_InlE)
    assume "os_do wr x s = (Inl e, s')"
    then show ?thesis by (rule os_do_ok(2) [OF Cons.prems(1)])
  next
    fix v s1
    assume "os_do wr x s = (Inr v, s1)" "os_run wr xs s1 = (Inl e, s')"
    then show ?thesis using Cons.IH os_do_ok(1) [OF Cons.prems(1)] by blast
  qed
qed simp

text \<open>A program that ends with a flush on a good stream has sent everything.\<close>

lemma os_run_flushed:
  assumes "stream_ok acc s" "os_run wr (xs @ [Flush]) s = (Inr u, s')" "\<not> fst s'"
  shows "sent (snd (snd s')) = acc @ concat (map op_text xs)"
proof -
  have "os_run wr (ys @ [Flush]) s0 = sbind (os_run wr ys) (\<lambda>_. os_flush wr) s0" for ys s0
    by (induction ys arbitrary: s0) (simp_all add: sbind_def split: prod.splits sum.splits)
  with assms(2) obtain v s1 where "os_run wr xs s = (Inr v, s1)" "os_flush wr s1 = (Inr u, s')"
    by (auto elim: sbind_InrE)
  then show ?thesis using os_run_ok [OF assms(1)] os_flush_ok(1) assms(3) by blast
qed

lemma new_stream_ok:
  assumes "new_ostreambuf True n = Inr b"
  shows "stream_ok (sent w) (False, b, w)"
  using assms by (auto simp: new_ostreambuf_def rbind_Inr_iff stream_ok_def account_def split: if_splits)

end

locale reader =
  fixes rd :: "nat \<Rightarrow> ('w, string option) sx"
    and received :: "'w \<Rightarrow> string"
  assumes read_some: "rd n w = (Inr (Some d), w') \<Longrightarrow> length d \<le> n \<and> received w' = received w @ d"
    and read_error: "rd n w = (Inr None, w') \<Longrightarrow> received w' = received w"

section \<open>Facts of the input buffer\<close>

lemma store_length [simp]: "i + length xs \<le> length mem \<Longrightarrow> length (store i xs mem) = length mem"
  by (simp add: store_def)

lemma store_take: "i \<le> length mem \<Longrightarrow> take i (store i xs mem) = take i mem"
  by (simp add: store_def)

lemma store_at: "i \<le> length mem \<Longrightarrow> take (length xs) (drop i (store i xs mem)) = xs"
  by (simp add: store_def)

definition unread :: "ibuffer \<Rightarrow> string" where
  "unread b = take (ib_egptr b - ib_gptr b) (drop (ib_gptr b) (ib_mem b))"

definition ib_inv :: "ibuffer \<Rightarrow> bool" where
  "ib_inv b \<longleftrightarrow> 1 \<le> ib_size_pb b \<and> ib_size_pb b < length (ib_mem b)
     \<and> ib_eback b \<le> ib_gptr b \<and> ib_gptr b \<le> ib_egptr b \<and> ib_egptr b \<le> length (ib_mem b)
     \<and> ib_size_pb b \<le> ib_egptr b"

text \<open>The characters that can be put back are the last ones consumed, and there are as many as the
  putback area has room for, or all of them.\<close>

definition putback_inv :: "string \<Rightarrow> ibuffer \<Rightarrow> bool" where
  "putback_inv consumed b \<longleftrightarrow>
     (let j = ib_gptr b - ib_eback b
      in j \<le> length consumed \<and> min (length consumed) (ib_size_pb b) \<le> j
         \<and> take j (drop (ib_eback b) (ib_mem b)) = drop (length consumed - j) consumed)"


fun unget_chars :: "nat \<Rightarrow> (ibuffer \<times> 'w, string) sx" where
  "unget_chars 0 = sret []"
| "unget_chars (Suc n) =
     sbind sungetc (\<lambda>c. case c of None \<Rightarrow> sret [] | Some ch \<Rightarrow> sbind (unget_chars n) (\<lambda>cs. sret (ch # cs)))"

lemma unget_chars_eq:
  "k \<le> ib_gptr b - ib_eback b \<Longrightarrow> ib_gptr b \<le> length (ib_mem b) \<Longrightarrow>
     unget_chars k (b, w) =
       (Inr (rev (take k (drop (ib_gptr b - k) (ib_mem b)))), (b\<lparr>ib_gptr := ib_gptr b - k\<rparr>, w))"
proof (induction k arbitrary: b)
  case (Suc k)
  let ?g = "ib_gptr b" and ?m = "ib_mem b"
  let ?b = "b\<lparr>ib_gptr := ?g - 1\<rparr>"
  have "unget_chars k (?b, w) =
      (Inr (rev (take k (drop (?g - 1 - k) ?m))), (?b\<lparr>ib_gptr := ?g - 1 - k\<rparr>, w))"
    using Suc.IH [of ?b] Suc.prems by simp
  moreover have "take (Suc k) (drop (?g - Suc k) ?m) = take k (drop (?g - Suc k) ?m) @ [?m ! (?g - 1)]"
    using Suc.prems by (subst take_Suc_conv_app_nth) auto
  ultimately show ?case using Suc.prems by (simp add: sungetc_def sbind_def)
qed simp

lemma unread_nonempty:
  "ib_inv b \<Longrightarrow> ib_gptr b < ib_egptr b \<Longrightarrow> unread b = ib_mem b ! ib_gptr b # unread (b\<lparr>ib_gptr := ib_gptr b + 1\<rparr>)"
  unfolding unread_def ib_inv_def
  by (simp add: Cons_nth_drop_Suc [symmetric] take_Cons' Suc_diff_Suc)

lemma unread_empty: "ib_gptr b = ib_egptr b \<Longrightarrow> unread b = []"
  by (simp add: unread_def)

lemma putback_tail:
  assumes "ib_inv b" "putback_inv consumed b" "n \<le> ib_gptr b - ib_eback b"
  shows "take n (drop (ib_gptr b - n) (ib_mem b)) = drop (length consumed - n) consumed"
proof -
  let ?j = "ib_gptr b - ib_eback b"
  have j: "?j \<le> length consumed" "take ?j (drop (ib_eback b) (ib_mem b)) = drop (length consumed - ?j) consumed"
    using assms(2) by (simp_all add: putback_inv_def Let_def)
  have "ib_eback b \<le> ib_gptr b" using assms(1) by (simp add: ib_inv_def)
  then have "take n (drop (ib_gptr b - n) (ib_mem b)) = drop (?j - n) (take ?j (drop (ib_eback b) (ib_mem b)))"
    using assms(3) by (simp add: drop_take)
  also have "\<dots> = drop (length consumed - n) consumed"
    unfolding j(2) drop_drop
    by (rule arg_cong [where f = "\<lambda>i. drop i consumed"]) (use assms(3) j(1) in arith)
  finally show ?thesis .
qed

text \<open>Moving the last \<open>n\<close> characters consumed to the putback area and storing new ones behind it.\<close>

lemma refill_putback:
  assumes "ib_inv b" "putback_inv consumed b" "n = min (ib_gptr b - ib_eback b) (ib_size_pb b)"
    and "m = store (ib_size_pb b - n) (take n (drop (ib_gptr b - n) (ib_mem b))) (ib_mem b)"
    and "length d \<le> length (ib_mem b) - ib_size_pb b"
  shows "take n (drop (ib_size_pb b - n) (store (ib_size_pb b) d m)) = drop (length consumed - n) consumed"
proof -
  let ?j = "ib_gptr b - ib_eback b" and ?pb = "ib_size_pb b"
  let ?x = "take n (drop (ib_gptr b - n) (ib_mem b))"
  have n: "n \<le> ?j" "n \<le> ?pb"
    using assms(3) by simp_all
  have i: "ib_eback b \<le> ib_gptr b" "ib_gptr b \<le> length (ib_mem b)" "?pb < length (ib_mem b)"
    using assms(1) by (auto simp: ib_inv_def)
  have lx: "length ?x = n" using i n by simp
  have "take n (drop (?pb - n) (store ?pb d m)) = drop (?pb - n) (take ?pb (store ?pb d m))"
    using n by (simp add: drop_take)
  also have "\<dots> = drop (?pb - n) (take ?pb m)"
    using i n lx by (subst store_take) (simp_all add: assms(4))
  also have "\<dots> = take n (drop (?pb - n) m)"
    using n by (simp add: drop_take)
  also have "\<dots> = ?x"
    unfolding assms(4) using i n lx store_at [of "?pb - n" "ib_mem b" ?x] by simp
  also have "\<dots> = drop (length consumed - n) consumed"
    by (rule putback_tail [OF assms(1,2) n(1)])
  finally show ?thesis .
qed

context reader begin

definition in_account :: "string \<Rightarrow> ibuffer \<times> 'w \<Rightarrow> bool" where
  "in_account consumed s \<longleftrightarrow> ib_inv (fst s) \<and> received (snd s) = consumed @ unread (fst s)"

lemma underflow_ok:
  assumes "in_account consumed s" "putback_inv consumed (fst s)" "underflow rd s = (Inr r, s')"
  shows "case r of
      None \<Rightarrow> received (snd s') = consumed
    | Some c \<Rightarrow> in_account consumed s' \<and> putback_inv consumed (fst s') \<and> ib_gptr (fst s') < ib_egptr (fst s')
        \<and> ib_mem (fst s') ! ib_gptr (fst s') = c"
proof -
  obtain b w where s: "s = (b, w)" by (cases s)
  have i: "ib_inv b" "received w = consumed @ unread b" "putback_inv consumed b"
    using assms(1,2) s by (simp_all add: in_account_def)
  show ?thesis
  proof (cases "ib_gptr b < ib_egptr b")
    case True
    with assms s show ?thesis by (auto simp: underflow_def)
  next
    case False
    define pb where "pb = ib_size_pb b"
    define n where "n = min (ib_gptr b - ib_eback b) pb"
    define m where "m = store (pb - n) (take n (drop (ib_gptr b - n) (ib_mem b))) (ib_mem b)"
    have e: "ib_gptr b = ib_egptr b" using False i(1) by (simp add: ib_inv_def)
    then have rc: "received w = consumed" using i(2) by (simp add: unread_empty)
    obtain x w' where x: "rd (length (ib_mem b) - pb) w = (x, w')" by (cases "rd (length (ib_mem b) - pb) w")
    with assms(3) s False obtain o1 where o: "x = Inr o1"
      by (cases x) (auto simp: underflow_def Let_def pb_def)
    have ib: "pb < length (ib_mem b)" "1 \<le> pb" "n \<le> pb"
      using i(1) by (simp_all add: ib_inv_def pb_def n_def)
    have lm: "length m = length (ib_mem b)"
      using ib i(1) by (simp add: m_def n_def ib_inv_def)
    show ?thesis
    proof (cases "o1 = None \<or> o1 = Some []")
      case True
      then have "r = None" "snd s' = w'"
        using assms(3) s False x o by (auto simp: underflow_def Let_def pb_def)
      moreover have "received w' = received w"
        using True x o read_error read_some [of _ w "[]" w'] by auto
      ultimately show ?thesis using rc by simp
    next
      case False
      then obtain d where d: "o1 = Some d" "d \<noteq> []" by auto
      let ?m = "store pb d m"
      let ?b = "b\<lparr>ib_mem := ?m, ib_eback := pb - n, ib_gptr := pb, ib_egptr := pb + length d\<rparr>"
      have r: "r = Some (?m ! pb)" "s' = (?b, w')"
        using assms(3) s \<open>\<not> ib_gptr b < ib_egptr b\<close> x o d
        by (auto simp: underflow_def Let_def pb_def n_def m_def)
      have rd: "length d \<le> length (ib_mem b) - pb" "received w' = consumed @ d"
        using read_some x o d rc by auto
      then have l: "length ?m = length (ib_mem b)" using lm ib by simp
      have u: "unread ?b = d"
        using ib lm store_at [of pb m d] by (simp add: unread_def)
      have "ib_inv ?b" using ib l rd(1) by (simp add: ib_inv_def flip: pb_def)
      moreover have "take n (drop (pb - n) ?m) = drop (length consumed - n) consumed"
        using refill_putback [OF i(1,3) n_def [unfolded pb_def] m_def [unfolded pb_def]] rd(1)
        by (simp flip: pb_def)
      moreover have "n \<le> length consumed" "min (length consumed) pb \<le> n"
        using i(3) by (auto simp: putback_inv_def n_def pb_def Let_def)
      ultimately show ?thesis
        using r rd(2) u ib d(2) by (simp add: in_account_def putback_inv_def Let_def flip: pb_def)
    qed
  qed
qed

lemma putback_bump:
  assumes "ib_inv b" "putback_inv consumed b" "ib_gptr b < ib_egptr b"
  shows "putback_inv (consumed @ [ib_mem b ! ib_gptr b]) (b\<lparr>ib_gptr := ib_gptr b + 1\<rparr>)"
proof -
  have "Suc (ib_gptr b) - ib_eback b = Suc (ib_gptr b - ib_eback b)" "ib_gptr b < length (ib_mem b)"
    using assms(1,3) by (auto simp: ib_inv_def)
  moreover have "ib_mem b ! (ib_eback b + (ib_gptr b - ib_eback b)) = ib_mem b ! ib_gptr b"
    using assms(1) by (simp add: ib_inv_def)
  ultimately show ?thesis
    using assms(2) by (auto simp: putback_inv_def Let_def take_Suc_conv_app_nth)
qed

lemma sbumpc_ok:
  assumes "in_account consumed s" "putback_inv consumed (fst s)" "sbumpc rd s = (Inr r, s')"
  shows "case r of
      None \<Rightarrow> received (snd s') = consumed
    | Some c \<Rightarrow> in_account (consumed @ [c]) s' \<and> putback_inv (consumed @ [c]) (fst s')"
proof -
  obtain s1 where u: "underflow rd s = (Inr r, s1)"
    "s' = (if r = None then s1 else ((fst s1)\<lparr>ib_gptr := ib_gptr (fst s1) + 1\<rparr>, snd s1))"
    using assms(3) by (auto simp: sbumpc_def elim!: sbind_InrE)
  note o = underflow_ok [OF assms(1,2) u(1)]
  show ?thesis
  proof (cases r)
    case (Some c)
    have "ib_inv (fst s1)" using o Some by (simp add: in_account_def)
    then show ?thesis
      using o u(2) Some putback_bump [of "fst s1" consumed] unread_nonempty [of "fst s1"]
      by (auto simp: in_account_def ib_inv_def)
  qed (use o u(2) in simp)
qed

lemma get_chars_ok:
  "in_account consumed s \<Longrightarrow> putback_inv consumed (fst s) \<Longrightarrow> get_chars rd n s = (Inr cs, s') \<Longrightarrow>
     (if length cs = n then in_account (consumed @ cs) s' \<and> putback_inv (consumed @ cs) (fst s')
      else length cs < n \<and> received (snd s') = consumed @ cs)"
proof (induction n arbitrary: consumed s cs)
  case (Suc n)
  from Suc.prems(3) obtain c s1 where c: "sbumpc rd s = (Inr c, s1)"
    "(case c of None \<Rightarrow> sret [] | Some ch \<Rightarrow> sbind (get_chars rd n) (\<lambda>cs. sret (ch # cs))) s1 = (Inr cs, s')"
    by (auto elim: sbind_InrE)
  note b = sbumpc_ok [OF Suc.prems(1,2) c(1)]
  show ?case
  proof (cases c)
    case None
    then show ?thesis using b c(2) by auto
  next
    case (Some ch)
    with c(2) obtain ds where "get_chars rd n s1 = (Inr ds, s')" "cs = ch # ds"
      by (auto elim: sbind_InrE)
    then show ?thesis using Suc.IH [of "consumed @ [ch]" s1 ds] b Some by (auto split: if_splits)
  qed
qed simp

lemma get_chars_size_pb: "get_chars rd n s = (Inr cs, s') \<Longrightarrow> ib_size_pb (fst s') = ib_size_pb (fst s)"
proof (induction n arbitrary: s cs)
  case (Suc n)
  from Suc.prems obtain c s1 where c: "sbumpc rd s = (Inr c, s1)"
    "(case c of None \<Rightarrow> sret [] | Some ch \<Rightarrow> sbind (get_chars rd n) (\<lambda>cs. sret (ch # cs))) s1 = (Inr cs, s')"
    by (auto elim: sbind_InrE)
  have "ib_size_pb (fst s1) = ib_size_pb (fst s)"
    using c(1) by (auto simp: sbumpc_def underflow_def sbind_def Let_def
        split: prod.splits sum.splits option.splits if_splits)
  then show ?case
    using c(2) Suc.IH [of s1] by (cases c) (auto elim: sbind_InrE)
qed simp

lemma new_istreambuf_ok:
  "new_istreambuf n pb = Inr b \<Longrightarrow> received w = [] \<Longrightarrow> in_account [] (b, w) \<and> putback_inv [] b"
  by (auto simp: new_istreambuf_def rbind_Inr_iff in_account_def putback_inv_def ib_inv_def unread_def
      split: if_splits)

text \<open>What a program reads is what arrives, in order and without gaps, and the last characters read
  can be put back.\<close>

lemma read_then_unget:
  assumes "new_istreambuf n pb = Inr b" "received w = []" "get_chars rd k (b, w) = (Inr cs, (b', w'))"
  shows "(\<exists>rest. received w' = cs @ rest) \<and> (length cs < k \<longrightarrow> received w' = cs) \<and> length cs \<le> k
    \<and> (length cs = k \<longrightarrow> j \<le> min k (nat pb) \<longrightarrow> fst (unget_chars j (b', w')) = Inr (rev (drop (k - j) cs)))"
proof -
  note g = get_chars_ok [OF conjunct1 [OF new_istreambuf_ok] _ assms(3), OF assms(1,2)]
  have pi: "putback_inv [] (fst (b, w))" using new_istreambuf_ok [OF assms(1,2)] by simp
  note g = g [OF pi]
  have "fst (unget_chars j (b', w')) = Inr (rev (drop (k - j) cs))" if l: "length cs = k" and j: "j \<le> min k (nat pb)"
  proof -
    have i: "ib_inv b'" "putback_inv cs b'" using g l by (simp_all add: in_account_def)
    have "ib_size_pb b' = nat pb"
      using get_chars_size_pb [OF assms(3)] assms(1)
      by (auto simp: new_istreambuf_def rbind_Inr_iff split: if_splits)
    then have "j \<le> ib_gptr b' - ib_eback b'"
      using i(2) l j by (auto simp: putback_inv_def Let_def)
    then show ?thesis
      using unget_chars_eq [of j b' w'] putback_tail [OF i, of j] i(1) l by (simp add: ib_inv_def)
  qed
  then show ?thesis using g by (auto simp: in_account_def split: if_splits)
qed

end

locale reader_writer = reader rd received + writer wr sent
  for rd :: "nat \<Rightarrow> ('w, string option) sx" and received :: "'w \<Rightarrow> string"
    and wr :: "string \<Rightarrow> ('w, int) sx" and sent :: "'w \<Rightarrow> string"

end
