(* ===== verification/Resources.thy ===== *)
theory Resources
  imports Base "HOL-Library.Multiset"
begin

text \<open>
  \<^verbatim>\<open>auto_resource\<close> of \<^verbatim>\<open>nanonet/util.h\<close> and its users: POSIX descriptors, sockets and the
  increment sentry. A program handles a number of resource objects; the model keeps the handle of
  each object and a record of the handles that were given to objects, disposed of, and lost when
  the handle of an object was overwritten.
\<close>

section \<open>Objects\<close>

record 'r resources =
  handles :: "'r list"
  acquired :: "'r list"
  disposed :: "'r list"
  overwritten :: "'r list"

definition res_init :: "'r \<Rightarrow> nat \<Rightarrow> 'r resources" where
  "res_init invalid n = \<lparr>handles = replicate n invalid, acquired = [], disposed = [], overwritten = []\<rparr>"

text \<open>\<^verbatim>\<open>dispose\<close> of the object \<open>i\<close>, which does not change its handle.\<close>

definition ar_dispose :: "('r \<Rightarrow> bool) \<Rightarrow> nat \<Rightarrow> 'r resources \<Rightarrow> 'r resources" where
  "ar_dispose valid i s =
     (if valid (handles s ! i) then s\<lparr>disposed := disposed s @ [handles s ! i]\<rparr> else s)"

definition ar_release :: "'r \<Rightarrow> nat \<Rightarrow> 'r resources \<Rightarrow> 'r \<times> 'r resources" where
  "ar_release invalid i s = (handles s ! i, s\<lparr>handles := (handles s)[i := invalid]\<rparr>)"

text \<open>Construction of the object \<open>i\<close> from a handle; the objects start out as default constructed.\<close>

definition ar_create :: "('r \<Rightarrow> bool) \<Rightarrow> nat \<Rightarrow> 'r \<Rightarrow> 'r resources \<Rightarrow> 'r resources" where
  "ar_create valid i h s =
     s\<lparr>handles := (handles s)[i := h], acquired := acquired s @ filter valid [h]\<rparr>"

definition ar_move_construct :: "'r \<Rightarrow> nat \<Rightarrow> nat \<Rightarrow> 'r resources \<Rightarrow> 'r resources" where
  "ar_move_construct invalid i j s =
     (case ar_release invalid j s of (h, s') \<Rightarrow> s'\<lparr>handles := (handles s')[i := h]\<rparr>)"

text \<open>The move assignment \<^verbatim>\<open>h = rhs.release()\<close>.\<close>

definition ar_move_assign :: "'r \<Rightarrow> ('r \<Rightarrow> bool) \<Rightarrow> nat \<Rightarrow> nat \<Rightarrow> 'r resources \<Rightarrow> 'r resources" where
  "ar_move_assign invalid valid i j s =
     (case ar_release invalid j s of
        (h, s') \<Rightarrow> s'\<lparr>overwritten := overwritten s' @ filter valid [handles s' ! i],
                      handles := (handles s')[i := h]\<rparr>)"

definition ar_reset :: "('r \<Rightarrow> bool) \<Rightarrow> nat \<Rightarrow> 'r \<Rightarrow> 'r resources \<Rightarrow> 'r resources" where
  "ar_reset valid i hh s =
     (let s' = ar_dispose valid i s
      in s'\<lparr>handles := (handles s')[i := hh], acquired := acquired s' @ filter valid [hh]\<rparr>)"

text \<open>The destructor; the slot may then hold a new object.\<close>

definition ar_destroy :: "'r \<Rightarrow> ('r \<Rightarrow> bool) \<Rightarrow> nat \<Rightarrow> 'r resources \<Rightarrow> 'r resources" where
  "ar_destroy invalid valid i s =
     (let s' = ar_dispose valid i s in s'\<lparr>handles := (handles s')[i := invalid]\<rparr>)"

datatype 'r res_op =
    Create nat 'r | Move_construct nat nat | Move_assign nat nat | Reset nat 'r | Destroy nat

fun res_step :: "'r \<Rightarrow> ('r \<Rightarrow> bool) \<Rightarrow> 'r res_op \<Rightarrow> 'r resources \<Rightarrow> 'r resources" where
  "res_step invalid valid (Create i h) = ar_create valid i h"
| "res_step invalid valid (Move_construct i j) = ar_move_construct invalid i j"
| "res_step invalid valid (Move_assign i j) = ar_move_assign invalid valid i j"
| "res_step invalid valid (Reset i h) = ar_reset valid i h"
| "res_step invalid valid (Destroy i) = ar_destroy invalid valid i"

text \<open>A constructor works on a slot without a live object.\<close>

fun res_ok :: "('r \<Rightarrow> bool) \<Rightarrow> 'r res_op \<Rightarrow> 'r resources \<Rightarrow> bool" where
  "res_ok valid (Create i h) s = (i < length (handles s) \<and> \<not> valid (handles s ! i))"
| "res_ok valid (Move_construct i j) s =
     (i < length (handles s) \<and> j < length (handles s) \<and> i \<noteq> j \<and> \<not> valid (handles s ! i))"
| "res_ok valid (Move_assign i j) s = (i < length (handles s) \<and> j < length (handles s))"
| "res_ok valid (Reset i h) s = (i < length (handles s))"
| "res_ok valid (Destroy i) s = (i < length (handles s))"

fun res_run :: "'r \<Rightarrow> ('r \<Rightarrow> bool) \<Rightarrow> 'r res_op list \<Rightarrow> 'r resources \<Rightarrow> 'r resources option" where
  "res_run invalid valid [] s = Some s"
| "res_run invalid valid (x # xs) s =
     (if res_ok valid x s then res_run invalid valid xs (res_step invalid valid x s) else None)"

section \<open>Accounting\<close>

lemma mset_filter_update:
  "i < length hs \<Longrightarrow>
     mset (filter P (hs[i := h])) + mset (filter P [hs ! i]) = mset (filter P hs) + mset (filter P [h])"
proof (induction hs arbitrary: i)
  case (Cons v hs)
  then show ?case by (cases i) auto
qed simp

locale resource_traits =
  fixes invalid :: 'r and valid :: "'r \<Rightarrow> bool"
  assumes invalid_not_valid: "\<not> valid invalid"
begin

definition held :: "'r resources \<Rightarrow> 'r multiset" where
  "held s = mset (filter valid (handles s))"

definition balanced :: "'r resources \<Rightarrow> bool" where
  "balanced s \<longleftrightarrow> mset (acquired s) = mset (disposed s) + held s + mset (overwritten s)"

lemma held_update:
  "i < length (handles s) \<Longrightarrow>
     mset (filter valid ((handles s)[i := h])) + mset (filter valid [handles s ! i]) = held s + mset (filter valid [h])"
  unfolding held_def by (rule mset_filter_update)

lemma balanced_step:
  assumes "balanced s" "res_ok valid x s"
  shows "balanced (res_step invalid valid x s)"
proof (cases x)
  case (Create i h)
  then show ?thesis
    using assms held_update [of i s h] by (auto simp: balanced_def ar_create_def held_def split: if_splits)
next
  case (Move_construct i j)
  then show ?thesis
    using assms held_update [of j s invalid] invalid_not_valid
      mset_filter_update [of i "(handles s)[j := invalid]" valid "handles s ! j"]
    by (auto simp: balanced_def ar_move_construct_def ar_release_def held_def split: if_splits)
next
  case (Move_assign i j)
  then show ?thesis
    using assms held_update [of j s invalid] invalid_not_valid
      mset_filter_update [of i "(handles s)[j := invalid]" valid "handles s ! j"]
    by (auto simp: balanced_def ar_move_assign_def ar_release_def held_def ac_simps split: if_splits)
next
  case (Reset i h)
  then show ?thesis
    using assms held_update [of i s h]
    by (auto simp: balanced_def ar_reset_def ar_dispose_def held_def Let_def ac_simps split: if_splits)
next
  case (Destroy i)
  then show ?thesis
    using assms held_update [of i s invalid] invalid_not_valid
    by (auto simp: balanced_def ar_destroy_def ar_dispose_def held_def Let_def ac_simps split: if_splits)
qed

lemma balanced_run: "res_run invalid valid xs s = Some s' \<Longrightarrow> balanced s \<Longrightarrow> balanced s'"
  by (induction xs arbitrary: s) (auto simp: balanced_step split: if_splits)

lemma balanced_init: "balanced (res_init invalid n)"
  by (simp add: balanced_def res_init_def held_def invalid_not_valid)

end

section \<open>The traits of the library\<close>

definition posix_invalid :: int where
  "posix_invalid = - 1"

definition posix_valid :: "int \<Rightarrow> bool" where
  "posix_valid h \<longleftrightarrow> h \<ge> 0"

definition invalid_socket :: int where
  "invalid_socket = - 1"

definition socket_valid :: "int \<Rightarrow> bool" where
  "socket_valid s \<longleftrightarrow> invalid_socket \<noteq> s \<and> s \<ge> 0"

text \<open>The handle of an increment sentry is a pointer to the counter: an address, or \<^verbatim>\<open>nullptr\<close>.\<close>

definition sentry_valid :: "nat option \<Rightarrow> bool" where
  "sentry_valid p \<longleftrightarrow> p \<noteq> None"

text \<open>The counter at an address: incremented by \<^verbatim>\<open>initialize\<close>, decremented by \<^verbatim>\<open>dispose\<close>.\<close>

definition sentry_counter :: "nat \<Rightarrow> nat option resources \<Rightarrow> int" where
  "sentry_counter a s =
     int (count (mset (acquired s)) (Some a)) - int (count (mset (disposed s)) (Some a))"

interpretation posix_fds: resource_traits posix_invalid posix_valid
  by unfold_locales (simp add: posix_invalid_def posix_valid_def)

interpretation sockets: resource_traits invalid_socket socket_valid
  by unfold_locales (simp add: invalid_socket_def socket_valid_def)

interpretation sentries: resource_traits None sentry_valid
  by unfold_locales (simp add: sentry_valid_def)

section \<open>Properties\<close>

text \<open>C39: Accounting of socket handles. Whatever a program does with its resource objects, every valid
  handle that was put into one has been closed once, is held by one object, or was in an object
  when another one was move-assigned to it; so once all objects are destroyed, the handles that
  have not been closed are exactly those that a move assignment has overwritten.\<close>

theorem sockets_are_closed_once:
  assumes "res_run invalid_socket socket_valid xs (res_init invalid_socket n) = Some s"
  shows "mset (acquired s) = mset (disposed s) + mset (filter socket_valid (handles s)) + mset (overwritten s)
    \<and> ((\<forall>h \<in> set (handles s). \<not> socket_valid h) \<longrightarrow> mset (acquired s) = mset (disposed s) + mset (overwritten s))"
proof -
  have "mset (acquired s) = mset (disposed s) + mset (filter socket_valid (handles s)) + mset (overwritten s)"
    using sockets.balanced_run [OF assms sockets.balanced_init]
    by (simp add: sockets.balanced_def sockets.held_def)
  then show ?thesis by auto
qed

lemma sockets_are_closed_once_witness:
  "\<exists>s. res_run invalid_socket socket_valid [Create 0 5, Create 1 6, Move_assign 0 1, Destroy 0, Destroy 1]
       (res_init invalid_socket 2) = Some s
     \<and> mset (acquired s) = mset (disposed s) + mset (overwritten s) \<and> disposed s = [6] \<and> overwritten s = [5]"
proof -
  let ?xs = "[Create 0 5, Create 1 6, Move_assign 0 1, Destroy 0, Destroy 1] :: int res_op list"
  obtain s where s: "res_run invalid_socket socket_valid ?xs (res_init invalid_socket 2) = Some s"
    "disposed s = [6]" "overwritten s = [5]" "handles s = [- 1, - 1]"
    by (simp add: res_init_def ar_create_def ar_move_assign_def ar_release_def ar_destroy_def ar_dispose_def
        socket_valid_def invalid_socket_def numeral_2_eq_2 Let_def)
  then show ?thesis
    using sockets_are_closed_once [OF s(1)] by (intro exI [of _ s]) (simp add: socket_valid_def invalid_socket_def)
qed

text \<open>The increment sentry. However sentries of a counter are created, moved and destroyed, the
  counter is the number of live sentries that point to it, as long as none is overwritten by a move
  assignment, which leaves the counter one too high for good.\<close>

theorem sentry_counts_live_sentries:
  assumes "res_run None sentry_valid xs (res_init None n) = Some s"
  shows "sentry_counter a s = int (count (mset (handles s)) (Some a)) + int (count (mset (overwritten s)) (Some a))"
proof -
  have "mset (acquired s) = mset (disposed s) + mset (filter sentry_valid (handles s)) + mset (overwritten s)"
    using sentries.balanced_run [OF assms sentries.balanced_init]
    by (simp add: sentries.balanced_def sentries.held_def)
  moreover have "count (mset (filter sentry_valid hs)) (Some a) = count (mset hs) (Some a)" for hs
    by (induction hs) (auto simp: sentry_valid_def)
  ultimately show ?thesis by (simp add: sentry_counter_def)
qed

lemma sentry_counts_live_sentries_witness:
  "\<exists>s. res_run None sentry_valid [Create 0 (Some 3), Create 1 (Some 3), Move_construct 2 0, Destroy 0, Destroy 1]
       (res_init None 3) = Some s \<and> sentry_counter 3 s = 1"
proof -
  let ?xs = "[Create 0 (Some 3), Create 1 (Some 3), Move_construct 2 0, Destroy 0, Destroy 1] :: nat option res_op list"
  obtain s where s: "res_run None sentry_valid ?xs (res_init None 3) = Some s"
    "overwritten s = []" "handles s = [None, None, Some 3]"
    by (simp add: res_init_def ar_create_def ar_move_construct_def ar_release_def ar_destroy_def ar_dispose_def
        sentry_valid_def numeral_3_eq_3 Let_def)
  then show ?thesis
    using sentry_counts_live_sentries [OF s(1), of 3] by (intro exI [of _ s]) simp
qed

end
