(* ===== verification/Windows.thy ===== *)
theory Windows
  imports Streambuf Resources Util "HOL-Library.Word"
begin

unbundle bit_operations_syntax

text \<open>
  The platform layer for Windows: \<^verbatim>\<open>nanonet/windows/wrappers.h\<close>, \<^verbatim>\<open>nanonet/windows/net_impl.h\<close> and
  \<^verbatim>\<open>src/windows/wrappers.cpp\<close>. As in theory Posix, the answers of the Windows API are a list, a
  parameter of a run, and the calls made are kept in a trace. The types are those of Windows:
  \<^verbatim>\<open>LONG\<close> and \<^verbatim>\<open>long\<close> have 32 bits and a sign, \<^verbatim>\<open>DWORD\<close> has 32 bits and none. A handle is a number;
  \<^verbatim>\<open>NULL\<close> is 0 and \<^verbatim>\<open>INVALID_HANDLE_VALUE\<close> is -1.
\<close>

section \<open>The Windows API\<close>

datatype wcall =
    W_QueryPerformanceFrequency
  | W_QueryPerformanceCounter
  | W_GetFileTime int
  | W_ReadFile int nat
  | W_WriteFile int string
  | W_CreateFile string "32 word"
  | W_CloseHandle int
  | W_Sleep int
  | W_shutdown int int
  | W_closesocket int
  | W_WSAStartup nat nat
  | W_WSACleanup

text \<open>A call succeeds, or fails with an error code; it may also return a handle, a number with high
  and low part, the characters read or the number of characters written.\<close>

datatype wanswer =
    W_ok
  | W_fail int
  | W_handle int
  | W_large int nat
  | W_data string
  | W_count nat

record wos =
  wanswers :: "wanswer list"
  wtrace :: "(wcall \<times> wanswer) list"
  wlast_error :: int
  format_message :: "int \<Rightarrow> string option"
  cached_frequency :: "double option"

definition wsys :: "wcall \<Rightarrow> (wos, wanswer) sx" where
  "wsys c s =
     (case wanswers s of
        [] \<Rightarrow> (Inl Hang, s)
      | a # as \<Rightarrow>
          (Inr a, s\<lparr>wanswers := as, wtrace := wtrace s @ [(c, a)],
                    wlast_error := (case a of W_fail e \<Rightarrow> e | _ \<Rightarrow> wlast_error s)\<rparr>))"

fun wfailed :: "wanswer \<Rightarrow> bool" where
  "wfailed (W_fail _) = True"
| "wfailed _ = False"

text \<open>\<^verbatim>\<open>EINTR\<close> is not returned.\<close>

definition w_EINTR_repeat :: "'a \<Rightarrow> bool" where
  "w_EINTR_repeat ret = False"

section \<open>Errors\<close>

text \<open>\<open>format_message\<close> is what \<^verbatim>\<open>FormatMessage()\<close> returns for an error code.\<close>

definition last_error_message :: "wos \<Rightarrow> string" where
  "last_error_message s =
     (case format_message s (wlast_error s) of
        None \<Rightarrow> ''unknown error (Microsoft Windows function FormatMessage() failed)''
      | Some m \<Rightarrow> chop m)"

definition last_error_exception :: "string \<Rightarrow> (wos, 'a) sx" where
  "last_error_exception msg s = (Inl (Runtime_error (msg @ '': '' @ last_error_message s)), s)"

section \<open>Numbers\<close>

definition two32 :: double where "two32 = to_double (2 ^ 32)"

text \<open>Conversions to \<^verbatim>\<open>LONG\<close> and \<^verbatim>\<open>DWORD\<close> truncate, and are undefined out of range.\<close>

fun to_LONG :: "double \<Rightarrow> int result" where
  "to_LONG (Fin x) =
     (if - (2 ^ 31) \<le> trunc x \<and> trunc x < 2 ^ 31 then Inr (trunc x)
      else Inl (Undefined ''double out of range of LONG''))"
| "to_LONG _ = Inl (Undefined ''double out of range of LONG'')"

fun to_DWORD :: "double \<Rightarrow> int result" where
  "to_DWORD (Fin x) =
     (if 0 \<le> trunc x \<and> trunc x < 2 ^ 32 then Inr (trunc x)
      else Inl (Undefined ''double out of range of DWORD''))"
| "to_DWORD _ = Inl (Undefined ''double out of range of DWORD'')"

text \<open>\<^verbatim>\<open>std::fmod\<close>, which is exact.\<close>

fun dfmod :: "double \<Rightarrow> double \<Rightarrow> double" where
  "dfmod (Fin x) (Fin y) = (if y = 0 then NaN else Fin (x - y * of_int (trunc (x / y))))"
| "dfmod (Fin x) (Inf _) = Fin x"
| "dfmod _ _ = NaN"

text \<open>A \<^verbatim>\<open>LARGE_INTEGER\<close> as its high and its low part; the high part of the one has a sign, that of
  the other, \<^verbatim>\<open>ULARGE_INTEGER\<close>, has none.\<close>

definition to_large_integer :: "double \<Rightarrow> (int \<times> int) result" where
  "to_large_integer x =
     rbind (assertion (dle (Fin 0) x) ''x >= 0'' ''src/windows/wrappers.cpp'' 86) (\<lambda>_.
     let y = dfloor (dadd x (to_double (1 / 2)))
     in rbind (to_LONG (ddiv y two32)) (\<lambda>high.
        rbind (to_DWORD (dfmod y two32)) (\<lambda>low. Inr (high, low))))"

definition double_of_large :: "int \<times> int \<Rightarrow> double" where
  "double_of_large i =
     dadd (dmul (to_double (of_int (fst i))) two32) (to_double (of_int (snd i)))"

section \<open>Time\<close>

fun large_of :: "wanswer \<Rightarrow> (int \<times> int) result" where
  "large_of (W_large h l) = Inr (h, int l)"
| "large_of _ = Inl (Undefined ''uninitialized LARGE_INTEGER'')"

definition pc_frequency :: "(wos, double) sx" where
  "pc_frequency =
     sbind (wsys W_QueryPerformanceFrequency) (\<lambda>a.
     sbind (slift (large_of a)) (\<lambda>f. sret (double_of_large f)))"

text \<open>The frequency is a static variable, set by the first call.\<close>

definition windows_time :: "(wos, double) sx" where
  "windows_time =
     sbind (\<lambda>s. case cached_frequency s of
              Some f \<Rightarrow> (Inr f, s)
            | None \<Rightarrow> sbind pc_frequency (\<lambda>f s. (Inr f, s\<lparr>cached_frequency := Some f\<rparr>)) s) (\<lambda>f.
     sbind (wsys W_QueryPerformanceCounter) (\<lambda>a.
     sbind (slift (assertion (\<not> wfailed a) ''QueryPerformanceCounter( &c )'' ''src/windows/wrappers.cpp'' 105)) (\<lambda>_.
     sbind (slift (large_of a)) (\<lambda>c. sret (ddiv (double_of_large c) f)))))"

definition w_time :: "(wos, double) sx" where
  "w_time = windows_time"

definition w_modification_time :: "int \<Rightarrow> (wos, double) sx" where
  "w_modification_time fd =
     sbind (wsys (W_GetFileTime fd)) (\<lambda>a.
     if wfailed a then last_error_exception ''GetFileTime()''
     else sbind (slift (large_of a)) (\<lambda>i. sret (dmul (double_of_large i) (to_double (1 / 10 ^ 7)))))"

definition w_sleep :: "double \<Rightarrow> (wos, unit) sx" where
  "w_sleep t =
     sbind (slift (c_assert (dle (Fin 0) t) ''t >= 0'')) (\<lambda>_.
     sbind (slift (to_DWORD (dfloor (dadd (dmul t (Fin 1000)) (to_double (1 / 2)))))) (\<lambda>ms.
     sbind (wsys (W_Sleep ms)) (\<lambda>_. sret ())))"

definition w_to_timeval :: "double \<Rightarrow> (int \<times> int) result" where
  "w_to_timeval t = to_fractional to_LONG t 1000000"

definition w_double_of_timeval :: "int \<times> int \<Rightarrow> double" where
  "w_double_of_timeval t =
     dadd (to_double (of_int (fst t))) (dmul (to_double (1 / 10 ^ 6)) (to_double (of_int (snd t))))"

section \<open>Files\<close>

definition handle_invalid :: int where "handle_invalid = - 1"

definition handle_valid :: "int \<Rightarrow> bool" where
  "handle_valid h \<longleftrightarrow> handle_invalid \<noteq> h \<and> 0 \<noteq> h"

definition handle_dispose :: "int \<Rightarrow> (wos, unit) sx" where
  "handle_dispose h = sbind (wsys (W_CloseHandle h)) (\<lambda>_. sret ())"

text \<open>\<open>None\<close> is the result -1, which is returned for the end of the file as well. \<^verbatim>\<open>ReadFile()\<close> stores
  no more characters than it is asked for.\<close>

definition w_read :: "int \<Rightarrow> nat \<Rightarrow> (wos, string option) sx" where
  "w_read fd n =
     sbind (slift (c_assert (n \<ge> 1) ''n >= 1'')) (\<lambda>_.
     sbind (wsys (W_ReadFile fd n)) (\<lambda>a.
     if wfailed a then sret None
     else
       (let ret = (case a of W_data d \<Rightarrow> take n d | _ \<Rightarrow> [])
        in if length ret \<le> 0 then sret None else sret (Some ret))))"

definition w_write :: "int \<Rightarrow> string \<Rightarrow> (wos, int) sx" where
  "w_write fd buf =
     sbind (slift (c_assert (length buf \<ge> 1) ''n >= 1'')) (\<lambda>_.
     sbind (wsys (W_WriteFile fd buf)) (\<lambda>a.
     if wfailed a then sret (- 1)
     else
       (let ret = (case a of W_count k \<Rightarrow> int k | _ \<Rightarrow> 0)
        in sbind (slift (c_assert (int (length buf) = ret) ''n == static_cast< long >( ret )'')) (\<lambda>_. sret ret))))"

definition GENERIC_READ :: "32 word" where "GENERIC_READ = 0x80000000"
definition GENERIC_WRITE :: "32 word" where "GENERIC_WRITE = 0x40000000"

text \<open>The open mode is \<open>out\<close> and \<open>in\<close>, and whether it has other flags.\<close>

definition windows_open :: "string \<Rightarrow> bool \<Rightarrow> bool \<Rightarrow> bool \<Rightarrow> (wos, int) sx" where
  "windows_open name om_in om_out om_other =
     (if om_other then sthrow (Runtime_error ''bad file open mode'')
      else
        let acc = GENERIC_WRITE * (if om_out then 1 else 0) OR GENERIC_READ * (if om_in then 1 else 0)
        in sbind (wsys (W_CreateFile name acc)) (\<lambda>a.
           let fd = (case a of W_handle h \<Rightarrow> h | _ \<Rightarrow> handle_invalid)
           in if \<not> handle_valid fd then last_error_exception (''cannot open '' @ name) else sret fd))"

section \<open>Sockets\<close>

definition SD_RECEIVE :: int where "SD_RECEIVE = 0"
definition SD_SEND :: int where "SD_SEND = 1"

definition w_shutdown_read :: "int \<Rightarrow> (wos, unit) sx" where
  "w_shutdown_read s = sbind (wsys (W_shutdown s SD_SEND)) (\<lambda>_. sret ())"

definition w_shutdown_write :: "int \<Rightarrow> (wos, unit) sx" where
  "w_shutdown_write s = sbind (wsys (W_shutdown s SD_RECEIVE)) (\<lambda>_. sret ())"

definition w_socketclose :: "int \<Rightarrow> (wos, int) sx" where
  "w_socketclose s = sbind (wsys (W_closesocket s)) (\<lambda>a. sret (if wfailed a then - 1 else 0))"

text \<open>An \<^verbatim>\<open>INVALID_SOCKET\<close> is the largest value of the unsigned type \<^verbatim>\<open>SOCKET\<close>, of 64 bits.\<close>

definition w_invalid_socket :: int where "w_invalid_socket = 2 ^ 64 - 1"

text \<open>The static object that initializes the library asks for version 2.2; \<open>die\<close> is what the program
  does when there is none.\<close>

definition winsock_start :: "(string \<Rightarrow> (wos, unit) sx) \<Rightarrow> (wos, unit) sx" where
  "winsock_start die =
     sbind (wsys (W_WSAStartup 2 2)) (\<lambda>a.
     if wfailed a then die ''couldn't find suitable winsock.dll'' else sret ())"

definition winsock_end :: "(wos, unit) sx" where
  "winsock_end = sbind (wsys W_WSACleanup) (\<lambda>_. sret ())"

section \<open>Exact arithmetic\<close>

lemma two32_eq: "two32 = Fin (2 ^ 32)"
  using to_double_of_int [of "2 ^ 32"] by (simp add: two32_def)

lemma large_integer_of:
  assumes "0 \<le> y" "y < 2 ^ 52"
  shows "to_large_integer (Fin (of_int y)) = Inr (y div 2 ^ 32, y mod 2 ^ 32)"
proof -
  have e: "of_int y + 1 / 2 = rat_of_int (2 * y + 1) / 2 ^ 1" by simp
  have s: "to_double (of_int y + 1 / 2) = Fin (of_int y + 1 / 2)"
    unfolding e by (rule to_double_dyadic) (use assms in simp_all)
  have f: "\<lfloor>rat_of_int y + 1 / 2\<rfloor> = y" by (rule floor_unique) simp_all
  have d: "to_double (rat_of_int y / 2 ^ 32) = Fin (of_int y / 2 ^ 32)"
    using to_double_dyadic [of y 32] assms by simp
  have t: "trunc (rat_of_int y / 2 ^ 32) = y div 2 ^ 32"
    using assms floor_divide_of_int_eq [of y "2 ^ 32", where 'a = rat] by (simp add: trunc_def)
  have m: "rat_of_int y - 2 ^ 32 * of_int (y div 2 ^ 32) = of_int (y mod 2 ^ 32)"
  proof -
    have "y - 2 ^ 32 * (y div 2 ^ 32) = y mod 2 ^ 32" by (simp add: minus_mult_div_eq_mod)
    then have "rat_of_int (y - 2 ^ 32 * (y div 2 ^ 32)) = of_int (y mod 2 ^ 32)" by (rule arg_cong)
    then show ?thesis by simp
  qed
  have tm: "trunc (rat_of_int (y mod 2 ^ 32)) = y mod 2 ^ 32" by (simp add: trunc_def)
  have h: "0 \<le> y div 2 ^ 32" "y div 2 ^ 32 < 2 ^ 31"
    using assms by (simp_all add: div_less_iff_less_mult pos_imp_zdiv_nonneg_iff)
  have z: "dle (Fin 0) (Fin (rat_of_int y))" using assms by (auto simp: dle_def)
  have hi: "to_LONG (ddiv (Fin (rat_of_int y)) two32) = Inr (y div 2 ^ 32)"
  proof -
    have "ddiv (Fin (rat_of_int y)) two32 = Fin (of_int y / 2 ^ 32)"
      unfolding two32_eq ddiv.simps d by simp
    then show ?thesis using h by (simp only: to_LONG.simps t) simp
  qed
  have lo: "to_DWORD (dfmod (Fin (rat_of_int y)) two32) = Inr (y mod 2 ^ 32)"
  proof -
    have "dfmod (Fin (rat_of_int y)) two32 = Fin (of_int (y mod 2 ^ 32))"
      unfolding two32_eq dfmod.simps t m by simp
    then show ?thesis by (simp only: to_DWORD.simps tm) simp
  qed
  show ?thesis
    unfolding to_large_integer_def half_double dadd.simps s dfloor.simps f Let_def hi lo
    using z by simp
qed

lemma double_of_large_exact:
  assumes "0 \<le> h" "0 \<le> l" "h * 2 ^ 32 + l < 2 ^ 53"
  shows "double_of_large (h, l) = Fin (of_int (h * 2 ^ 32 + l))"
proof -
  have "h * 4294967296 + l < 9007199254740992" using assms(3) by simp
  with assms(1,2) have b: "h < 2 ^ 53" "l < 2 ^ 53" "h * 2 ^ 32 < 2 ^ 53" by simp_all
  have "to_double (rat_of_int h * 2 ^ 32) = Fin (of_int (h * 2 ^ 32))"
    using to_double_of_int [of "h * 2 ^ 32"] assms(1) b(3) by simp
  moreover have "to_double (rat_of_int (h * 2 ^ 32) + of_int l) = Fin (of_int (h * 2 ^ 32 + l))"
    using to_double_of_int [of "h * 2 ^ 32 + l"] assms by simp
  ultimately show ?thesis
    using assms(1,2) b by (simp add: double_of_large_def two32_eq)
qed

text \<open>The rounding is to the nearest integer only below \<open>2 ^ 52\<close>: from there on, adding one half
  rounds an odd number up.\<close>

lemma floorlog_eq: "b > 1 \<Longrightarrow> b ^ k \<le> n \<Longrightarrow> n < b ^ Suc k \<Longrightarrow> floorlog b n = Suc k"
  by (intro antisym floorlog_leI floorlog_geI) simp_all

lemma large_integer_off_by_one:
  "to_large_integer (Fin (2 ^ 52 + 1)) = Inr (2 ^ 20, 2)"
proof -
  let ?x = "9007199254740995 / 2 :: rat"
  have "quotient_of ?x = quotient_of (Fract 9007199254740995 2)" by (simp add: Fract_of_int_quotient)
  also have "\<dots> = (9007199254740995, 2)" by (simp add: quotient_of_Fract Rat.normalize_def)
  finally have q: "quotient_of ?x = (9007199254740995, 2)" .
  have "floorlog 2 9007199254740995 = Suc 53" "floorlog 2 2 = Suc 1" by (rule floorlog_eq; simp)+
  then have "exponent ?x = 52" by (simp add: exponent_def q pow2_def Let_def)
  then have u: "ulp_exp \<bar>?x\<bar> = 0" by (simp add: ulp_exp_def)
  have "\<lfloor>?x\<rfloor> = 4503599627370497" by (rule floor_unique) simp_all
  then have "round_even ?x = 4503599627370498" by (simp add: round_even_def Let_def)
  moreover have "\<bar>rat_of_int 4503599627370498\<bar> \<le> max_double" by (rule int_le_max_double) simp
  ultimately have s: "to_double ?x = Fin 4503599627370498"
    using u by (simp add: to_double_def Let_def pow2_def)
  have y: "dfloor (dadd (Fin (2 ^ 52 + 1)) (Fin (1 / 2))) = Fin 4503599627370498"
    using s by simp
  have "to_double (4503599627370498 / 4294967296) = Fin (4503599627370498 / 4294967296)"
    using to_double_dyadic [of 4503599627370498 32] by simp
  moreover have "trunc (4503599627370498 / 4294967296) = 1048576"
    unfolding trunc_def by (simp, rule floor_unique) simp_all
  ultimately show ?thesis
    unfolding to_large_integer_def half_double y Let_def by (simp add: two32_eq dle_def trunc_def)
qed

section \<open>The Windows layer as providers\<close>

interpretation handles: resource_traits handle_invalid handle_valid
  by unfold_locales (simp add: handle_valid_def)

fun wsent_by :: "int \<Rightarrow> wcall \<times> wanswer \<Rightarrow> string" where
  "wsent_by fd (W_WriteFile f d, W_count k) = (if f = fd then take k d else [])"
| "wsent_by fd _ = []"

fun wreceived_by :: "int \<Rightarrow> wcall \<times> wanswer \<Rightarrow> string" where
  "wreceived_by fd (W_ReadFile f n, W_data d) = (if f = fd then take n d else [])"
| "wreceived_by fd _ = []"

definition wsent :: "int \<Rightarrow> wos \<Rightarrow> string" where
  "wsent fd s = concat (map (wsent_by fd) (wtrace s))"

definition wreceived :: "int \<Rightarrow> wos \<Rightarrow> string" where
  "wreceived fd s = concat (map (wreceived_by fd) (wtrace s))"

lemma wsys_trace:
  assumes "wsys c s = (Inr a, s')"
  shows "wtrace s' = wtrace s @ [(c, a)]"
  using assms by (auto simp: wsys_def split: list.splits)

lemma w_read_received:
  assumes "w_read fd n w = (Inr r, w')"
  shows "case r of None \<Rightarrow> wreceived fd w' = wreceived fd w
    | Some d \<Rightarrow> d \<noteq> [] \<and> length d \<le> n \<and> wreceived fd w' = wreceived fd w @ d"
proof -
  from assms obtain a where a: "wsys (W_ReadFile fd n) w = (Inr a, w')" and
    r: "r = (if wfailed a then None else let ret = (case a of W_data d \<Rightarrow> take n d | _ \<Rightarrow> [])
             in if length ret \<le> 0 then None else Some ret)"
    by (auto simp: w_read_def c_assert_def Let_def elim!: sbind_InrE split: if_splits)
  show ?thesis
    using r wsys_trace [OF a] by (cases a) (auto simp: wreceived_def)
qed

lemma w_write_sent:
  assumes "w_write fd d w = (Inr r, w')"
  shows "(r = int (length d) \<and> wsent fd w' = wsent fd w @ d) \<or> (r = - 1 \<and> wsent fd w' = wsent fd w)"
proof -
  from assms obtain a where a: "wsys (W_WriteFile fd d) w = (Inr a, w')" "length d \<ge> 1" and
    r: "if wfailed a then r = - 1
        else r = (case a of W_count k \<Rightarrow> int k | _ \<Rightarrow> 0) \<and> int (length d) = r"
    by (auto simp: w_write_def c_assert_def Let_def elim!: sbind_InrE split: if_splits)
  show ?thesis
    using r a(2) wsys_trace [OF a(1)] by (cases a) (auto simp: wsent_def)
qed

interpretation wfile: reader_writer "w_read fd" "wreceived fd" "w_write fd" "wsent fd"
  for fd
proof unfold_locales
  fix n w d w'
  assume "w_read fd n w = (Inr (Some d), w')"
  then show "length d \<le> n \<and> wreceived fd w' = wreceived fd w @ d"
    using w_read_received by fastforce
next
  fix n w w'
  assume "w_read fd n w = (Inr None, w')"
  then show "wreceived fd w' = wreceived fd w"
    using w_read_received by fastforce
next
  fix d w r w'
  assume "w_write fd d w = (Inr r, w')" "0 \<le> r"
  then show "r = int (length d) \<and> wsent fd w' = wsent fd w @ d"
    using w_write_sent by fastforce
next
  fix d w r w'
  assume "w_write fd d w = (Inr r, w')" "r < 0"
  then have "wsent fd w' = wsent fd w @ take 0 d" using w_write_sent by fastforce
  then show "\<exists>k\<le>length d. wsent fd w' = wsent fd w @ take k d" by blast
qed

text \<open>The two shutdown functions are exchanged: the destructor of an output stream stops receiving,
  and the one of an input stream stops sending.\<close>

lemma windows_shutdown_is_exchanged:
  assumes "wanswers s = a # as"
  shows "wtrace (snd (w_shutdown_write fd s)) = wtrace s @ [(W_shutdown fd SD_RECEIVE, a)]"
    and "wtrace (snd (w_shutdown_read fd s)) = wtrace s @ [(W_shutdown fd SD_SEND, a)]"
  using assms by (simp_all add: w_shutdown_write_def w_shutdown_read_def sbind_def wsys_def)

text \<open>An open mode with neither \<open>in\<close> nor \<open>out\<close> is accepted: the file is opened without any access.\<close>

lemma windows_open_without_access:
  assumes "wanswers s = W_handle h # as" "handle_valid h"
  shows "fst (windows_open name False False False s) = Inr h
    \<and> wtrace (snd (windows_open name False False False s)) = wtrace s @ [(W_CreateFile name 0, W_handle h)]"
  using assms by (simp add: windows_open_def sbind_def wsys_def)

text \<open>The end of a file is not told from an error, and a partial write ends the program.\<close>

lemma windows_end_of_file:
  assumes "wanswers s = W_data [] # as" "n \<ge> 1"
  shows "fst (w_read fd n s) = Inr None"
  using assms by (simp add: w_read_def sbind_def wsys_def slift_def)

lemma windows_partial_write:
  assumes "wanswers s = W_count k # as" "k < length d"
  shows "\<exists>m. fst (w_write fd d s) = Inl (Abort m)"
  using assms by (simp add: w_write_def sbind_def wsys_def slift_def c_assert_def)

section \<open>Properties\<close>

text \<open>The conversions between \<^verbatim>\<open>double\<close> and \<^verbatim>\<open>LARGE_INTEGER\<close> of the Windows port. Every integer below
  \<open>2 ^ 52\<close> is split into a high part that is a nonnegative \<^verbatim>\<open>LONG\<close> and a low part that is a
  \<^verbatim>\<open>DWORD\<close>, no conversion in between is out of range, and converting back gives the number again.\<close>

theorem large_integer_roundtrip:
  assumes "0 \<le> y" "y < 2 ^ 52"
  shows "\<exists>h l. to_large_integer (Fin (of_int y)) = Inr (h, l) \<and> 0 \<le> h \<and> h < 2 ^ 31 \<and> 0 \<le> l \<and> l < 2 ^ 32
    \<and> double_of_large (h, l) = Fin (of_int y)"
proof (intro exI conjI)
  show "to_large_integer (Fin (of_int y)) = Inr (y div 2 ^ 32, y mod 2 ^ 32)"
    by (rule large_integer_of [OF assms])
  show "0 \<le> y div 2 ^ 32" "y div 2 ^ 32 < 2 ^ 31" "0 \<le> y mod 2 ^ 32" "y mod 2 ^ 32 < 2 ^ 32"
    using assms by (simp_all add: div_less_iff_less_mult pos_imp_zdiv_nonneg_iff)
  have "y div 2 ^ 32 * 2 ^ 32 + y mod 2 ^ 32 = y" by (rule div_mult_mod_eq)
  then show "double_of_large (y div 2 ^ 32, y mod 2 ^ 32) = Fin (of_int y)"
    using double_of_large_exact [of "y div 2 ^ 32" "y mod 2 ^ 32"] assms
    by (simp add: pos_imp_zdiv_nonneg_iff)
qed

lemma large_integer_roundtrip_witness:
  "\<exists>h l. to_large_integer (Fin (of_int (2 ^ 40 + 7))) = Inr (h, l) \<and> double_of_large (h, l) = Fin (of_int (2 ^ 40 + 7))"
  using large_integer_roundtrip [of "2 ^ 40 + 7"] by auto

end
