(* ===== verification/Syslogger.thy ===== *)
theory Syslogger
  imports Streambuf Doubles
begin

text \<open>
  The system log of \<^verbatim>\<open>nanonet/sys/syslogger.h\<close> and \<^verbatim>\<open>src/sys/syslogger.cpp\<close>: priorities, the
  reader_writer that turns what is flushed into a line of the system log and of the echo stream, and
  the stream on top of it, the output stream of theory \<open>Streambuf\<close> with a buffer of 1024 characters.
  \<open>fmt\<close> stands for \<^verbatim>\<open>format_datetime\<close> with its default arguments.
\<close>

section \<open>Priorities\<close>

datatype prio = EMERG | ALERT | CRIT | ERR | WARNING | NOTICE | INFO | DEBUG

fun prio_int :: "prio \<Rightarrow> nat" where
  "prio_int EMERG = 0"
| "prio_int ALERT = 1"
| "prio_int CRIT = 2"
| "prio_int ERR = 3"
| "prio_int WARNING = 4"
| "prio_int NOTICE = 5"
| "prio_int INFO = 6"
| "prio_int DEBUG = 7"

lemma prio_int_inject [simp]: "prio_int p = prio_int q \<longleftrightarrow> p = q"
  by (cases p; cases q) simp_all

instantiation prio :: linorder
begin

definition less_eq_prio :: "prio \<Rightarrow> prio \<Rightarrow> bool" where
  "less_eq_prio p q \<longleftrightarrow> prio_int p \<le> prio_int q"

definition less_prio :: "prio \<Rightarrow> prio \<Rightarrow> bool" where
  "less_prio p q \<longleftrightarrow> prio_int p < prio_int q"

instance
  by standard (auto simp: less_eq_prio_def less_prio_def)

end

definition default_prio :: prio where
  "default_prio = INFO"

definition prionames :: "string list" where
  "prionames = [''EMERGENCY'', ''ALERT'', ''CRITICAL'', ''ERROR'', ''WARNING'', ''NOTICE'', ''INFO'', ''DEBUG'']"

lemma prionames_length: "length prionames = 8"
  by (simp add: prionames_def)

definition prio_to_string :: "prio \<Rightarrow> string" where
  "prio_to_string p = prionames ! prio_int p"

definition all_prios :: "prio list" where
  "all_prios = [EMERG, ALERT, CRIT, ERR, WARNING, NOTICE, INFO, DEBUG]"

definition prio_from_string :: "string \<Rightarrow> prio result" where
  "prio_from_string s =
     (case find_index (\<lambda>n. s = n) prionames of
        Some i \<Rightarrow> Inr (all_prios ! i)
      | None \<Rightarrow> Inl (Runtime_error (''Syslogger: Unknown logging priority: '' @ s)))"

section \<open>The writer\<close>

record syslog_writer =
  minlevel_syslog :: prio
  minlevel_echo :: prio
  currlevel :: prio
  tag :: string
  echo :: bool

text \<open>The system log (priority and text of each entry), the echo stream and the clock for it, whose
  value may change from call to call.\<close>

record log_env =
  syslogd :: "(nat \<times> string) list"
  echo_out :: string
  clock :: "nat \<Rightarrow> double"
  ticks :: nat

definition new_syslog_writer :: "string \<Rightarrow> bool \<Rightarrow> syslog_writer" where
  "new_syslog_writer t e =
     \<lparr>minlevel_syslog = default_prio, minlevel_echo = default_prio, currlevel = default_prio,
      tag = (if length t > 0 then t @ '' '' else []), echo = e\<rparr>"

fun trim_end :: "string \<Rightarrow> nat \<Rightarrow> nat" where
  "trim_end buf 0 = 0"
| "trim_end buf (Suc n) = (if isspace (buf ! n) then trim_end buf n else Suc n)"

text \<open>A C string ends at its first zero byte.\<close>

definition c_str :: "string \<Rightarrow> string" where
  "c_str s = takeWhile (\<lambda>c. c \<noteq> CHR 0x00) s"

definition echo_clock :: "log_env \<Rightarrow> double \<times> log_env" where
  "echo_clock env = (clock env (ticks env), env\<lparr>ticks := Suc (ticks env)\<rparr>)"

definition syslog_line :: "syslog_writer \<Rightarrow> string \<Rightarrow> string" where
  "syslog_line sw body = c_str (tag sw) @ ''('' @ prio_to_string (currlevel sw) @ '') '' @ body"

definition write_echo :: "(double \<Rightarrow> string result) \<Rightarrow> string \<Rightarrow> (syslog_writer \<times> log_env, unit) sx" where
  "write_echo fmt body s =
     (case s of (sw, env) \<Rightarrow>
        case echo_clock env of (now, env1) \<Rightarrow>
          (if dle (Fin 0) now
           then case echo_clock env1 of (now2, env2) \<Rightarrow>
             (case fmt now2 of
                Inl e \<Rightarrow> (Inl e, (sw, env2))
              | Inr d \<Rightarrow>
                  (Inr (), (sw, env2\<lparr>echo_out := echo_out env2 @ d @ '' '' @ syslog_line sw body @ [newline_char]\<rparr>)))
           else (Inr (), (sw, env1\<lparr>echo_out := echo_out env1 @ syslog_line sw body @ [newline_char]\<rparr>))))"

definition syslog_write :: "(double \<Rightarrow> string result) \<Rightarrow> string \<Rightarrow> (syslog_writer \<times> log_env, int) sx" where
  "syslog_write fmt buf s =
     (case s of (sw, env) \<Rightarrow>
        let lst = trim_end buf (length buf);
            env1 = (if currlevel sw \<le> minlevel_syslog sw
                    then env\<lparr>syslogd := syslogd env @ [(prio_int (currlevel sw), syslog_line sw (c_str (take lst buf)))]\<rparr>
                    else env)
        in (case (if echo sw \<and> currlevel sw \<le> minlevel_echo sw then write_echo fmt (take lst buf) (sw, env1)
                  else (Inr (), (sw, env1))) of
              (Inl e, s') \<Rightarrow> (Inl e, s')
            | (Inr _, (sw', env')) \<Rightarrow> (Inr (int (length buf)), (sw'\<lparr>currlevel := default_prio\<rparr>, env'))))"

section \<open>The stream\<close>

type_synonym syslogger = "(syslog_writer \<times> log_env) ostream"

definition new_syslogger :: "string \<Rightarrow> bool \<Rightarrow> log_env \<Rightarrow> syslogger result" where
  "new_syslogger t e env =
     rbind (new_ostreambuf True 1024) (\<lambda>b. Inr (False, b, new_syslog_writer t e, env))"

definition on_writer :: "(syslog_writer \<Rightarrow> syslog_writer) \<Rightarrow> (syslogger, unit) sx" where
  "on_writer f s = (case s of (bad, b, sw, env) \<Rightarrow> (Inr (), (bad, b, f sw, env)))"

text \<open>\<^verbatim>\<open>os << p\<close> on a \<open>syslogger\<close> sets the level of what is flushed next; on another stream it writes
  the name of the priority.\<close>

definition put_prio :: "prio \<Rightarrow> (syslogger, unit) sx" where
  "put_prio p = on_writer (\<lambda>sw. sw\<lparr>currlevel := p\<rparr>)"

definition put_prio_other :: "(string \<Rightarrow> ('w, int) sx) \<Rightarrow> prio \<Rightarrow> ('w ostream, unit) sx" where
  "put_prio_other wr p = os_write wr (''('' @ prio_to_string p @ '') '')"

text \<open>The two bits of \<^verbatim>\<open>which\<close>: \<^verbatim>\<open>SYSLOG\<close> and \<^verbatim>\<open>ECHO\<close>.\<close>

definition set_minlevel :: "prio \<Rightarrow> bool \<Rightarrow> bool \<Rightarrow> (syslogger, unit) sx" where
  "set_minlevel p sys ech =
     on_writer (\<lambda>sw. let sw1 = (if sys then sw\<lparr>minlevel_syslog := p\<rparr> else sw)
                     in if ech then sw1\<lparr>minlevel_echo := p\<rparr> else sw1)"

definition set_echo_stream :: "bool \<Rightarrow> (syslogger, unit) sx" where
  "set_echo_stream e = on_writer (\<lambda>sw. sw\<lparr>echo := e\<rparr>)"

definition set_echo_clock :: "(nat \<Rightarrow> double) \<Rightarrow> (syslogger, unit) sx" where
  "set_echo_clock cl s = (case s of (bad, b, sw, env) \<Rightarrow> (Inr (), (bad, b, sw, env\<lparr>clock := cl\<rparr>)))"

definition log_line :: "(double \<Rightarrow> string result) \<Rightarrow> prio \<Rightarrow> string \<Rightarrow> (syslogger, unit) sx" where
  "log_line fmt p msg =
     sbind (put_prio p) (\<lambda>_. sbind (os_write (syslog_write fmt) msg) (\<lambda>_. os_endl (syslog_write fmt)))"

definition log_error :: "(double \<Rightarrow> string result) \<Rightarrow> string \<Rightarrow> string \<Rightarrow> (syslogger, unit) sx" where
  "log_error fmt msg w =
     sbind (put_prio ERR) (\<lambda>_. sbind (os_write (syslog_write fmt) msg) (\<lambda>_.
     sbind (os_write (syslog_write fmt) '': '') (\<lambda>_. sbind (os_write (syslog_write fmt) w) (\<lambda>_.
     os_endl (syslog_write fmt)))))"

text \<open>The end of a \<open>syslogger\<close>: \<^verbatim>\<open>shutdown_write\<close> of the writer does nothing.\<close>

definition destroy_syslogger :: "(double \<Rightarrow> string result) \<Rightarrow> (syslogger, unit) sx" where
  "destroy_syslogger fmt s =
     (case s of (bad, bw) \<Rightarrow>
        (case ob_destroy (syslog_write fmt) sskip bw of (r, bw') \<Rightarrow> (r, (bad, bw'))))"

definition log_oneoff :: "(double \<Rightarrow> string result) \<Rightarrow> string \<Rightarrow> prio \<Rightarrow> string \<Rightarrow> (log_env, unit) sx" where
  "log_oneoff fmt t p message env =
     (case new_syslogger t False env of
        Inl e \<Rightarrow> (Inl e, env)
      | Inr sl \<Rightarrow>
          (case sfinally (log_line fmt p message) (destroy_syslogger fmt) sl of
             (r, (_, _, _, env')) \<Rightarrow> (r, env')))"

text \<open>\<^verbatim>\<open>testmode_sentry\<close>: its constructor and its destructor.\<close>

definition testmode_begin :: "double \<Rightarrow> (syslogger, unit) sx" where
  "testmode_begin echo_time =
     sbind (set_echo_stream True) (\<lambda>_. sbind (set_echo_clock (\<lambda>_. echo_time)) (\<lambda>_. set_minlevel EMERG True False))"

definition testmode_end :: "(syslogger, unit) sx" where
  "testmode_end = sbind (set_echo_stream False) (\<lambda>_. set_minlevel default_prio True False)"

section \<open>Facts\<close>

lemma trim_end_le: "trim_end buf n \<le> n"
  by (induction buf n rule: trim_end.induct) (auto intro: le_SucI)

lemma trim_end_append: "n \<le> length xs \<Longrightarrow> trim_end (xs @ ys) n = trim_end xs n"
  by (induction n) (auto simp: nth_append)

lemma isspace_newline: "isspace newline_char"
  by (simp add: char_simps)

definition rstrip :: "string \<Rightarrow> string" where
  "rstrip s = take (trim_end s (length s)) s"

lemma rstrip_newline: "take (trim_end (xs @ [newline_char]) (Suc (length xs))) (xs @ [newline_char]) = rstrip xs"
  using trim_end_le [of xs "length xs"] by (simp add: rstrip_def isspace_newline trim_end_append)

text \<open>Writing what fits into the buffer, and what fills it.\<close>

lemma xsputn_fits:
  "length (ob_data b) + length str < ob_size b \<Longrightarrow>
     xsputn wr str (b, w) = (Inr (length str), (b\<lparr>ob_data := ob_data b @ str\<rparr>, w))"
proof (induction str arbitrary: b)
  case (Cons c cs)
  from Cons.prems have "sputc wr c (b, w) = (Inr True, (b\<lparr>ob_data := ob_data b @ [c]\<rparr>, w))"
    by (auto simp: sputc_def)
  moreover from Cons.prems Cons.IH [of "b\<lparr>ob_data := ob_data b @ [c]\<rparr>"]
  have "xsputn wr cs (b\<lparr>ob_data := ob_data b @ [c]\<rparr>, w)
      = (Inr (length cs), (b\<lparr>ob_data := ob_data b @ c # cs\<rparr>, w))" by simp
  ultimately show ?case by (simp add: sbind_def)
qed simp

lemma xsputn_append:
  "xsputn wr xs s = (Inr (length xs), s1) \<Longrightarrow>
     xsputn wr (xs @ ys) s =
       (case xsputn wr ys s1 of (Inl e, s2) \<Rightarrow> (Inl e, s2) | (Inr n, s2) \<Rightarrow> (Inr (length xs + n), s2))"
proof (induction xs arbitrary: s)
  case Nil
  then show ?case by (auto split: prod.splits sum.splits)
next
  case (Cons c cs)
  from Cons.prems obtain s2 where s2: "sputc wr c s = (Inr True, s2)" "xsputn wr cs s2 = (Inr (length cs), s1)"
    by (auto elim!: sbind_InrE split: if_splits)
  then show ?case
    using Cons.IH [OF s2(2)] by (auto simp: sbind_def split: prod.splits sum.splits)
qed

definition entry :: "syslog_writer \<Rightarrow> string \<Rightarrow> (nat \<times> string) list" where
  "entry sw body = (if currlevel sw \<le> minlevel_syslog sw then [(prio_int (currlevel sw), syslog_line sw (c_str body))] else [])"

lemma syslog_write_no_echo:
  "\<not> echo sw \<Longrightarrow> syslog_write fmt buf (sw, env) =
     (Inr (int (length buf)), (sw\<lparr>currlevel := default_prio\<rparr>, env\<lparr>syslogd := syslogd env @ entry sw (rstrip buf)\<rparr>))"
  by (auto simp: syslog_write_def entry_def rstrip_def Let_def)


lemma ob_flush_ok:
  assumes "ob_rw b" "ob_data b \<noteq> []" "length (ob_data b) \<le> ob_size b"
    and "wr (ob_data b) w = (Inr (int (length (ob_data b))), w')"
  shows "ob_flush wr (b, w) = (Inr True, (b\<lparr>ob_data := []\<rparr>, w'))"
  using assms by (simp add: ob_flush_def)

lemma xsputn_fills:
  assumes "ob_rw b" "length (ob_data b) + length str = ob_size b" "str \<noteq> []"
    and "wr (ob_data b @ str) w = (Inr (int (ob_size b)), w')"
  shows "xsputn wr str (b, w) = (Inr (length str), (b\<lparr>ob_data := []\<rparr>, w'))"
proof -
  obtain xs c where s: "str = xs @ [c]" using assms(3) by (cases str rule: rev_cases) auto
  let ?b = "b\<lparr>ob_data := ob_data b @ xs\<rparr>"
  have x: "xsputn wr xs (b, w) = (Inr (length xs), (?b, w))"
    using assms(2) s by (intro xsputn_fits) simp
  have "ob_flush wr (?b\<lparr>ob_data := ob_data ?b @ [c]\<rparr>, w) = (Inr True, (b\<lparr>ob_data := []\<rparr>, w'))"
    using assms s by (subst ob_flush_ok) auto
  then have "xsputn wr [c] (?b, w) = (Inr 1, (b\<lparr>ob_data := []\<rparr>, w'))"
    using assms(2) s by (auto simp: sbind_def sputc_def ob_overflow_def)
  then show ?thesis using xsputn_append [OF x] s by simp
qed

abbreviation level_writer :: "string \<Rightarrow> prio \<Rightarrow> syslog_writer" where
  "level_writer t p \<equiv> (new_syslog_writer t False)\<lparr>currlevel := p\<rparr>"

definition fresh_buf :: "string \<Rightarrow> obuf" where
  "fresh_buf d = \<lparr>ob_rw = True, ob_size = 1024, ob_data = d, ob_live = True\<rparr>"

lemma fresh_buf_upd [simp]: "(fresh_buf d)\<lparr>ob_data := e\<rparr> = fresh_buf e"
  by (simp add: fresh_buf_def)

lemma fresh_buf_sel [simp]:
  "ob_rw (fresh_buf d)" "ob_size (fresh_buf d) = 1024" "ob_data (fresh_buf d) = d" "ob_live (fresh_buf d)"
  by (simp_all add: fresh_buf_def)

lemma level_writer_write:
  "syslog_write fmt buf (level_writer t p, env) =
     (Inr (int (length buf)), (level_writer t INFO, env\<lparr>syslogd := syslogd env @ entry (level_writer t p) (rstrip buf)\<rparr>))"
  by (simp add: syslog_write_no_echo new_syslog_writer_def default_prio_def)

lemma new_syslogger_eq: "new_syslogger t False env = Inr (False, fresh_buf [], level_writer t INFO, env)"
  by (simp add: new_syslogger_def new_ostreambuf_def fresh_buf_def new_syslog_writer_def default_prio_def)

lemma endl_flushes:
  assumes "length d < 1023"
  shows "os_endl (syslog_write fmt) (False, fresh_buf d, level_writer t p, env) =
    (Inr (), (False, fresh_buf [], level_writer t INFO,
       env\<lparr>syslogd := syslogd env @ entry (level_writer t p) (rstrip d)\<rparr>))"
proof -
  have "xsputn (syslog_write fmt) [newline_char] (fresh_buf d, level_writer t p, env)
      = (Inr 1, (fresh_buf (d @ [newline_char]), level_writer t p, env))"
    using xsputn_fits [of "fresh_buf d" "[newline_char]"] assms by simp
  moreover have "rstrip (d @ [newline_char]) = rstrip d"
    using rstrip_newline [of d] by (simp add: rstrip_def)
  moreover have "ob_flush (syslog_write fmt) (fresh_buf (d @ [newline_char]), level_writer t p, env)
      = (Inr True, (fresh_buf [], level_writer t INFO,
           env\<lparr>syslogd := syslogd env @ entry (level_writer t p) (rstrip (d @ [newline_char]))\<rparr>))"
    by (subst ob_flush_ok) (use assms in \<open>auto simp: level_writer_write\<close>)
  ultimately show ?thesis
    by (simp add: os_endl_def os_write_def os_flush_def ob_sync_def sbind_def)
qed

lemma destroy_empty: "destroy_syslogger fmt (False, fresh_buf [], sw, env) = (Inr (), (False, fresh_buf [], sw, env))"
  by (simp add: destroy_syslogger_def ob_destroy_def ob_sync_def ob_flush_def sbind_def)

lemma put_prio_eq: "put_prio p (bad, b, level_writer t q, env) = (Inr (), (bad, b, level_writer t p, env))"
  by (simp add: put_prio_def on_writer_def)

text \<open>One entry for a short message, two for one that does not fit into the buffer.\<close>

lemma log_oneoff_short:
  assumes "length msg < 1023"
  shows "log_oneoff fmt t p msg env = (Inr (), env\<lparr>syslogd := syslogd env @ entry (level_writer t p) (rstrip msg)\<rparr>)"
proof -
  have "xsputn (syslog_write fmt) msg (fresh_buf [], level_writer t p, env)
      = (Inr (length msg), (fresh_buf msg, level_writer t p, env))"
    using xsputn_fits [of "fresh_buf []" msg] assms by simp
  then show ?thesis
    by (simp add: log_oneoff_def new_syslogger_eq log_line_def sfinally_def sbind_def put_prio_eq os_write_def
        endl_flushes [OF assms] destroy_empty)
qed

lemma log_oneoff_long:
  assumes "length xs = 1024" "length ys < 1023"
  shows "log_oneoff fmt t p (xs @ ys) env =
    (Inr (), env\<lparr>syslogd := syslogd env @ entry (level_writer t p) (rstrip xs) @ entry (level_writer t INFO) (rstrip ys)\<rparr>)"
proof -
  let ?env = "env\<lparr>syslogd := syslogd env @ entry (level_writer t p) (rstrip xs)\<rparr>"
  have "xsputn (syslog_write fmt) xs (fresh_buf [], level_writer t p, env)
      = (Inr (length xs), (fresh_buf [], level_writer t INFO, ?env))"
    using xsputn_fills [of "fresh_buf []" xs "syslog_write fmt" "(level_writer t p, env)"]
      level_writer_write [of fmt xs p t env] assms(1) by fastforce
  moreover have "xsputn (syslog_write fmt) ys (fresh_buf [], level_writer t INFO, ?env)
      = (Inr (length ys), (fresh_buf ys, level_writer t INFO, ?env))"
    using xsputn_fits [of "fresh_buf []" ys] assms(2) by simp
  ultimately have "xsputn (syslog_write fmt) (xs @ ys) (fresh_buf [], level_writer t p, env)
      = (Inr (length (xs @ ys)), (fresh_buf ys, level_writer t INFO, ?env))"
    by (simp add: xsputn_append)
  then show ?thesis
    by (simp add: log_oneoff_def new_syslogger_eq log_line_def sfinally_def sbind_def put_prio_eq os_write_def
        endl_flushes [OF assms(2)] destroy_empty)
qed

lemma entry_level: "entry (level_writer t p) body =
    (if p \<le> INFO then [(prio_int p, (if t = [] then [] else c_str (t @ '' '')) @ ''('' @ prio_to_string p @ '') '' @ c_str body)]
     else [])"
  by (auto simp: entry_def syslog_line_def new_syslog_writer_def default_prio_def c_str_def)

section \<open>Properties\<close>

text \<open>A message of fewer than 1023 characters makes one entry in the system log, with its priority,
  the tag, the name of the priority and the message without the white space at its end, up to the
  first zero byte; at the priority \<open>DEBUG\<close>, below the default minimal level, it makes none. Nothing
  else is written and no exception is thrown.\<close>

theorem log_oneoff_entry:
  assumes "length msg < 1023" "t \<noteq> []"
  shows "log_oneoff fmt t p msg env =
    (Inr (), env\<lparr>syslogd := syslogd env @
       (if p = DEBUG then [] else [(prio_int p, c_str (t @ '' '') @ ''('' @ prio_to_string p @ '') '' @ c_str (rstrip msg))])\<rparr>)"
proof -
  have "p \<le> INFO \<longleftrightarrow> p \<noteq> DEBUG" by (cases p) (simp_all add: less_eq_prio_def)
  then show ?thesis using log_oneoff_short [OF assms(1)] assms(2) by (simp add: entry_level)
qed

definition sample_env :: log_env where
  "sample_env = \<lparr>syslogd = [], echo_out = [], clock = (\<lambda>_. Fin 0), ticks = 0\<rparr>"

lemma log_oneoff_entry_witness:
  "syslogd (snd (log_oneoff (\<lambda>_. Inr []) ''t'' ERR ''x '' sample_env)) = [(3, ''t (ERROR) x'')]"
  using log_oneoff_entry [of "''x ''" "''t''" "\<lambda>_. Inr []" ERR sample_env]
  by (simp add: sample_env_def c_str_def rstrip_def numeral_2_eq_2 char_simps prio_to_string_def prionames_def)

text \<open>The priority holds for one flush only. A message that is longer than the buffer of 1024
  characters becomes two entries, of which only the first has the priority of the message; the rest
  is logged as \<open>INFO\<close>, even for a \<open>DEBUG\<close> message, whose first part is suppressed.\<close>

theorem long_message_loses_its_priority:
  assumes "length xs = 1024" "length ys < 1023"
  shows "\<exists>a b. log_oneoff fmt t p (xs @ ys) env =
      (Inr (), env\<lparr>syslogd := syslogd env @ (if p = DEBUG then [] else [(prio_int p, a)]) @ [(prio_int INFO, b)]\<rparr>)"
proof -
  have "p \<le> INFO \<longleftrightarrow> p \<noteq> DEBUG" by (cases p) (simp_all add: less_eq_prio_def)
  then show ?thesis using log_oneoff_long [OF assms] by (auto simp: entry_level)
qed

lemma long_message_loses_its_priority_witness:
  "\<exists>b. syslogd (snd (log_oneoff (\<lambda>_. Inr []) ''t'' DEBUG (replicate 1024 CHR ''a'' @ ''b'') sample_env)) = [(6, b)]"
  using long_message_loses_its_priority [of "replicate 1024 CHR ''a''" "''b''" "\<lambda>_. Inr []" "''t''" DEBUG sample_env]
  by (auto simp: sample_env_def)

text \<open>The names of the priorities are read back to the priorities they stand for, every other
  string is rejected, and the order of the type is that of the numbers of \<^verbatim>\<open>syslog.h\<close>.\<close>

theorem prio_names_roundtrip:
  "prio_from_string (prio_to_string p) = Inr p
   \<and> (is_ok (prio_from_string s) \<longleftrightarrow> (\<exists>q. s = prio_to_string q))
   \<and> (p \<le> q \<longleftrightarrow> prio_int p \<le> prio_int q)"
proof -
  have "prio_from_string (prio_to_string p) = Inr p" for p
    by (cases p) (simp_all add: prio_from_string_def prio_to_string_def prionames_def all_prios_def)
  moreover have "\<exists>q. s = prio_to_string q" if "is_ok (prio_from_string s)"
  proof -
    from that obtain i where "find_index (\<lambda>n. s = n) prionames = Some i"
      by (auto simp: prio_from_string_def split: option.splits)
    then have "i < 8" "s = prionames ! i"
      using find_index_Some [of "\<lambda>n. s = n" prionames i] by (simp_all add: prionames_length)
    moreover have "\<forall>i \<in> set [0..<8]. prio_int (all_prios ! i) = i"
      by (simp add: upt_rec all_prios_def)
    ultimately show ?thesis unfolding prio_to_string_def
      by (metis atLeastLessThan_iff set_upt zero_le)
  qed
  ultimately show ?thesis by (auto simp: less_eq_prio_def)
qed

end
