(* ===== verification/Posix.thy ===== *)
theory Posix
  imports Syslogger Resources Util "HOL-Library.Word"
begin

unbundle bit_operations_syntax

text \<open>
  The operating system as the program sees it, and \<^verbatim>\<open>src/posix/wrappers.cpp\<close> and
  \<^verbatim>\<open>src/detail/socket_lowlevel.cpp\<close> on top of it. The answers that the system will give to the
  system calls are a list, a parameter of every run; the calls made so far, each with its answer, are
  kept in a trace. A call for which there is no answer does not return. The platform is Linux.
\<close>

section \<open>System calls\<close>

datatype addr = Addr (a_family: int) (a_port: nat) (a_host: "nat list")

datatype call =
    C_open string bool bool
  | C_close int
  | C_fstat int
  | C_read int nat
  | C_write int string
  | C_nanosleep int int
  | C_gettimeofday
  | C_socket int int
  | C_bind int addr
  | C_listen int int
  | C_accept int
  | C_connect int addr
  | C_send int string
  | C_send_nosignal int string
  | C_sendto int addr string
  | C_recv int nat
  | C_recvfrom int nat
  | C_poll int bool int
  | C_select int "int \<times> int"
  | C_getfl int
  | C_setfl int "32 word"
  | C_setsockopt int int "int list"
  | C_getsockopt_error int
  | C_shutdown int bool
  | C_getsockname int
  | C_getpeername int
  | C_getaddrinfo "string option" "string option" int int
  | C_getnameinfo addr bool bool bool bool
  | C_unlink string
  | C_sigblock int

text \<open>
  What a call returns: a number that is not negative, -1 with the error number, or a number that is
  not negative with what it has stored through its pointer arguments.
\<close>

datatype answer =
    Ret nat
  | Fail int
  | Data string
  | Packet string addr
  | Name addr
  | Addrs "(int \<times> addr) list"
  | Gai int
  | Host string
  | Clock int int
  | Optval int

record os =
  answers :: "answer list"
  trace :: "(call \<times> answer) list"
  errno :: int
  strerr :: "int \<Rightarrow> string option"
  gai_strerror :: "int \<Rightarrow> string"
  datetime :: "double \<Rightarrow> string result"
  llround_unspec :: "double \<Rightarrow> int"
  logs :: log_env

abbreviation E_INTR :: int where "E_INTR \<equiv> 4"
abbreviation E_AGAIN :: int where "E_AGAIN \<equiv> 11"
abbreviation E_INVAL :: int where "E_INVAL \<equiv> 22"
abbreviation E_CONNREFUSED :: int where "E_CONNREFUSED \<equiv> 111"
abbreviation E_INPROGRESS :: int where "E_INPROGRESS \<equiv> 115"

fun ret_of :: "answer \<Rightarrow> int" where
  "ret_of (Ret n) = int n"
| "ret_of (Fail _) = - 1"
| "ret_of (Data s) = int (length s)"
| "ret_of (Packet s _) = int (length s)"
| "ret_of _ = 0"

definition sys :: "call \<Rightarrow> (os, answer) sx" where
  "sys c s =
     (case answers s of
        [] \<Rightarrow> (Inl Hang, s)
      | a # as \<Rightarrow>
          (Inr a, s\<lparr>answers := as, trace := trace s @ [(c, a)],
                    errno := (case a of Fail e \<Rightarrow> e | _ \<Rightarrow> errno s)\<rparr>))"

definition EINTR_repeat :: "answer \<Rightarrow> os \<Rightarrow> bool" where
  "EINTR_repeat a s \<longleftrightarrow> ret_of a < 0 \<and> errno s = E_INTR"

text \<open>\<^verbatim>\<open>do { ret = c } while (EINTR_repeat(ret))\<close>.\<close>

function eintr :: "call \<Rightarrow> (os, answer) sx" where
  "eintr c s =
     (case sys c s of
        (Inl e, s') \<Rightarrow> (Inl e, s')
      | (Inr a, s') \<Rightarrow> if EINTR_repeat a s' then eintr c s' else (Inr a, s'))"
  by pat_completeness auto
termination
  by (relation "measure (\<lambda>(c, s). length (answers s))") (auto simp: sys_def split: list.splits)

declare eintr.simps [simp del]

definition on_log :: "(log_env, 'a) sx \<Rightarrow> (os, 'a) sx" where
  "on_log m s = (case m (logs s) of (r, l) \<Rightarrow> (r, s\<lparr>logs := l\<rparr>))"

section \<open>Errors\<close>

definition get_strerror_message :: "int \<Rightarrow> os \<Rightarrow> string" where
  "get_strerror_message n s =
     (case strerr s n of
        Some m \<Rightarrow> m
      | None \<Rightarrow> ''WTF: strerror_r() call failed for error code: '' @ int_to_string n)"

definition strerror_exception :: "string \<Rightarrow> int \<Rightarrow> (os, 'a) sx" where
  "strerror_exception m errnum s =
     (Inl (Runtime_error (m @ '': '' @ get_strerror_message (if errnum \<noteq> 0 then errnum else errno s) s)), s)"

definition throw_socket_error :: "string \<Rightarrow> (os, 'a) sx" where
  "throw_socket_error m = strerror_exception m 0"

section \<open>Files and time\<close>

definition posix_open :: "string \<Rightarrow> bool \<Rightarrow> bool \<Rightarrow> bool \<Rightarrow> (os, int) sx" where
  "posix_open name om_in om_out om_other =
     (if (\<not> om_in \<and> \<not> om_out) \<or> om_other then sthrow (Runtime_error ''bad file open mode'')
      else sbind (sys (C_open name om_in om_out)) (\<lambda>a.
           if ret_of a < 0 then strerror_exception (''open '' @ name) 0 else sret (ret_of a)))"

text \<open>What a call that receives has stored: \<open>None\<close> for -1.\<close>

fun data_of :: "answer \<Rightarrow> string option" where
  "data_of (Fail _) = None"
| "data_of (Data s) = Some s"
| "data_of (Packet s _) = Some s"
| "data_of _ = Some []"

definition receive_with :: "call \<Rightarrow> nat \<Rightarrow> (os, string option) sx" where
  "receive_with c n =
     sbind (eintr c) (\<lambda>a.
     case data_of a of
       None \<Rightarrow> sret None
     | Some d \<Rightarrow> sbind (slift (c_assert (length d \<le> n) ''ret <= n'')) (\<lambda>_. sret (Some d)))"

definition posix_read :: "int \<Rightarrow> nat \<Rightarrow> (os, string option) sx" where
  "posix_read fd n = receive_with (C_read fd n) n"

definition posix_write :: "int \<Rightarrow> string \<Rightarrow> (os, int) sx" where
  "posix_write fd buf =
     sbind (eintr (C_write fd buf)) (\<lambda>a.
     if ret_of a < 0 then sret (- 1)
     else sbind (slift (c_assert (int (length buf) = ret_of a) ''n == ret'')) (\<lambda>_. sret (ret_of a)))"

text \<open>\<^verbatim>\<open>remove\<close> returns the result of \<^verbatim>\<open>unlink()\<close>.\<close>

definition posix_remove :: "string \<Rightarrow> (os, int) sx" where
  "posix_remove name = sbind (sys (C_unlink name)) (\<lambda>a. sret (ret_of a))"

text \<open>The signals of Linux are 1 to 64. \<^verbatim>\<open>pthread_sigmask()\<close> returns its error number, the answer \<open>Gai e\<close>,
  and leaves \<^verbatim>\<open>errno\<close> alone. The result is the set of the signal.\<close>

definition signal_valid :: "int \<Rightarrow> bool" where
  "signal_valid s \<longleftrightarrow> 1 \<le> s \<and> s \<le> 64"

definition block_signal :: "int \<Rightarrow> (os, int set) sx" where
  "block_signal s =
     (if \<not> signal_valid s
      then (\<lambda>w. strerror_exception ''sigaddset ( &ret , s )'' 0 (w\<lparr>errno := E_INVAL\<rparr>))
      else sbind (sys (C_sigblock s)) (\<lambda>a.
           case a of Gai e \<Rightarrow> if e \<noteq> 0 then strerror_exception ''pthread_sigmask()'' e else sret {s}
           | _ \<Rightarrow> sret {s}))"

definition modification_time :: "int \<Rightarrow> (os, int) sx" where
  "modification_time fd =
     sbind (sys (C_fstat fd)) (\<lambda>a. if ret_of a < 0 then strerror_exception ''fstat'' 0 else sret (ret_of a))"

definition to_timespec :: "double \<Rightarrow> (int \<times> int) result" where
  "to_timespec t = to_fractional to_long t 1000000000"

definition to_timeval :: "double \<Rightarrow> (int \<times> int) result" where
  "to_timeval t = to_fractional to_long t 1000000"

definition double_of_timespec :: "int \<times> int \<Rightarrow> double" where
  "double_of_timespec t =
     dadd (to_double (of_int (fst t))) (dmul (to_double (1 / 10 ^ 9)) (to_double (of_int (snd t))))"

definition double_of_timeval :: "int \<times> int \<Rightarrow> double" where
  "double_of_timeval t =
     dadd (to_double (of_int (fst t))) (dmul (to_double (1 / 10 ^ 6)) (to_double (of_int (snd t))))"

definition sleep :: "double \<Rightarrow> (os, unit) sx" where
  "sleep t =
     sbind (slift (c_assert (dle (Fin 0) t) ''t >= 0'')) (\<lambda>_.
     sbind (slift (to_timespec t)) (\<lambda>tt.
     sbind (sys (C_nanosleep (fst tt) (snd tt))) (\<lambda>a.
     if - 1 = ret_of a then strerror_exception ''sleep'' 0 else sret ())))"

definition time_now :: "(os, double) sx" where
  "time_now =
     sbind (sys C_gettimeofday) (\<lambda>a.
     let err = ret_of a
     in if err \<noteq> 0 then strerror_exception ''gettimeofday()'' err
        else sret (double_of_timeval (case a of Clock sec usec \<Rightarrow> (sec, usec) | _ \<Rightarrow> (0, 0))))"

section \<open>Sockets\<close>

definition SOL_SOCKET :: int where "SOL_SOCKET = 1"
definition SO_REUSEADDR :: int where "SO_REUSEADDR = 2"
definition SO_BROADCAST :: int where "SO_BROADCAST = 6"
definition SO_RCVTIMEO :: int where "SO_RCVTIMEO = 20"
definition SO_SNDTIMEO :: int where "SO_SNDTIMEO = 21"
definition TCP_NODELAY :: int where "TCP_NODELAY = 1"
definition O_NONBLOCK :: "32 word" where "O_NONBLOCK = 2048"

text \<open>The options are set at the level \<open>SOL_SOCKET\<close>.\<close>

definition enable_sockopt :: "int \<Rightarrow> int \<Rightarrow> int list \<Rightarrow> (os, unit) sx" where
  "enable_sockopt fd option optval =
     sbind (sys (C_setsockopt fd option optval)) (\<lambda>a.
     if ret_of a = - 1 then throw_socket_error ''setsockopt'' else sret ())"

definition bool_sockopt :: "int \<Rightarrow> int \<Rightarrow> bool \<Rightarrow> (os, unit) sx" where
  "bool_sockopt fd option enable = enable_sockopt fd option [if enable then 1 else 0]"

definition time_sockopt :: "int \<Rightarrow> int \<Rightarrow> double \<Rightarrow> (os, unit) sx" where
  "time_sockopt fd option t =
     sbind (slift (c_assert (SO_SNDTIMEO = option \<or> SO_RCVTIMEO = option)
       ''SO_SNDTIMEO == option || SO_RCVTIMEO == option'')) (\<lambda>_.
     sbind (slift (to_timeval t)) (\<lambda>tv. enable_sockopt fd option [fst tv, snd tv]))"

text \<open>The flags are those of \<^verbatim>\<open>F_GETFL\<close>, an \<^verbatim>\<open>int\<close>.\<close>

definition bool_fcntl_option :: "int \<Rightarrow> 32 word \<Rightarrow> string \<Rightarrow> bool \<Rightarrow> (os, unit) sx" where
  "bool_fcntl_option fd option error_msg enable =
     sbind (sys (C_getfl fd)) (\<lambda>a.
     if - 1 = ret_of a then throw_socket_error (error_msg @ '': reading options'')
     else let previous_flags = word_of_int (ret_of a);
              arg = (if enable then previous_flags OR option else previous_flags AND NOT option)
          in sbind (sys (C_setfl fd arg)) (\<lambda>a.
             if - 1 = ret_of a then throw_socket_error (error_msg @ '': setting options'') else sret ()))"

definition get_sockopt_error :: "int \<Rightarrow> (os, int) sx" where
  "get_sockopt_error fd =
     sbind (sys (C_getsockopt_error fd)) (\<lambda>a.
     if - 1 = ret_of a then throw_socket_error ''getsockopt() for error''
     else sret (case a of Optval v \<Rightarrow> v | _ \<Rightarrow> 0))"

text \<open>The system calls of \<^verbatim>\<open>socketsend\<close> and of the shutdown functions, whose result is ignored.\<close>

definition socketsend :: "int \<Rightarrow> string \<Rightarrow> call" where
  "socketsend fd data = C_send_nosignal fd data"

definition socket_shutdown_read :: "int \<Rightarrow> (os, unit) sx" where
  "socket_shutdown_read fd = sbind (sys (C_shutdown fd False)) (\<lambda>_. sret ())"

definition socket_shutdown_write :: "int \<Rightarrow> (os, unit) sx" where
  "socket_shutdown_write fd = sbind (sys (C_shutdown fd True)) (\<lambda>_. sret ())"

section \<open>Facts\<close>

lemma sys_wp [wp_simps]:
  "wp (sys c) Q E s =
     (case answers s of [] \<Rightarrow> E Hang s
      | a # as \<Rightarrow> Q a (s\<lparr>answers := as, trace := trace s @ [(c, a)], errno := (case a of Fail e \<Rightarrow> e | _ \<Rightarrow> errno s)\<rparr>))"
  by (simp add: wp_def sys_def split: list.splits)

text \<open>The loop ends with the first answer that is no interruption.\<close>

lemma eintr_interrupted:
  "answers s = Fail E_INTR # as \<Longrightarrow>
     eintr c s = eintr c (s\<lparr>answers := as, trace := trace s @ [(c, Fail E_INTR)], errno := E_INTR\<rparr>)"
  by (subst eintr.simps) (simp add: sys_def EINTR_repeat_def)

lemma ret_of_negative: "ret_of a < 0 \<longleftrightarrow> (\<exists>e. a = Fail e)"
  by (cases a) auto

lemma eintr_answer:
  "answers s = a # as \<Longrightarrow> a \<noteq> Fail E_INTR \<Longrightarrow>
     eintr c s = (Inr a, s\<lparr>answers := as, trace := trace s @ [(c, a)],
       errno := (case a of Fail e \<Rightarrow> e | _ \<Rightarrow> errno s)\<rparr>)"
  by (subst eintr.simps) (auto simp: sys_def EINTR_repeat_def ret_of_negative)

lemma eintr_run:
  "answers s = replicate n (Fail E_INTR) @ a # as \<Longrightarrow> a \<noteq> Fail E_INTR \<Longrightarrow>
     \<exists>s'. eintr c s = (Inr a, s') \<and> answers s' = as \<and> trace s' = trace s @ replicate n (c, Fail E_INTR) @ [(c, a)]
       \<and> logs s' = logs s \<and> strerr s' = strerr s \<and> gai_strerror s' = gai_strerror s \<and> datetime s' = datetime s
       \<and> (\<forall>e. a = Fail e \<longrightarrow> errno s' = e)"
proof (induction n arbitrary: s)
  case 0
  then show ?case by (simp add: eintr_answer)
next
  case (Suc n)
  let ?s = "s\<lparr>answers := replicate n (Fail E_INTR) @ a # as, trace := trace s @ [(c, Fail E_INTR)], errno := E_INTR\<rparr>"
  have "eintr c s = eintr c ?s"
    using Suc.prems(1) by (intro eintr_interrupted) simp
  with Suc.IH [of ?s] Suc.prems(2) show ?case by auto
qed

lemma answers_split:
  "(\<exists>n. xs = replicate n (Fail E_INTR)) \<or> (\<exists>n a as. xs = replicate n (Fail E_INTR) @ a # as \<and> a \<noteq> Fail E_INTR)"
proof (induction xs)
  case (Cons x xs)
  show ?case
  proof (cases "x = Fail E_INTR")
    case True
    with Cons show ?thesis by (metis append_Cons replicate_Suc)
  next
    case False
    then have "x # xs = replicate 0 (Fail E_INTR) @ x # xs \<and> x \<noteq> Fail E_INTR" by simp
    then show ?thesis by blast
  qed
qed auto

lemma eintr_hang: "answers s = replicate n (Fail E_INTR) \<Longrightarrow> fst (eintr c s) = Inl Hang"
proof (induction n arbitrary: s)
  case 0
  then show ?case by (subst eintr.simps) (simp add: sys_def)
next
  case (Suc n)
  then show ?case by (simp add: eintr_interrupted)
qed

text \<open>What every use of the loop relies on.\<close>

lemma eintr_Inr:
  assumes "eintr c s = (Inr a, s')"
  shows "a \<noteq> Fail E_INTR \<and> (\<exists>n. answers s = replicate n (Fail E_INTR) @ a # answers s'
      \<and> trace s' = trace s @ replicate n (c, Fail E_INTR) @ [(c, a)])
    \<and> logs s' = logs s \<and> strerr s' = strerr s \<and> gai_strerror s' = gai_strerror s \<and> datetime s' = datetime s
    \<and> (\<forall>e. a = Fail e \<longrightarrow> errno s' = e)"
proof -
  from answers_split [of "answers s"] show ?thesis
  proof
    assume "\<exists>n. answers s = replicate n (Fail E_INTR)"
    then obtain n where "answers s = replicate n (Fail E_INTR)" by blast
    from eintr_hang [OF this, of c] assms show ?thesis by simp
  next
    assume "\<exists>n b as. answers s = replicate n (Fail E_INTR) @ b # as \<and> b \<noteq> Fail E_INTR"
    then obtain n b as where n: "answers s = replicate n (Fail E_INTR) @ b # as" "b \<noteq> Fail E_INTR" by blast
    from eintr_run [OF n, of c] assms show ?thesis using n by auto
  qed
qed

lemma eintr_Inl: "eintr c s = (Inl e, s') \<Longrightarrow> e = Hang"
proof -
  assume e: "eintr c s = (Inl e, s')"
  from answers_split [of "answers s"] show ?thesis
    using eintr_hang [of s _ c] eintr_run [of s _ _ _ c] e by (metis fst_conv old.sum.distinct(1) prod.inject sum.inject(1))
qed

section \<open>Files as reader_writers\<close>

text \<open>What the program has sent over, or received from, a descriptor, by the trace.\<close>

fun sent_by :: "int \<Rightarrow> call \<times> answer \<Rightarrow> string" where
  "sent_by fd (C_write f d, a) = (if f = fd then take (nat (ret_of a)) d else [])"
| "sent_by fd (C_send_nosignal f d, a) = (if f = fd then take (nat (ret_of a)) d else [])"
| "sent_by fd _ = []"

fun received_by :: "int \<Rightarrow> call \<times> answer \<Rightarrow> string" where
  "received_by fd (C_read f n, Data d) = (if f = fd then d else [])"
| "received_by fd (C_recv f n, Data d) = (if f = fd then d else [])"
| "received_by fd (C_read f n, Packet d _) = (if f = fd then d else [])"
| "received_by fd (C_recv f n, Packet d _) = (if f = fd then d else [])"
| "received_by fd _ = []"

definition sent_on :: "int \<Rightarrow> os \<Rightarrow> string" where
  "sent_on fd s = concat (map (sent_by fd) (trace s))"

definition received_on :: "int \<Rightarrow> os \<Rightarrow> string" where
  "received_on fd s = concat (map (received_by fd) (trace s))"

text \<open>Writing and reading through the loop, for any call that sends or receives on the descriptor.\<close>

lemma sent_eintr:
  assumes "eintr c s = (Inr a, s')"
  shows "sent_on fd s' = sent_on fd s @ sent_by fd (c, a)"
proof -
  have "sent_by fd (c, Fail E_INTR) = []" by (cases c) auto
  with eintr_Inr [OF assms] show ?thesis by (auto simp: sent_on_def)
qed

lemma received_eintr:
  assumes "eintr c s = (Inr a, s')"
  shows "received_on fd s' = received_on fd s @ received_by fd (c, a)"
proof -
  have "received_by fd (c, Fail E_INTR) = []" by (cases c) auto
  with eintr_Inr [OF assms] show ?thesis by (auto simp: received_on_def)
qed

lemma receive_with_received:
  assumes "receive_with c n s = (Inr r, s')"
    and "\<And>a. received_by fd (c, a) = (case data_of a of None \<Rightarrow> [] | Some d \<Rightarrow> d)"
  shows "case r of None \<Rightarrow> received_on fd s' = received_on fd s
    | Some d \<Rightarrow> length d \<le> n \<and> received_on fd s' = received_on fd s @ d"
proof -
  from assms(1) obtain a where a: "eintr c s = (Inr a, s')" "r = data_of a"
    "\<forall>d. data_of a = Some d \<longrightarrow> length d \<le> n"
    by (auto simp: receive_with_def c_assert_def elim!: sbind_InrE split: option.splits if_splits)
  then show ?thesis
    using received_eintr [OF a(1), of fd] assms(2) [of a] by (cases "data_of a") auto
qed

lemma received_by_data:
  "received_by fd (C_read fd n, a) = (case data_of a of None \<Rightarrow> [] | Some d \<Rightarrow> d)"
  "received_by fd (C_recv fd n, a) = (case data_of a of None \<Rightarrow> [] | Some d \<Rightarrow> d)"
  by (cases a; simp)+

lemma posix_write_sent:
  assumes "posix_write fd d s = (Inr r, s')"
  shows "(r = int (length d) \<and> sent_on fd s' = sent_on fd s @ d) \<or> (r = - 1 \<and> sent_on fd s' = sent_on fd s)"
proof -
  from assms obtain a where a: "eintr (C_write fd d) s = (Inr a, s')"
    "if ret_of a < 0 then r = - 1 else r = ret_of a \<and> ret_of a = int (length d)"
    by (auto simp: posix_write_def c_assert_def elim!: sbind_InrE split: if_splits)
  then show ?thesis
    using sent_eintr [OF a(1), of fd] by (auto split: if_splits)
qed

interpretation posix: reader_writer "posix_read fd" "received_on fd" "posix_write fd" "sent_on fd"
  for fd
proof unfold_locales
  fix n w d w'
  assume "posix_read fd n w = (Inr (Some d), w')"
  then show "length d \<le> n \<and> received_on fd w' = received_on fd w @ d"
    using receive_with_received [of "C_read fd n" n w "Some d" w' fd] received_by_data
    by (simp add: posix_read_def)
next
  fix n w w'
  assume "posix_read fd n w = (Inr None, w')"
  then show "received_on fd w' = received_on fd w"
    using receive_with_received [of "C_read fd n" n w None w' fd] received_by_data
    by (simp add: posix_read_def)
next
  fix d w r w'
  assume "posix_write fd d w = (Inr r, w')" "0 \<le> r"
  then show "r = int (length d) \<and> sent_on fd w' = sent_on fd w @ d"
    using posix_write_sent [of fd d w r w'] by auto
next
  fix d w r w'
  assume "posix_write fd d w = (Inr r, w')" "r < 0"
  then show "\<exists>k\<le>length d. sent_on fd w' = sent_on fd w @ take k d"
    using posix_write_sent [of fd d w r w'] by (intro exI [of _ 0]) auto
qed

section \<open>Properties\<close>

text \<open>A system call in the loop \<^verbatim>\<open>do ... while (EINTR_repeat(ret))\<close> returns as soon as the system gives
  an answer other than an interruption: the call has then been made once for every interruption and
  once more, and the loop returns that answer.\<close>

theorem interrupted_calls_are_repeated:
  assumes "answers s = replicate n (Fail E_INTR) @ a # as" "a \<noteq> Fail E_INTR"
  shows "\<exists>s'. eintr c s = (Inr a, s') \<and> answers s' = as
    \<and> trace s' = trace s @ replicate n (c, Fail E_INTR) @ [(c, a)] \<and> (\<forall>e. a = Fail e \<longrightarrow> errno s' = e)"
  using eintr_run [OF assms, of c] by blast

lemma interrupted_calls_are_repeated_witness:
  "\<exists>s'. eintr (C_accept 3) \<lparr>answers = [Fail 4, Fail 4, Ret 9], trace = [], errno = 0, strerr = (\<lambda>_. None),
      gai_strerror = (\<lambda>_. []), datetime = (\<lambda>_. Inr []), llround_unspec = (\<lambda>_. 0), logs = sample_env\<rparr> = (Inr (Ret 9), s')
    \<and> trace s' = [(C_accept 3, Fail 4), (C_accept 3, Fail 4), (C_accept 3, Ret 9)]"
  (is "\<exists>s'. eintr _ ?s = _ \<and> _")
proof -
  have "answers ?s = replicate 2 (Fail E_INTR) @ Ret 9 # []" by (simp add: numeral_2_eq_2)
  from interrupted_calls_are_repeated [OF this] show ?thesis by (auto simp: numeral_2_eq_2)
qed

text \<open>\<open>sleep\<close> has no such loop: a signal makes it throw.\<close>

lemma sleep_throws_when_interrupted:
  "answers s = Fail E_INTR # as \<Longrightarrow> dle (Fin 0) t \<Longrightarrow> to_timespec t = Inr tt \<Longrightarrow>
     \<exists>m. fst (sleep t s) = Inl (Runtime_error m)"
  by (simp add: sleep_def sbind_def sys_def strerror_exception_def slift_def)

text \<open>When \<^verbatim>\<open>gettimeofday\<close> fails, the message is that for the error number -1.\<close>

lemma time_reports_wrong_error:
  "answers s = Fail e # as \<Longrightarrow>
     fst (time_now s) = Inl (Runtime_error (''gettimeofday(): '' @ get_strerror_message (- 1) s))"
  by (simp add: time_now_def sbind_def sys_def strerror_exception_def get_strerror_message_def)

end
