(* ===== verification/Errors.thy ===== *)
theory Errors
  imports Doubles "HOL-Library.Sublist"
begin

text \<open>
  The functions that throw, of \<^verbatim>\<open>src/error.cpp\<close> and \<^verbatim>\<open>src/assert.cpp\<close>, and the two testing helpers of
  \<^verbatim>\<open>nanonet/assert.h\<close> that expect an exception.
\<close>

section \<open>Throwing\<close>

definition throw_error :: "string \<Rightarrow> 'a result" where
  "throw_error message = Inl (Runtime_error message)"

definition throw_parse_error :: "string \<Rightarrow> 'a result" where
  "throw_parse_error message = Inl (Parse_error (''Parse error: '' @ message))"

text \<open>The overload for a \<^verbatim>\<open>char const*\<close> calls the one for a string.\<close>

definition throw_parse_error_c :: "string \<Rightarrow> 'a result" where
  "throw_parse_error_c message = throw_parse_error (''Parse error: '' @ message)"

definition throw_timeout_after :: "double \<Rightarrow> string \<Rightarrow> 'a result" where
  "throw_timeout_after t op =
     Inl (Timeout_exception (''Operation '' @ [dquote] @ op @ [dquote] @ '' timed out after '' @ double_to_string t
       @ '' second(s)''))"

definition throw_timeout_exception :: "'a result" where
  "throw_timeout_exception = Inl (Timeout_exception [])"

definition throw_shutdown_exception :: "string \<Rightarrow> 'a result" where
  "throw_shutdown_exception w = Inl (Shutdown_exception w)"

definition throw_assertion_failure :: "string \<Rightarrow> 'a result" where
  "throw_assertion_failure w = Inl (Assertion_failure w)"

definition throw_runtime_error :: "string \<Rightarrow> 'a result" where
  "throw_runtime_error w = Inl (Runtime_error w)"

section \<open>Expecting an exception\<close>

definition matches :: "string \<Rightarrow> string \<Rightarrow> bool" where
  "matches w t \<longleftrightarrow> sublist t w"

definition verify_throws :: "string \<Rightarrow> 'a result \<Rightarrow> unit result" where
  "verify_throws t m =
     (case m of
        Inl e \<Rightarrow>
          if is_std_exception e
          then (if \<not> matches (what e) t then Inl (Runtime_error (''exception thrown but what() doesn't match '' @ t))
                else Inr ())
          else Inl e
      | Inr _ \<Rightarrow> Inl (Runtime_error ''expected exception wasn't thrown''))"

text \<open>The macro \<^verbatim>\<open>expect_throws\<close>; \<open>is_type\<close> is what its \<^verbatim>\<open>catch\<close> clause catches.\<close>

definition expect_throws :: "(exc \<Rightarrow> bool) \<Rightarrow> string \<Rightarrow> 'a result \<Rightarrow> unit result" where
  "expect_throws is_type t m =
     (case m of
        Inl e \<Rightarrow>
          if is_type e
          then (if \<not> matches (what e) t then Inl (Runtime_error (''expected to find: '' @ t @ '', got: '' @ what e))
                else Inr ())
          else Inl e
      | Inr _ \<Rightarrow> Inr ())"

section \<open>Properties\<close>

text \<open>\<open>verify_throws\<close> succeeds exactly when its function throws a \<^verbatim>\<open>std::exception\<close> whose text contains
  the expected one. The macro \<open>expect_throws\<close> does not: it also succeeds when nothing is thrown.\<close>

theorem expecting_exceptions:
  "(is_ok (verify_throws t m) \<longleftrightarrow> (\<exists>e. m = Inl e \<and> is_std_exception e \<and> sublist t (what e)))
   \<and> (is_ok (expect_throws is_type t m) \<longleftrightarrow>
        is_ok m \<or> (\<exists>e. m = Inl e \<and> is_type e \<and> sublist t (what e)))"
  by (auto simp: verify_throws_def expect_throws_def matches_def split: sum.splits)

end
