(* ===== verification/Sockets.thy ===== *)
theory Sockets
  imports Posix Errors Math_Util
begin

text \<open>
  Sockets: the class template \<open>socket\<close> of \<^verbatim>\<open>nanonet/detail/socket.h\<close> and the calls of
  \<^verbatim>\<open>src/detail/network.cpp\<close> that repeat interrupted system calls and implement the timeouts of
  accepting and connecting. A socket object is its descriptor; \<open>on_exception\<close> runs the destructor of
  one that is left by an exception.
\<close>

section \<open>Socket objects\<close>

definition AF_UNSPEC :: int where "AF_UNSPEC = 0"
definition AF_INET :: int where "AF_INET = 2"
definition AF_INET6 :: int where "AF_INET6 = 10"
definition SOCK_STREAM :: int where "SOCK_STREAM = 1"
definition SOCK_DGRAM :: int where "SOCK_DGRAM = 2"

definition check_socktype :: "int \<Rightarrow> int result" where
  "check_socktype t =
     rbind (assertion (SOCK_DGRAM = t \<or> SOCK_STREAM = t) ''SOCK_DGRAM == type || SOCK_STREAM == type''
              ''src/detail/socket.cpp'' 24) (\<lambda>_. Inr t)"

definition check_family :: "int \<Rightarrow> int result" where
  "check_family f =
     rbind (assertion (AF_INET = f \<or> AF_INET6 = f) ''AF_INET == family || AF_INET6 == family''
              ''src/detail/socket.cpp'' 27) (\<lambda>_. Inr f)"

definition socket_setup :: "int \<Rightarrow> (os, unit) sx" where
  "socket_setup fd = (if \<not> socket_valid fd then throw_socket_error ''socket'' else sskip)"

text \<open>The constructors from a descriptor and from an address family.\<close>

definition socket_adopt :: "int \<Rightarrow> (os, int) sx" where
  "socket_adopt fd = sbind (socket_setup fd) (\<lambda>_. sret fd)"

definition socket_new :: "int \<Rightarrow> int \<Rightarrow> (os, int) sx" where
  "socket_new type family =
     sbind (slift (check_family family)) (\<lambda>f.
     sbind (slift (check_socktype type)) (\<lambda>t.
     sbind (sys (C_socket f t)) (\<lambda>a. socket_adopt (ret_of a))))"

text \<open>The destructor: \<^verbatim>\<open>socket_resource_traits::dispose\<close> of a valid descriptor.\<close>

definition socket_dispose :: "int \<Rightarrow> (os, unit) sx" where
  "socket_dispose fd =
     sbind (sys (C_close fd)) (\<lambda>a.
     if ret_of a < 0
     then (\<lambda>s. on_log (log_oneoff (datetime s) ''SOCKET-DESTRUCTOR'' EMERG
             (''WTF: Close failed for socket descriptor '' @ int_to_string fd @ ''; error: ''
              @ get_strerror_message (errno s) s)) s)
     else sskip)"

definition socket_destroy :: "int \<Rightarrow> (os, unit) sx" where
  "socket_destroy fd = (if socket_valid fd then socket_dispose fd else sskip)"

definition on_exception :: "('s, 'a) sx \<Rightarrow> ('s, unit) sx \<Rightarrow> ('s, 'a) sx" where
  "on_exception m h s =
     (case m s of
        (Inl e, s') \<Rightarrow> (if is_std_exception e then sbind h (\<lambda>_. sthrow e) s' else (Inl e, s'))
      | (Inr x, s') \<Rightarrow> (Inr x, s'))"

definition socket_read :: "int \<Rightarrow> nat \<Rightarrow> (os, string option) sx" where
  "socket_read fd n = receive_with (C_recv fd n) n"

definition socket_write :: "int \<Rightarrow> string \<Rightarrow> (os, int) sx" where
  "socket_write fd buf =
     sbind (eintr (socketsend fd buf)) (\<lambda>a.
     if ret_of a < 0 \<or> int (length buf) \<noteq> ret_of a then sret (- 1)
     else sbind (slift (c_assert (int (length buf) = ret_of a) ''n == ret'')) (\<lambda>_. sret (ret_of a)))"

definition shutdown_write :: "int \<Rightarrow> int \<Rightarrow> (os, unit) sx" where
  "shutdown_write type fd = (if SOCK_STREAM = type then socket_shutdown_write fd else sskip)"

definition shutdown_read :: "int \<Rightarrow> int \<Rightarrow> (os, unit) sx" where
  "shutdown_read type fd = (if SOCK_STREAM = type then socket_shutdown_read fd else sskip)"

section \<open>Calls with timeouts\<close>

definition poll_one :: "int \<Rightarrow> bool \<Rightarrow> double \<Rightarrow> string \<Rightarrow> (os, int) sx" where
  "poll_one fd pollin timeout msg =
     (\<lambda>s. sbind (slift (round_to_integer (llround_unspec s) 32 (dmul timeout (Fin 1000)))) (\<lambda>timeout_ms.
     sbind (eintr (C_poll fd pollin timeout_ms)) (\<lambda>a.
     if - 1 = ret_of a then throw_socket_error (msg @ '': poll() failed'')
     else sbind (slift (assertion (ret_of a \<ge> 0) ''res >= 0'' ''src/detail/network.cpp'' 52)) (\<lambda>_. sret (ret_of a)))) s)"

definition my_listen :: "int \<Rightarrow> int \<Rightarrow> (os, unit) sx" where
  "my_listen fd backlog =
     sbind (eintr (C_listen fd backlog)) (\<lambda>a. if ret_of a < 0 then throw_socket_error ''listen'' else sret ())"

definition my_bind :: "int \<Rightarrow> addr \<Rightarrow> (os, unit) sx" where
  "my_bind fd a =
     sbind (eintr (C_bind fd a)) (\<lambda>r. if ret_of r < 0 then throw_socket_error ''bind'' else sret ())"

definition my_accept :: "int \<Rightarrow> (os, int) sx" where
  "my_accept fd =
     sbind (eintr (C_accept fd)) (\<lambda>a.
     if invalid_socket = ret_of a then throw_socket_error ''accept'' else sret (ret_of a))"

definition my_accept_timeout :: "int \<Rightarrow> double \<Rightarrow> (os, int) sx" where
  "my_accept_timeout fd timeout =
     (if dless timeout (Fin 0) then my_accept fd
      else
        sbind (bool_fcntl_option fd O_NONBLOCK ''Enabling nonblocking mode'' True) (\<lambda>_.
        sbind (poll_one fd True timeout ''accepting connections'') (\<lambda>poll_res.
        if 0 = poll_res then slift throw_timeout_exception
        else
          sbind (my_accept fd) (\<lambda>ret.
          sbind (bool_fcntl_option ret O_NONBLOCK ''Disabling nonblocking mode'' False) (\<lambda>_. sret ret)))))"

definition my_connect :: "int \<Rightarrow> addr \<Rightarrow> (os, unit) sx" where
  "my_connect fd a =
     sbind (eintr (C_connect fd a)) (\<lambda>r. if ret_of r < 0 then throw_socket_error ''connect'' else sret ())"

definition my_connect_timeout :: "int \<Rightarrow> addr \<Rightarrow> double \<Rightarrow> (os, unit) sx" where
  "my_connect_timeout fd a timeout =
     (if dless timeout (Fin 0) then my_connect fd a
      else
        sbind (bool_fcntl_option fd O_NONBLOCK ''Enabling nonblocking mode'' True) (\<lambda>_.
        sbind (eintr (C_connect fd a)) (\<lambda>r.
        if ret_of r \<ge> 0 then sret ()
        else
          sbind (sgets errno) (\<lambda>en.
          if E_INPROGRESS \<noteq> en then throw_socket_error ''connect''
          else
            sbind (poll_one fd False timeout ''connecting'') (\<lambda>poll_res.
            if 0 = poll_res then slift (throw_timeout_after timeout ''connecting'')
            else
              sbind (get_sockopt_error fd) (\<lambda>err.
              if 0 \<noteq> err then strerror_exception ''connect() after poll()'' err
              else bool_fcntl_option fd O_NONBLOCK ''Enabling nonblocking mode'' False))))))"

definition my_send :: "int \<Rightarrow> string \<Rightarrow> (os, answer) sx" where
  "my_send fd p = eintr (C_send fd p)"

definition my_sendto :: "int \<Rightarrow> addr \<Rightarrow> string \<Rightarrow> (os, answer) sx" where
  "my_sendto fd a p = eintr (C_sendto fd a p)"

section \<open>Sockets as reader_writers\<close>

lemma socket_write_sent:
  assumes "socket_write fd d s = (Inr r, s')"
  shows "(r = int (length d) \<and> sent_on fd s' = sent_on fd s @ d)
    \<or> (r = - 1 \<and> (\<exists>k \<le> length d. sent_on fd s' = sent_on fd s @ take k d))"
proof -
  from assms obtain a where a: "eintr (socketsend fd d) s = (Inr a, s')"
    "if ret_of a < 0 \<or> int (length d) \<noteq> ret_of a then r = - 1 else r = ret_of a"
    by (auto simp: socket_write_def c_assert_def elim!: sbind_InrE split: if_splits)
  have t: "take (nat (ret_of a)) d = take (min (nat (ret_of a)) (length d)) d" by (simp add: min_def)
  have "sent_on fd s' = sent_on fd s @ take (nat (ret_of a)) d"
    using sent_eintr [OF a(1), of fd] by (simp add: socketsend_def)
  then show ?thesis
    using a(2) t by (metis min.cobounded2 nat_int take_all_iff order_refl)
qed

interpretation sock: reader_writer "socket_read fd" "received_on fd" "socket_write fd" "sent_on fd"
  for fd
proof unfold_locales
  fix n w d w'
  assume "socket_read fd n w = (Inr (Some d), w')"
  then show "length d \<le> n \<and> received_on fd w' = received_on fd w @ d"
    using receive_with_received [of "C_recv fd n" n w "Some d" w' fd] received_by_data
    by (simp add: socket_read_def)
next
  fix n w w'
  assume "socket_read fd n w = (Inr None, w')"
  then show "received_on fd w' = received_on fd w"
    using receive_with_received [of "C_recv fd n" n w None w' fd] received_by_data
    by (simp add: socket_read_def)
next
  fix d w r w'
  assume "socket_write fd d w = (Inr r, w')" "0 \<le> r"
  then show "r = int (length d) \<and> sent_on fd w' = sent_on fd w @ d"
    using socket_write_sent [of fd d w r w'] by auto
next
  fix d w r w'
  assume "socket_write fd d w = (Inr r, w')" "r < 0"
  then show "\<exists>k\<le>length d. sent_on fd w' = sent_on fd w @ take k d"
    using socket_write_sent [of fd d w r w'] by auto
qed

lemma socket_write_Inl: "socket_write fd d s = (Inl e, s') \<Longrightarrow> e = Hang"
  by (auto simp: socket_write_def dest: eintr_Inl elim!: sbind_InlE split: if_splits)


section \<open>Traces of the calls\<close>

text \<open>\<open>extends s s' seg\<close>: the calls between the two states are \<open>seg\<close>.\<close>

definition extends :: "os \<Rightarrow> os \<Rightarrow> (call \<times> answer) list \<Rightarrow> bool" where
  "extends s s' seg \<longleftrightarrow> trace s' = trace s @ seg"

lemma extends_refl: "extends s s []"
  by (simp add: extends_def)

lemma extends_trans: "extends s s1 a \<Longrightarrow> extends s1 s2 b \<Longrightarrow> extends s s2 (a @ b)"
  by (simp add: extends_def)

lemma extends_sys: "sys c s = (Inr a, s') \<Longrightarrow> extends s s' [(c, a)]"
  by (auto simp: sys_def extends_def split: list.splits)

lemma extends_eintr:
  assumes "eintr c s = (Inr a, s')"
  shows "\<exists>n. extends s s' (replicate n (c, Fail E_INTR) @ [(c, a)])"
  using eintr_Inr [OF assms] unfolding extends_def by blast

text \<open>The last flags set on a descriptor: whether it is in non-blocking mode; \<open>None\<close> if they were not
  changed.\<close>

fun setfl_by :: "int \<Rightarrow> bool option \<Rightarrow> call \<times> answer \<Rightarrow> bool option" where
  "setfl_by fd m (C_setfl f w, a) = (if f = fd \<and> ret_of a \<noteq> - 1 then Some (w AND O_NONBLOCK \<noteq> 0) else m)"
| "setfl_by fd m _ = m"

definition nonblocking :: "int \<Rightarrow> (call \<times> answer) list \<Rightarrow> bool option" where
  "nonblocking fd seg = foldl (setfl_by fd) None seg"

definition no_setfl :: "(call \<times> answer) list \<Rightarrow> bool" where
  "no_setfl seg \<longleftrightarrow> (\<forall>(c, a) \<in> set seg. \<forall>f w. c \<noteq> C_setfl f w)"

lemma setfl_other: "\<forall>f w. c \<noteq> C_setfl f w \<Longrightarrow> setfl_by fd m (c, a) = m"
  by (cases c) auto

lemma foldl_no_setfl: "no_setfl seg \<Longrightarrow> foldl (setfl_by fd) m seg = m"
  by (induction seg arbitrary: m) (auto simp: no_setfl_def setfl_other)

lemma nonblocking_append:
  "no_setfl b \<Longrightarrow> nonblocking fd (a @ b) = nonblocking fd a"
  "no_setfl a \<Longrightarrow> nonblocking fd (a @ b) = nonblocking fd b"
  by (simp_all add: nonblocking_def foldl_no_setfl)

lemma nonblock_bits:
  "(w OR O_NONBLOCK) AND O_NONBLOCK \<noteq> 0" "(w AND NOT O_NONBLOCK) AND O_NONBLOCK = 0"
proof -
  have "bit ((w OR O_NONBLOCK) AND O_NONBLOCK) 11"
    by (simp add: bit_or_iff bit_and_iff O_NONBLOCK_def)
  then show "(w OR O_NONBLOCK) AND O_NONBLOCK \<noteq> 0" by auto
  show "(w AND NOT O_NONBLOCK) AND O_NONBLOCK = 0"
    by (rule bit_eqI) (auto simp: bit_and_iff bit_not_iff)
qed

lemma fcntl_trace:
  assumes "bool_fcntl_option fd O_NONBLOCK m enable s = (Inr u, s')"
  shows "\<exists>seg. extends s s' seg \<and> (\<forall>f. foldl (setfl_by f) x seg = (if f = fd then Some enable else x))
    \<and> (\<forall>(c, a) \<in> set seg. c = C_getfl fd \<or> (\<exists>w. c = C_setfl fd w))"
proof -
  from assms obtain a1 a2 s1 w where
    "sys (C_getfl fd) s = (Inr a1, s1)" "sys (C_setfl fd w) s1 = (Inr a2, s')" "ret_of a2 \<noteq> - 1"
    "w = (if enable then word_of_int (ret_of a1) OR O_NONBLOCK else word_of_int (ret_of a1) AND NOT O_NONBLOCK)"
    by (auto simp: bool_fcntl_option_def throw_socket_error_def strerror_exception_def Let_def
        elim!: sbind_InrE split: if_splits)
  then have "extends s s' ([(C_getfl fd, a1)] @ [(C_setfl fd w, a2)])" "ret_of a2 \<noteq> - 1"
    "(w AND O_NONBLOCK \<noteq> 0) = enable"
    using extends_trans [OF extends_sys extends_sys] nonblock_bits by auto
  then show ?thesis by (intro exI [of _ "[(C_getfl fd, a1), (C_setfl fd w, a2)]"]) auto
qed

lemma eintr_trace:
  assumes "eintr c s = (Inr a, s')"
  shows "\<exists>seg. extends s s' seg \<and> (c, a) \<in> set seg \<and> (\<forall>x \<in> set seg. x = (c, a) \<or> x = (c, Fail E_INTR))"
proof -
  from extends_eintr [OF assms] obtain n where "extends s s' (replicate n (c, Fail E_INTR) @ [(c, a)])" by blast
  then show ?thesis by (intro exI [of _ "replicate n (c, Fail E_INTR) @ [(c, a)]"]) auto
qed

lemma poll_trace:
  assumes "poll_one fd i t m s = (Inr r, s')"
  shows "\<exists>seg ms. extends s s' seg \<and> (\<forall>(c, a) \<in> set seg. c = C_poll fd i ms)"
proof -
  from assms obtain ms a where "eintr (C_poll fd i ms) s = (Inr a, s')"
    by (auto simp: poll_one_def slift_def throw_socket_error_def strerror_exception_def
        elim!: sbind_InrE split: if_splits)
  from eintr_trace [OF this] show ?thesis by fastforce
qed

text \<open>The end of a connection attempt that had to wait.\<close>

lemma waited_trace:
  assumes "poll_one fd False t ''connecting'' s2 = (Inr p, s3)" "get_sockopt_error fd s3 = (Inr v, s4)"
    "bool_fcntl_option fd O_NONBLOCK ''Enabling nonblocking mode'' False s4 = (Inr u, s')"
  shows "\<exists>g3 ms e g5. extends s2 s3 g3 \<and> (\<forall>(c, a) \<in> set g3. c = C_poll fd False ms)
    \<and> extends s3 s4 [(C_getsockopt_error fd, e)] \<and> extends s4 s' g5
    \<and> foldl (setfl_by fd) (Some True) g5 = Some False
    \<and> (\<forall>(c, a) \<in> set g5. c = C_getfl fd \<or> (\<exists>w. c = C_setfl fd w))"
proof -
  from poll_trace [OF assms(1)] obtain g3 ms where g3: "extends s2 s3 g3" "\<forall>(c, a) \<in> set g3. c = C_poll fd False ms" by blast
  from assms(2) obtain e where g4: "extends s3 s4 [(C_getsockopt_error fd, e)]"
    by (auto simp: get_sockopt_error_def throw_socket_error_def strerror_exception_def elim!: sbind_InrE
        split: if_splits dest!: extends_sys)
  from fcntl_trace [OF assms(3), of "Some True"] obtain g5 where g5: "extends s4 s' g5"
    "foldl (setfl_by fd) (Some True) g5 = Some False" "\<forall>(c, a) \<in> set g5. c = C_getfl fd \<or> (\<exists>w. c = C_setfl fd w)"
    by auto
  show ?thesis
    by (intro exI [of _ g3] exI [of _ ms] exI [of _ e] exI [of _ g5] conjI) (use g3 g4 g5 in auto)
qed

section \<open>Properties\<close>

text \<open>C3: A TCP output stream. Whatever a program writes and flushes, the stream never writes past the end
  of its buffer and fails no assertion; the only thing that can keep an operation from returning is
  a system call that does not return. As long as the stream is good, what has been sent followed by
  what is in the buffer is what was written, in order; once it is bad, what has been sent is a
  beginning of it. After a flush on a good stream everything has been sent.\<close>

theorem tcp_output_stream:
  assumes "new_ostreambuf True n = Inr b" "os_run (socket_write fd) xs (False, b, w) = (r, bad, b', w')"
  shows "(r = Inr () \<longrightarrow>
      (if bad then (\<exists>rest. sent_on fd w @ concat (map op_text xs) = sent_on fd w' @ rest)
       else sent_on fd w' @ ob_data b' = sent_on fd w @ concat (map op_text xs)
         \<and> (xs \<noteq> [] \<and> last xs = Flush \<longrightarrow> sent_on fd w' = sent_on fd w @ concat (map op_text xs))))
    \<and> (\<forall>e. r = Inl e \<longrightarrow> e = Hang)"
proof (intro conjI impI allI)
  note ok = sock.new_stream_ok [OF assms(1), of fd w]
  {
    assume r: "r = Inr ()"
    have run: "os_run (socket_write fd) xs (False, b, w) = (Inr (), bad, b', w')"
      using assms(2) r by simp
    have fl: "sent_on fd w' = sent_on fd w @ concat (map op_text xs)" if "xs \<noteq> []" "last xs = Flush" "\<not> bad"
    proof -
      have xs: "xs = butlast xs @ [Flush]" using that(1,2) append_butlast_last_id by metis
      have "sent_on fd (snd (snd (bad, b', w'))) = sent_on fd w @ concat (map op_text (butlast xs))"
        by (rule sock.os_run_flushed [OF ok]) (use run that(3) xs in simp_all)
      then show ?thesis by (subst xs) simp
    qed
    show "if bad then (\<exists>rest. sent_on fd w @ concat (map op_text xs) = sent_on fd w' @ rest)
       else sent_on fd w' @ ob_data b' = sent_on fd w @ concat (map op_text xs)
         \<and> (xs \<noteq> [] \<and> last xs = Flush \<longrightarrow> sent_on fd w' = sent_on fd w @ concat (map op_text xs))"
      using sock.os_run_ok [OF ok run] fl by (auto simp: sock.stream_ok_def sock.account_def sock.failed_def)
  next
    fix e
    assume "r = Inl e"
    then show "e = Hang"
      using sock.os_run_safe [OF ok, of xs e] assms(2) socket_write_Inl by blast
  }
qed

definition sample_os :: "answer list \<Rightarrow> os" where
  "sample_os as = \<lparr>answers = as, trace = [], errno = 0, strerr = (\<lambda>_. None), gai_strerror = (\<lambda>_. []),
     datetime = (\<lambda>_. Inr []), llround_unspec = (\<lambda>_. 0), logs = sample_env\<rparr>"

lemma tcp_output_stream_witness:
  "\<exists>b w'. os_run (socket_write 5) [Write ''hi'', Flush] (False, fresh_buf [], sample_os [Fail E_INTR, Ret 2])
     = (Inr (), False, b, w') \<and> sent_on 5 w' = ''hi''"
proof -
  have n: "new_ostreambuf True 1024 = Inr (fresh_buf [])"
    by (simp add: new_ostreambuf_def fresh_buf_def)
  let ?w = "sample_os [Fail E_INTR, Ret 2]"
  have "xsputn (socket_write 5) ''hi'' (fresh_buf [], ?w) = (Inr (length ''hi''), (fresh_buf [])\<lparr>ob_data := ob_data (fresh_buf []) @ ''hi''\<rparr>, ?w)"
    by (rule xsputn_fits) simp
  then have x: "xsputn (socket_write 5) ''hi'' (fresh_buf [], ?w) = (Inr 2, fresh_buf ''hi'', ?w)"
    by simp
  obtain w' where "socket_write 5 ''hi'' ?w = (Inr 2, w')"
    by (simp add: socket_write_def socketsend_def sbind_def eintr_interrupted eintr_answer sample_os_def)
  then have "ob_flush (socket_write 5) (fresh_buf ''hi'', ?w) = (Inr True, fresh_buf [], w')"
    by (subst ob_flush_ok) auto
  then have r: "os_run (socket_write 5) [Write ''hi'', Flush] (False, fresh_buf [], ?w) = (Inr (), False, fresh_buf [], w')"
    using x by (simp add: sbind_def os_write_def os_flush_def ob_sync_def del: xsputn.simps)
  have "sent_on 5 (sample_os [Fail E_INTR, Ret 2]) = []"
    by (simp add: sent_on_def sample_os_def)
  then have "sent_on 5 w' = ''hi''"
    using tcp_output_stream [OF n r] by simp
  then show ?thesis using r by blast
qed

text \<open>C17: A TCP input stream. What a program reads are the characters received on the socket, in order
  and without gaps; fewer than it asked for only if none of the received ones is left. Of the last
  characters read as many as the putback area has room for can be put back, and they are the right
  ones, as long as no read has hit the end of the input.\<close>

theorem tcp_input_stream:
  assumes "new_istreambuf n pb = Inr b" "received_on fd w = []"
    and "get_chars (socket_read fd) k (b, w) = (Inr cs, b', w')"
  shows "(\<exists>rest. received_on fd w' = cs @ rest) \<and> (length cs < k \<longrightarrow> received_on fd w' = cs) \<and> length cs \<le> k
    \<and> (length cs = k \<longrightarrow> j \<le> min k (nat pb) \<longrightarrow> fst (unget_chars j (b', w')) = Inr (rev (drop (k - j) cs)))"
  by (rule sock.read_then_unget [OF assms])

lemma tcp_input_stream_witness:
  "\<exists>b s'. new_istreambuf 2 1 = Inr b
     \<and> get_chars (socket_read 5) 3 (b, sample_os [Data ''ab'', Fail E_INTR, Data ''c'']) = (Inr ''abc'', s')
     \<and> fst (unget_chars 1 s') = Inr ''c''"
proof -
  obtain b where b: "new_istreambuf 2 1 = Inr b" "b = \<lparr>ib_size_pb = 1, ib_mem = replicate 3 CHR 0x00, ib_eback = 1, ib_gptr = 1, ib_egptr = 1\<rparr>"
    by (simp add: new_istreambuf_def)
  let ?w = "sample_os [Data ''ab'', Fail E_INTR, Data ''c'']"
  let ?w1 = "?w\<lparr>answers := [Fail E_INTR, Data ''c''], trace := [(C_recv 5 2, Data ''ab'')]\<rparr>"
  let ?w2 = "?w\<lparr>answers := [], errno := E_INTR,
    trace := [(C_recv 5 2, Data ''ab''), (C_recv 5 2, Fail E_INTR), (C_recv 5 2, Data ''c'')]\<rparr>"
  have r1: "socket_read 5 2 ?w = (Inr (Some ''ab''), ?w1)"
    by (simp add: socket_read_def receive_with_def sbind_def eintr_answer sample_os_def)
  have r2: "socket_read 5 2 ?w1 = (Inr (Some ''c''), ?w2)"
    by (simp add: socket_read_def receive_with_def sbind_def eintr_interrupted eintr_answer sample_os_def)
  let ?b = "\<lambda>m g e. \<lparr>ib_size_pb = 1, ib_mem = m, ib_eback = 0, ib_gptr = g, ib_egptr = e\<rparr>"
  have u1: "sbumpc (socket_read 5) (b, ?w) = (Inr (Some CHR ''a''), b\<lparr>ib_mem := [CHR 0x00, CHR ''a'', CHR ''b''], ib_gptr := 2, ib_egptr := 3\<rparr>, ?w1)"
    using r1 [unfolded numeral_2_eq_2] by (simp add: b(2) sbumpc_def sbind_def underflow_def store_def numeral_3_eq_3 numeral_2_eq_2 Let_def)
  have u2: "sbumpc (socket_read 5) (b\<lparr>ib_mem := [CHR 0x00, CHR ''a'', CHR ''b''], ib_gptr := 2, ib_egptr := 3\<rparr>, ?w1)
    = (Inr (Some CHR ''b''), b\<lparr>ib_mem := [CHR 0x00, CHR ''a'', CHR ''b''], ib_gptr := 3, ib_egptr := 3\<rparr>, ?w1)"
    by (simp add: b(2) sbumpc_def sbind_def underflow_def)
  have u3: "sbumpc (socket_read 5) (b\<lparr>ib_mem := [CHR 0x00, CHR ''a'', CHR ''b''], ib_gptr := 3, ib_egptr := 3\<rparr>, ?w1)
    = (Inr (Some CHR ''c''), ?b ''bcb'' 2 2, ?w2)"
    using r2 [unfolded numeral_2_eq_2] by (simp add: b(2) sbumpc_def sbind_def underflow_def store_def numeral_3_eq_3 numeral_2_eq_2 Let_def)
  have "get_chars (socket_read 5) (Suc (Suc (Suc 0))) (b, ?w) = (Inr ''abc'', ?b ''bcb'' 2 2, ?w2)"
    by (simp only: get_chars.simps) (simp add: sbind_def u1 u2 u3)
  then obtain b' w' where g: "get_chars (socket_read 5) 3 (b, ?w) = (Inr ''abc'', b', w')"
    by (simp add: numeral_3_eq_3)
  have "received_on 5 (sample_os [Data ''ab'', Fail E_INTR, Data ''c'']) = []"
    by (simp add: received_on_def sample_os_def)
  from tcp_input_stream [OF b(1) this g, of 1] g b(1) show ?thesis by auto
qed

text \<open>C37: A connection with a timeout leaves the socket in blocking mode only if it had to wait. If the
  system connects at once, the function returns before it restores the mode, and the socket stays
  non-blocking.\<close>

theorem connect_blocking_mode:
  assumes "my_connect_timeout fd a t s = (Inr u, s')" "\<not> dless t (Fin 0)"
  shows "\<exists>seg. trace s' = trace s @ seg
    \<and> nonblocking fd seg = Some (\<exists>x. (C_connect fd a, x) \<in> set seg \<and> ret_of x \<ge> 0)"
proof -
  from assms obtain s1 r s2 where
    f1: "bool_fcntl_option fd O_NONBLOCK ''Enabling nonblocking mode'' True s = (Inr (), s1)"
    and c: "eintr (C_connect fd a) s1 = (Inr r, s2)"
    and k: "if ret_of r \<ge> 0 then s' = s2 else
      (\<exists>p s3 s4. poll_one fd False t ''connecting'' s2 = (Inr p, s3) \<and> get_sockopt_error fd s3 = (Inr 0, s4)
        \<and> bool_fcntl_option fd O_NONBLOCK ''Enabling nonblocking mode'' False s4 = (Inr u, s'))"
    by (auto simp: my_connect_timeout_def throw_socket_error_def strerror_exception_def throw_timeout_after_def slift_def
        elim!: sbind_InrE split: if_splits)
  from fcntl_trace [OF f1, of None] obtain g1 where g1: "extends s s1 g1"
    "foldl (setfl_by fd) None g1 = Some True" "\<forall>(c, a) \<in> set g1. c = C_getfl fd \<or> (\<exists>w. c = C_setfl fd w)"
    by auto
  from eintr_trace [OF c] obtain g2 where g2: "extends s1 s2 g2" "(C_connect fd a, r) \<in> set g2"
    "\<forall>x \<in> set g2. x = (C_connect fd a, r) \<or> x = (C_connect fd a, Fail E_INTR)" by blast
  have n2: "no_setfl g2" using g2(3) by (fastforce simp: no_setfl_def)
  have im: "(\<exists>x. (C_connect fd a, x) \<in> set (g1 @ g2) \<and> ret_of x \<ge> 0) \<longleftrightarrow> ret_of r \<ge> 0"
    using g1(3) g2(2,3) by fastforce
  show ?thesis
  proof (cases "ret_of r \<ge> 0")
    case True
    then have "s' = s2" using k by simp
    then have "trace s' = trace s @ g1 @ g2" using g1(1) g2(1) by (simp add: extends_def)
    moreover have "nonblocking fd (g1 @ g2) = Some True"
      using foldl_no_setfl [OF n2] g1(2) by (simp add: nonblocking_def)
    ultimately show ?thesis using True im by (intro exI [of _ "g1 @ g2"]) simp
  next
    case False
    then obtain p s3 s4 where p: "poll_one fd False t ''connecting'' s2 = (Inr p, s3)"
      "get_sockopt_error fd s3 = (Inr 0, s4)"
      "bool_fcntl_option fd O_NONBLOCK ''Enabling nonblocking mode'' False s4 = (Inr u, s')"
      using k by auto
    from waited_trace [OF p] obtain g3 ms e g5 where g3: "extends s2 s3 g3" "\<forall>(c, a) \<in> set g3. c = C_poll fd False ms"
      and g4: "extends s3 s4 [(C_getsockopt_error fd, e)]" and g5: "extends s4 s' g5"
      "foldl (setfl_by fd) (Some True) g5 = Some False" "\<forall>(c, a) \<in> set g5. c = C_getfl fd \<or> (\<exists>w. c = C_setfl fd w)"
      by blast
    let ?m = "g2 @ g3 @ [(C_getsockopt_error fd, e)]"
    have "no_setfl ?m" using n2 g3(2) by (fastforce simp: no_setfl_def)
    from foldl_no_setfl [OF this] have "nonblocking fd (g1 @ ?m @ g5) = Some False"
      unfolding nonblocking_def foldl_append [of _ _ g1] foldl_append [of _ _ ?m] g1(2) by (simp add: g5(2))
    moreover have "trace s' = trace s @ g1 @ ?m @ g5"
      using g1(1) g2(1) g3(1) g4 g5(1) by (simp add: extends_def)
    moreover have "\<not> (\<exists>x. (C_connect fd a, x) \<in> set (g1 @ ?m @ g5) \<and> ret_of x \<ge> 0)"
      using False g1(3) g2(3) g3(2) g5(3) by fastforce
    ultimately show ?thesis by (intro exI [of _ "g1 @ ?m @ g5"]) simp
  qed
qed

lemma sample_os_sel [simp]:
  "answers (sample_os as) = as" "trace (sample_os as) = []" "logs (sample_os as) = sample_env"
  by (simp_all add: sample_os_def)

lemma connect_blocking_mode_witness:
  "\<exists>s'. my_connect_timeout 5 (Addr 2 80 [1]) (Fin 1) (sample_os [Ret 2, Ret 0, Ret 0]) = (Inr (), s')
     \<and> nonblocking 5 (trace s') = Some True"
proof -
  let ?a = "Addr 2 80 [1]"
  let ?s' = "(sample_os [])\<lparr>trace := [(C_getfl 5, Ret 2), (C_setfl 5 (2 OR O_NONBLOCK), Ret 0), (C_connect 5 ?a, Ret 0)]\<rparr>"
  have c: "my_connect_timeout 5 ?a (Fin 1) (sample_os [Ret 2, Ret 0, Ret 0]) = (Inr (), ?s')"
    by (simp add: my_connect_timeout_def bool_fcntl_option_def sbind_def sys_def eintr_answer sample_os_def)
  from connect_blocking_mode [OF c] obtain seg where seg: "trace ?s' = trace (sample_os [Ret 2, Ret 0, Ret 0]) @ seg"
    "nonblocking 5 seg = Some (\<exists>x. (C_connect 5 ?a, x) \<in> set seg \<and> ret_of x \<ge> 0)" by auto
  then have sg: "seg = trace ?s'" by simp
  then have "\<exists>x. (C_connect 5 ?a, x) \<in> set seg \<and> ret_of x \<ge> 0"
    by (intro exI [of _ "Ret 0"]) simp
  then have "nonblocking 5 (trace ?s') = Some True" using seg(2) sg by simp
  with c show ?thesis by blast
qed

text \<open>Accepting with a timeout gives a socket in blocking mode, and leaves the listening socket in
  non-blocking mode.\<close>

theorem accept_blocking_mode:
  assumes "my_accept_timeout fd t s = (Inr ret, s')" "\<not> dless t (Fin 0)" "ret \<noteq> fd"
  shows "\<exists>seg. trace s' = trace s @ seg \<and> nonblocking ret seg = Some False \<and> nonblocking fd seg = Some True"
proof -
  from assms obtain s1 p s2 a s3 where
    f1: "bool_fcntl_option fd O_NONBLOCK ''Enabling nonblocking mode'' True s = (Inr (), s1)"
    and p: "poll_one fd True t ''accepting connections'' s1 = (Inr p, s2)"
    and a: "eintr (C_accept fd) s2 = (Inr a, s3)" "ret_of a = ret"
    and f2: "bool_fcntl_option ret O_NONBLOCK ''Disabling nonblocking mode'' False s3 = (Inr (), s')"
    by (auto simp: my_accept_timeout_def my_accept_def throw_socket_error_def strerror_exception_def
        throw_timeout_exception_def elim!: sbind_InrE split: if_splits)
  from fcntl_trace [OF f1, of None] obtain g1 where g1: "extends s s1 g1"
    "foldl (setfl_by fd) None g1 = Some True" "\<forall>f. f \<noteq> fd \<longrightarrow> foldl (setfl_by f) None g1 = None" by auto
  from poll_trace [OF p] obtain g2 ms where g2: "extends s1 s2 g2" "\<forall>(c, a) \<in> set g2. c = C_poll fd True ms" by blast
  from eintr_trace [OF a(1)] obtain g3 where g3: "extends s2 s3 g3"
    "\<forall>x \<in> set g3. x = (C_accept fd, a) \<or> x = (C_accept fd, Fail E_INTR)" by blast
  from fcntl_trace [OF f2] have "\<exists>g. extends s3 s' g \<and> (\<forall>f. foldl (setfl_by f) x g = (if f = ret then Some False else x))" for x
    by blast
  from this [of "Some True"] obtain g4 where g4: "extends s3 s' g4"
    "foldl (setfl_by fd) (Some True) g4 = Some True" "foldl (setfl_by ret) (Some True) g4 = Some False"
    using assms(3) by auto
  have r4: "foldl (setfl_by ret) None g4 = Some False"
  proof -
    from fcntl_trace [OF f2, of None] obtain h where "extends s3 s' h" "foldl (setfl_by ret) None h = Some False" by auto
    moreover then have "h = g4" using g4(1) by (simp add: extends_def)
    ultimately show ?thesis by simp
  qed
  have "no_setfl (g2 @ g3)" using g2(2) g3(2) by (fastforce simp: no_setfl_def)
  note n = foldl_no_setfl [OF this]
  have "nonblocking fd (g1 @ (g2 @ g3) @ g4) = Some True" "nonblocking ret (g1 @ (g2 @ g3) @ g4) = Some False"
    unfolding nonblocking_def foldl_append [of _ _ g1] foldl_append [of _ _ "g2 @ g3"] n
    using g1 g4 r4 assms(3) by simp_all
  moreover have "trace s' = trace s @ g1 @ (g2 @ g3) @ g4"
    using g1(1) g2(1) g3(1) g4(1) by (simp add: extends_def)
  ultimately show ?thesis by blast
qed

text \<open>If the mode of the new descriptor cannot be changed, the exception leaves it open: nothing owns it
  yet.\<close>

lemma accept_leaks_descriptor:
  "\<exists>m s'. my_accept_timeout 3 (Fin 1) (sample_os [Ret 2, Ret 0, Ret 1, Ret 7, Fail 9]) = (Inl (Runtime_error m), s')
     \<and> (C_accept 3, Ret 7) \<in> set (trace s') \<and> (\<forall>a. (C_close 7, a) \<notin> set (trace s'))"
proof -
  have "round_to_integer (\<lambda>_. 0) 32 (dmul (Fin 1) (Fin 1000)) = Inr 1000"
  proof -
    have "\<bar>- 2147483648 :: int\<bar> < 2 ^ 53" "\<bar>2147483647 :: int\<bar> < 2 ^ 53" "\<bar>1000 :: int\<bar> < 2 ^ 53" by simp_all
    moreover have "\<lfloor>2001 / 2 :: rat\<rfloor> = 1000" by (rule floor_unique) simp_all
    ultimately show ?thesis
      using to_double_of_int [of "- 2147483648"] to_double_of_int [of 2147483647] to_double_of_int [of 1000]
      by (simp add: round_to_integer_def int_min_def int_max_def round_away_def Let_def)
  qed
  then show ?thesis
    by (simp add: my_accept_timeout_def bool_fcntl_option_def poll_one_def my_accept_def sbind_def sys_def
        eintr_answer sample_os_def invalid_socket_def throw_socket_error_def strerror_exception_def slift_def)
qed

end
