(* ===== verification/Net.thy ===== *)
theory Net
  imports Sockets
begin

text \<open>
  Addresses, connections, acceptors and datagram sockets: \<^verbatim>\<open>nanonet/detail/net-address.h\<close>,
  \<^verbatim>\<open>nanonet/sys/network.h\<close>, \<^verbatim>\<open>src/network.cpp\<close> and \<^verbatim>\<open>src/sys/net-util.cpp\<close>. An address is what the
  sources read of a \<^verbatim>\<open>sockaddr\<close>: its family, port and host bytes. The resolver is part of the
  system, so its results are answers like those of the other calls.
\<close>

section \<open>Address families\<close>

datatype address_family = Ipv4 | Ipv6 | Ip_unspec | Af_invalid
  \<comment> \<open>\<open>Af_invalid\<close>: any other value of the enumeration type\<close>

definition int_address_family :: "address_family \<Rightarrow> int result" where
  "int_address_family af =
     (case af of Ipv4 \<Rightarrow> Inr AF_INET | Ipv6 \<Rightarrow> Inr AF_INET6 | Ip_unspec \<Rightarrow> Inr AF_UNSPEC
      | Af_invalid \<Rightarrow> Inl (Runtime_error ''unknown address family type''))"

definition from_int_address_family :: "int \<Rightarrow> address_family result" where
  "from_int_address_family afi =
     (if afi = AF_INET then Inr Ipv4
      else if afi = AF_INET6 then Inr Ipv6
      else if afi = AF_UNSPEC then Inr Ip_unspec
      else Inl (Runtime_error ''unknown integer address family''))"

definition address_family_from :: "string \<Rightarrow> bool \<Rightarrow> address_family result" where
  "address_family_from desc allow_unspec =
     (if ''ip4'' = desc \<or> ''ipv4'' = desc then Inr Ipv4
      else if ''ip6'' = desc \<or> ''ipv6'' = desc then Inr Ipv6
      else if ''unspec'' = desc \<or> ''any'' = desc
      then (if allow_unspec then Inr Ip_unspec
            else Inl (Runtime_error ''need to specify address family ipv4 or ipv6''))
      else Inl (Runtime_error (''unkown address family: '' @ desc)))"

definition net_check_port :: "int \<Rightarrow> unit result" where
  "net_check_port n =
     (if n < 0 \<or> n > 65535 then throw_runtime_error ''TCP/UDP port number out of range of 0 to 65535''
      else Inr ())"

definition any_ipv4 :: string where "any_ipv4 = ''0.0.0.0''"
definition any_ipv6 :: string where "any_ipv6 = ''::''"

section \<open>Addresses\<close>

definition addresses_differ :: "addr \<Rightarrow> addr \<Rightarrow> bool" where
  "addresses_differ a1 a2 =
     (if a_family a1 \<noteq> a_family a2 then True
      else if AF_INET = a_family a1 then a_port a1 \<noteq> a_port a2 \<or> a_host a1 \<noteq> a_host a2
      else a_port a1 \<noteq> a_port a2 \<or> \<not> mem_equal (a_host a1) (a_host a2))"

definition addresses_equal :: "addr \<Rightarrow> addr \<Rightarrow> bool" where
  "addresses_equal a1 a2 \<longleftrightarrow> \<not> addresses_differ a1 a2"

fun gai_of :: "answer \<Rightarrow> int" where
  "gai_of (Gai e) = e"
| "gai_of _ = 0"

definition my_getnameinfo :: "int \<Rightarrow> addr \<Rightarrow> bool \<Rightarrow> bool \<Rightarrow> bool \<Rightarrow> (os, string) sx" where
  "my_getnameinfo type a node numeric fqdn =
     sbind (sys (C_getnameinfo a node numeric fqdn (SOCK_DGRAM = type))) (\<lambda>r s.
     if gai_of r \<noteq> 0
     then (Inl (Runtime_error (''can't get name associated with '' @ (if node then ''node'' else ''service'')
             @ '': '' @ gai_strerror s (gai_of r))), s)
     else (Inr (case r of Host h \<Rightarrow> h | _ \<Rightarrow> []), s))"

definition addr_host :: "int \<Rightarrow> addr \<Rightarrow> (os, string) sx" where
  "addr_host type a = sbind (slift (check_family (a_family a))) (\<lambda>_. my_getnameinfo type a True True False)"

definition addr_port :: "int \<Rightarrow> addr \<Rightarrow> (os, string) sx" where
  "addr_port type a = my_getnameinfo type a False True False"

definition host_name :: "int \<Rightarrow> addr \<Rightarrow> (os, string) sx" where
  "host_name type a = sbind (slift (check_family (a_family a))) (\<lambda>_. my_getnameinfo type a True False False)"

definition port_name :: "int \<Rightarrow> addr \<Rightarrow> (os, string) sx" where
  "port_name type a = sbind (slift (check_family (a_family a))) (\<lambda>_. my_getnameinfo type a False False False)"

definition fqdn :: "int \<Rightarrow> addr \<Rightarrow> (os, string) sx" where
  "fqdn type a = sbind (slift (check_family (a_family a))) (\<lambda>_. my_getnameinfo type a True False True)"

definition addr_to_string :: "int \<Rightarrow> addr \<Rightarrow> (os, string) sx" where
  "addr_to_string type a =
     sbind (addr_host type a) (\<lambda>h.
     sbind (addr_port type a) (\<lambda>p.
     sret ((if AF_INET6 = a_family a then ''['' else []) @ h @ (if AF_INET6 = a_family a then '']'' else [])
       @ '':'' @ p)))"

text \<open>The default address is all zero but for its family; \<open>notnull\<close> is for printing.\<close>

definition default_address :: addr where
  "default_address = Addr AF_INET 0 [0, 0, 0, 0]"

definition addr_family :: "addr \<Rightarrow> address_family result" where
  "addr_family a = from_int_address_family (a_family a)"

definition addr_dgram :: "int \<Rightarrow> bool" where
  "addr_dgram type \<longleftrightarrow> SOCK_DGRAM = type"

definition notnull :: "string option \<Rightarrow> string" where
  "notnull s = (case s of Some t \<Rightarrow> t | None \<Rightarrow> ''(null)'')"

section \<open>The resolver\<close>

text \<open>The error message for a null service is an addition of a null pointer to a string.\<close>

definition resolve_error :: "string option \<Rightarrow> string option \<Rightarrow> string \<Rightarrow> exc" where
  "resolve_error n s msg =
     (case s of
        None \<Rightarrow> Undefined ''null pointer added to a string''
      | Some sv \<Rightarrow>
          (case n of
             Some nm \<Rightarrow> Runtime_error (''can't resolve '' @ nm @ '':'' @ sv @ '': '' @ msg)
           | None \<Rightarrow> Runtime_error (''can't resolve '' @ sv @ '': '' @ msg)))"

fun take_addresses :: "int \<Rightarrow> (int \<times> addr) list \<Rightarrow> addr list result" where
  "take_addresses type [] = Inr []"
| "take_addresses type ((st, a) # xs) =
     rbind (assertion (type = st) ''type == p->ai_socktype'' ''include/nanonet/detail/net-address.h'' 316) (\<lambda>_.
     rbind (take_addresses type xs) (\<lambda>as. Inr (a # as)))"

definition my_getaddrinfo :: "int \<Rightarrow> string option \<Rightarrow> string option \<Rightarrow> int \<Rightarrow> (os, addr list) sx" where
  "my_getaddrinfo type n s family_hint =
     sbind (slift (assertion (SOCK_DGRAM = type \<or> SOCK_STREAM = type) ''SOCK_DGRAM == type || SOCK_STREAM == type''
       ''include/nanonet/detail/net-address.h'' 256)) (\<lambda>_.
     sbind (slift (assertion (n \<noteq> None \<or> s \<noteq> None) ''n || s'' ''include/nanonet/detail/net-address.h'' 257)) (\<lambda>_.
     sbind (sys (C_getaddrinfo n s family_hint type)) (\<lambda>r.
     if gai_of r \<noteq> 0 then (\<lambda>st. (Inl (resolve_error n s (gai_strerror st (gai_of r))), st))
     else
       (let res = (case r of Addrs l \<Rightarrow> l | _ \<Rightarrow> [])
        in sbind (slift (take_addresses type res)) (\<lambda>ret.
           sbind (slift (assertion (res \<noteq> []) ''res'' ''include/nanonet/detail/net-address.h'' 327)) (\<lambda>_.
           sbind (slift (assertion (length ret \<ge> 1) ''ret.size() >= 1'' ''include/nanonet/detail/net-address.h'' 330))
             (\<lambda>_. sret ret)))))))"

definition resolve :: "int \<Rightarrow> string \<Rightarrow> string \<Rightarrow> address_family \<Rightarrow> (os, addr list) sx" where
  "resolve type n s hint =
     sbind (slift (int_address_family hint)) (\<lambda>f. my_getaddrinfo type (Some n) (Some s) f)"

definition resolve_service :: "int \<Rightarrow> string \<Rightarrow> address_family \<Rightarrow> (os, addr list) sx" where
  "resolve_service type s hint =
     sbind (slift (int_address_family hint)) (\<lambda>f. my_getaddrinfo type None (Some s) f)"

definition resolve_stream :: "string option \<Rightarrow> string \<Rightarrow> address_family \<Rightarrow> (os, addr list) sx" where
  "resolve_stream n s hint =
     (case n of None \<Rightarrow> resolve_service SOCK_STREAM s hint | Some nm \<Rightarrow> resolve SOCK_STREAM nm s hint)"

definition resolve_datagram :: "string option \<Rightarrow> string \<Rightarrow> address_family \<Rightarrow> (os, addr list) sx" where
  "resolve_datagram n s hint =
     (case n of None \<Rightarrow> resolve_service SOCK_DGRAM s hint | Some nm \<Rightarrow> resolve SOCK_DGRAM nm s hint)"

fun name_of :: "answer \<Rightarrow> addr" where
  "name_of (Name a) = a"
| "name_of _ = Addr AF_INET 0 []"

definition my_getsockname :: "int \<Rightarrow> (os, addr) sx" where
  "my_getsockname fd =
     sbind (sys (C_getsockname fd)) (\<lambda>a.
     if ret_of a < 0 then throw_socket_error ''getsockname'' else sret (name_of a))"

definition my_getpeername :: "int \<Rightarrow> (os, addr) sx" where
  "my_getpeername fd =
     sbind (sys (C_getpeername fd)) (\<lambda>a.
     if ret_of a < 0 then throw_socket_error ''getpeername'' else sret (name_of a))"

section \<open>Binding and connecting\<close>

text \<open>One turn of the loop of \<open>bound_socket\<close>, and the loop with the last error.\<close>

definition bind_one :: "int \<Rightarrow> addr \<Rightarrow> (os, int) sx" where
  "bind_one type adr =
     sbind (socket_new type (a_family adr)) (\<lambda>s.
     on_exception (sbind (my_bind s adr) (\<lambda>_. sret s)) (socket_destroy s))"

fun bound_socket_loop :: "int \<Rightarrow> addr list \<Rightarrow> string \<Rightarrow> (os, int) sx" where
  "bound_socket_loop type [] err = sthrow (Runtime_error err)"
| "bound_socket_loop type (adr # la) err =
     scatch (bind_one type adr) (\<lambda>e. bound_socket_loop type la (what e))"

definition bound_socket :: "int \<Rightarrow> addr list \<Rightarrow> (os, int) sx" where
  "bound_socket type la =
     (if 0 = length la then sthrow (Runtime_error ''must give at least one local address'')
      else bound_socket_loop type la [])"

record acceptor =
  acc_fd :: int
  acc_local :: addr

definition new_acceptor :: "addr list \<Rightarrow> int \<Rightarrow> (os, acceptor) sx" where
  "new_acceptor la bl =
     sbind (bound_socket SOCK_STREAM la) (\<lambda>s.
     on_exception
       (sbind (my_getsockname s) (\<lambda>l. sbind (my_listen s bl) (\<lambda>_. sret \<lparr>acc_fd = s, acc_local = l\<rparr>)))
       (socket_destroy s))"

definition new_acceptor_service :: "string \<Rightarrow> int \<Rightarrow> (os, acceptor) sx" where
  "new_acceptor_service ls bl = sbind (resolve_service SOCK_STREAM ls Ip_unspec) (\<lambda>la. new_acceptor la bl)"

definition new_acceptor_name :: "string \<Rightarrow> string \<Rightarrow> int \<Rightarrow> (os, acceptor) sx" where
  "new_acceptor_name nm ls bl = sbind (resolve SOCK_STREAM nm ls Ip_unspec) (\<lambda>la. new_acceptor la bl)"

text \<open>One attempt to connect, from an unbound socket or from a local address.\<close>

definition connect_one :: "addr option \<Rightarrow> addr \<Rightarrow> double \<Rightarrow> (os, int) sx" where
  "connect_one local remote timeout =
     sbind (socket_new SOCK_STREAM (a_family (case local of None \<Rightarrow> remote | Some l \<Rightarrow> l))) (\<lambda>s.
     on_exception
       (sbind (case local of None \<Rightarrow> sskip | Some l \<Rightarrow> my_bind s l) (\<lambda>_.
        sbind (my_connect_timeout s remote timeout) (\<lambda>_. sret s)))
       (socket_destroy s))"

definition add_error :: "string \<Rightarrow> string \<Rightarrow> string" where
  "add_error err m = (if err \<noteq> [] then err @ ''; '' else []) @ m"

definition connect_error :: "addr option \<Rightarrow> addr \<Rightarrow> exc \<Rightarrow> (os, string) sx" where
  "connect_error local remote e =
     sbind (case local of None \<Rightarrow> sret ''(unbound local socket)'' | Some l \<Rightarrow> addr_to_string SOCK_STREAM l) (\<lambda>l.
     sbind (addr_to_string SOCK_STREAM remote) (\<lambda>r.
     sret (''from '' @ l @ '' to '' @ r @ '': '' @ what e)))"

text \<open>The loops of \<open>connection::initialize\<close>: the socket, if an attempt has succeeded, and the errors.\<close>

fun connect_loop :: "(addr option \<times> addr) list \<Rightarrow> double \<Rightarrow> string \<Rightarrow> (os, int option \<times> string) sx" where
  "connect_loop [] timeout err = sret (None, err)"
| "connect_loop ((local, remote) # rest) timeout err =
     (if (case local of None \<Rightarrow> False | Some l \<Rightarrow> a_family l \<noteq> a_family remote)
      then connect_loop rest timeout err
      else scatch (sbind (connect_one local remote timeout) (\<lambda>s. sret (Some s, err)))
             (\<lambda>e. sbind (connect_error local remote e) (\<lambda>m. connect_loop rest timeout (add_error err m))))"

definition connection_initialize :: "addr list \<Rightarrow> addr list \<Rightarrow> double \<Rightarrow> (os, int) sx" where
  "connection_initialize ra la timeout =
     sbind (connect_loop
         (if 0 = length la then map (Pair None) ra
          else concat (map (\<lambda>local. map (\<lambda>remote. (Some local, remote)) ra) la)) timeout []) (\<lambda>(r, err).
     case r of
       Some s \<Rightarrow> sret s
     | None \<Rightarrow>
         sthrow (Runtime_error (''Failed to connect: ''
           @ (if err = [] then ''Local/remote address families didn't match'' else err))))"

record connection =
  con_fd :: int
  con_local :: addr
  con_peer :: addr

definition connection_of :: "int \<Rightarrow> (os, connection) sx" where
  "connection_of s =
     on_exception
       (sbind (my_getsockname s) (\<lambda>l. sbind (my_getpeername s) (\<lambda>p.
        sret \<lparr>con_fd = s, con_local = l, con_peer = p\<rparr>)))
       (socket_destroy s)"

definition new_connection :: "addr list \<Rightarrow> addr list \<Rightarrow> double \<Rightarrow> (os, connection) sx" where
  "new_connection ra la timeout = sbind (connection_initialize ra la timeout) connection_of"

definition new_connection_name :: "string \<Rightarrow> string \<Rightarrow> double \<Rightarrow> (os, connection) sx" where
  "new_connection_name n serv timeout =
     sbind (resolve SOCK_STREAM n serv Ip_unspec) (\<lambda>ra. new_connection ra [] timeout)"

definition accept_connection :: "acceptor \<Rightarrow> double \<Rightarrow> (os, connection) sx" where
  "accept_connection a timeout =
     sbind (my_accept_timeout (acc_fd a) timeout) (\<lambda>fd. sbind (socket_adopt fd) connection_of)"

definition no_delay :: "connection \<Rightarrow> bool \<Rightarrow> (os, unit) sx" where
  "no_delay c b = bool_sockopt (con_fd c) TCP_NODELAY b"

definition send_timeout :: "connection \<Rightarrow> double \<Rightarrow> (os, unit) sx" where
  "send_timeout c t = time_sockopt (con_fd c) SO_SNDTIMEO t"

definition receive_timeout :: "connection \<Rightarrow> double \<Rightarrow> (os, unit) sx" where
  "receive_timeout c t = time_sockopt (con_fd c) SO_RCVTIMEO t"

definition set_timeout :: "connection \<Rightarrow> double \<Rightarrow> (os, unit) sx" where
  "set_timeout c t = sbind (send_timeout c t) (\<lambda>_. receive_timeout c t)"

section \<open>Descriptors\<close>

text \<open>How many more times a descriptor has been opened than closed.\<close>

fun opens :: "int \<Rightarrow> call \<times> answer \<Rightarrow> int" where
  "opens f (C_socket _ _, a) = (if socket_valid (ret_of a) \<and> ret_of a = f then 1 else 0)"
| "opens f (C_accept _, a) = (if socket_valid (ret_of a) \<and> ret_of a = f then 1 else 0)"
| "opens f (C_close g, a) = (if f = g then - 1 else 0)"
| "opens f _ = 0"

definition balance :: "int \<Rightarrow> os \<Rightarrow> int" where
  "balance f s = sum_list (map (opens f) (trace s))"

text \<open>Operations that leave it alone, on every path; and operations that on every path but the
  normal one leave it alone and on that one open the descriptor they return.\<close>

named_theorems quiet_intros \<open>operations that open and close nothing\<close>

definition quiet :: "(os, 'a) sx \<Rightarrow> bool" where
  "quiet m \<longleftrightarrow> (\<forall>f s. balance f (snd (m s)) = balance f s)"

lemma quietD: "quiet m \<Longrightarrow> m s = (r, s') \<Longrightarrow> balance f s' = balance f s"
  unfolding quiet_def by (metis snd_conv)

lemma quiet_bind [quiet_intros]: "quiet m \<Longrightarrow> (\<And>x. quiet (k x)) \<Longrightarrow> quiet (sbind m k)"
  unfolding quiet_def sbind_def by (auto split: prod.splits sum.splits) (metis snd_conv)+

lemma quiet_basic [quiet_intros]:
  "quiet (sret x)" "quiet (sthrow e)" "quiet (slift r)" "quiet sskip" "quiet (sgets g)"
  "quiet (strerror_exception m n)" "quiet (throw_socket_error m)"
  by (simp_all add: quiet_def slift_def sskip_def strerror_exception_def throw_socket_error_def)

lemma quiet_if [quiet_intros]: "quiet m \<Longrightarrow> quiet k \<Longrightarrow> quiet (if b then m else k)"
  by simp

lemma quiet_state: "(\<And>s0. quiet (m s0)) \<Longrightarrow> quiet (\<lambda>s. m s s)"
  by (simp add: quiet_def)

definition quiet_call :: "call \<Rightarrow> bool" where
  "quiet_call c \<longleftrightarrow> (\<forall>f a. opens f (c, a) = 0)"

lemma quiet_calls [quiet_intros]:
  "quiet_call (C_bind fd a)" "quiet_call (C_listen fd b)" "quiet_call (C_connect fd a)" "quiet_call (C_poll fd i t)"
  "quiet_call (C_getfl fd)" "quiet_call (C_setfl fd w)" "quiet_call (C_getsockopt_error fd)"
  "quiet_call (C_setsockopt fd p v)" "quiet_call (C_getsockname fd)" "quiet_call (C_getpeername fd)"
  "quiet_call (C_getnameinfo a n u q d)" "quiet_call (C_getaddrinfo nm sv h t)" "quiet_call (C_send fd d0)"
  "quiet_call (C_sendto fd a d0)" "quiet_call (C_recvfrom fd k)" "quiet_call (C_select fd tv)"
  by (simp_all add: quiet_call_def)

lemma quiet_sys [quiet_intros]: "quiet_call c \<Longrightarrow> quiet (sys c)"
  by (auto simp: quiet_def quiet_call_def sys_def balance_def split: list.splits)

lemma balance_eintr:
  assumes "eintr c s = (Inr a, s')" "opens f (c, Fail E_INTR) = 0"
  shows "balance f s' = balance f s + opens f (c, a)"
proof -
  from eintr_Inr [OF assms(1)] obtain n where "trace s' = trace s @ replicate n (c, Fail E_INTR) @ [(c, a)]" by blast
  then show ?thesis using assms(2) by (simp add: balance_def sum_list_replicate)
qed

lemma eintr_Inl_trace: "eintr c s = (Inl e, s') \<Longrightarrow> \<exists>n. trace s' = trace s @ replicate n (c, Fail E_INTR)"
proof (induction "length (answers s)" arbitrary: s)
  case 0
  then show ?case by (subst (asm) eintr.simps) (auto simp: sys_def intro: exI [of _ 0])
next
  case (Suc n)
  then obtain a as where a: "answers s = a # as" by (cases "answers s") auto
  show ?case
  proof (cases "a = Fail E_INTR")
    case True
    let ?s = "s\<lparr>answers := as, trace := trace s @ [(c, Fail E_INTR)], errno := E_INTR\<rparr>"
    have "eintr c ?s = (Inl e, s')" using Suc.prems a True by (simp add: eintr_interrupted)
    then obtain k where "trace s' = trace ?s @ replicate k (c, Fail E_INTR)"
      using Suc.hyps(1) [of ?s] Suc.hyps(2) a by auto
    then have "trace s' = trace s @ replicate (Suc k) (c, Fail E_INTR)" by simp
    then show ?thesis by blast
  next
    case False
    then show ?thesis using Suc.prems a by (simp add: eintr_answer)
  qed
qed

lemma quiet_eintr [quiet_intros]: "quiet_call c \<Longrightarrow> quiet (eintr c)"
  unfolding quiet_def
proof (intro allI)
  fix f s
  assume q: "quiet_call c"
  obtain r s' where e: "eintr c s = (r, s')" by (cases "eintr c s")
  show "balance f (snd (eintr c s)) = balance f s"
  proof (cases r)
    case (Inl x)
    then show ?thesis
      using e eintr_Inl_trace [of c s x s'] q by (auto simp: balance_def sum_list_replicate quiet_call_def)
  next
    case (Inr a)
    then show ?thesis using e balance_eintr [of c s a s' f] q by (simp add: quiet_call_def)
  qed
qed

lemma quiet_option [quiet_intros]: "quiet m \<Longrightarrow> (\<And>x. quiet (k x)) \<Longrightarrow> quiet (case opt of None \<Rightarrow> m | Some x \<Rightarrow> k x)"
  by (cases opt) auto

lemma quiet_getnameinfo [quiet_intros]: "quiet (my_getnameinfo type a n u q)"
  unfolding my_getnameinfo_def
  by (intro quiet_intros) (simp add: quiet_def)

lemma quiet_poll [quiet_intros]: "quiet (poll_one fd i t m)"
  unfolding poll_one_def by (rule quiet_state, intro quiet_intros)

lemma quiet_net [quiet_intros]:
  "quiet (bool_fcntl_option fd opt m b)" "quiet (get_sockopt_error fd)"
  "quiet (my_bind fd a)" "quiet (my_listen fd bl)" "quiet (my_connect fd a)" "quiet (my_getsockname fd)"
  "quiet (my_getpeername fd)" "quiet (bool_sockopt fd opt0 b)" "quiet (time_sockopt fd opt0 t)"
  unfolding bool_fcntl_option_def get_sockopt_error_def my_bind_def my_listen_def my_connect_def
    my_getsockname_def my_getpeername_def bool_sockopt_def time_sockopt_def enable_sockopt_def Let_def
  by (intro quiet_intros)+

lemma quiet_connect_timeout [quiet_intros]: "quiet (my_connect_timeout fd a t)"
  unfolding my_connect_timeout_def by (intro quiet_intros)

lemma quiet_to_string [quiet_intros]: "quiet (addr_to_string type a)"
  unfolding addr_to_string_def addr_host_def addr_port_def by (intro quiet_intros)

lemma quiet_connect_error [quiet_intros]: "quiet (connect_error l r e)"
  unfolding connect_error_def by (intro quiet_intros)


definition owns :: "('a \<Rightarrow> int option) \<Rightarrow> (os, 'a) sx \<Rightarrow> bool" where
  "owns g m \<longleftrightarrow> (\<forall>s r s'. m s = (r, s') \<longrightarrow>
     (case r of
        Inr x \<Rightarrow> (\<forall>f. balance f s' = balance f s + (if g x = Some f then 1 else 0))
      | Inl e \<Rightarrow> is_std_exception e \<longrightarrow> (\<forall>f. balance f s' = balance f s)))"

lemma ownsI:
  "(\<And>s x s' f. m s = (Inr x, s') \<Longrightarrow> balance f s' = balance f s + (if g x = Some f then 1 else 0)) \<Longrightarrow>
   (\<And>s e s' f. m s = (Inl e, s') \<Longrightarrow> is_std_exception e \<Longrightarrow> balance f s' = balance f s) \<Longrightarrow> owns g m"
  by (auto simp: owns_def split: sum.splits)

lemma ownsD:
  "owns g m \<Longrightarrow> m s = (Inr x, s') \<Longrightarrow> balance f s' = balance f s + (if g x = Some f then 1 else 0)"
  "owns g' m' \<Longrightarrow> m' s = (Inl e, s') \<Longrightarrow> is_std_exception e \<Longrightarrow> balance f s' = balance f s"
  by (fastforce simp: owns_def)+

lemma owns_quiet: "quiet m \<Longrightarrow> owns (\<lambda>_. None) m"
  by (auto intro!: ownsI dest: quietD)

lemma owns_catch: "owns g m \<Longrightarrow> (\<And>e. owns g (h e)) \<Longrightarrow> owns g (scatch m h)"
proof (rule ownsI)
  fix s x s' f
  assume a: "owns g m" "\<And>e. owns g (h e)" "scatch m h s = (Inr x, s')"
  obtain r s1 where m: "m s = (r, s1)" by (cases "m s")
  show "balance f s' = balance f s + (if g x = Some f then 1 else 0)"
  proof (cases r)
    case (Inl e)
    then have "is_std_exception e" "h e s1 = (Inr x, s')"
      using a(3) m by (auto simp: scatch_def split: if_splits)
    then show ?thesis using ownsD(1) [OF a(2)] ownsD(2) [OF a(1)] m Inl by simp
  next
    case (Inr y)
    then show ?thesis using ownsD(1) [OF a(1)] a(3) m by (simp add: scatch_def)
  qed
next
  fix s e s' f
  assume a: "owns g m" "\<And>e. owns g (h e)" "scatch m h s = (Inl e, s')" "is_std_exception e"
  obtain r s1 where m: "m s = (r, s1)" by (cases "m s")
  show "balance f s' = balance f s"
  proof (cases r)
    case (Inl e1)
    then have "is_std_exception e1" "h e1 s1 = (Inl e, s')"
      using a(3,4) m by (auto simp: scatch_def split: if_splits)
    then show ?thesis using ownsD(2) [OF a(2) _ a(4)] ownsD(2) [OF a(1)] m Inl by simp
  next
    case (Inr y)
    then show ?thesis using a(3) m by (simp add: scatch_def)
  qed
qed

lemma owns_bind:
  assumes "quiet m" "\<And>x. owns g (k x)"
  shows "owns g (sbind m k)"
proof (rule ownsI)
  fix s x s' f
  assume "sbind m k s = (Inr x, s')"
  then obtain y s1 where "m s = (Inr y, s1)" "k y s1 = (Inr x, s')" by (rule sbind_InrE)
  then show "balance f s' = balance f s + (if g x = Some f then 1 else 0)"
    using quietD [OF assms(1), of s "Inr y" s1 f] ownsD(1) [OF assms(2), of y s1 x s' f] by simp
next
  fix s e s' f
  assume e: "sbind m k s = (Inl e, s')" "is_std_exception e"
  from e(1) show "balance f s' = balance f s"
  proof (rule sbind_InlE)
    assume "m s = (Inl e, s')"
    then show ?thesis using quietD [OF assms(1)] by simp
  next
    fix y s1
    assume "m s = (Inr y, s1)" "k y s1 = (Inl e, s')"
    then show ?thesis
      using quietD [OF assms(1), of s "Inr y" s1 f] ownsD(2) [OF assms(2), of y s1 e s' f] e(2) by simp
  qed
qed

lemma owns_map:
  assumes "owns g m" "\<And>x. g' (h x) = g x"
  shows "owns g' (sbind m (\<lambda>x. sret (h x)))"
proof (rule ownsI)
  fix s y s' f
  assume "sbind m (\<lambda>x. sret (h x)) s = (Inr y, s')"
  then obtain x where "m s = (Inr x, s')" "y = h x" by (rule sbind_InrE) simp
  then show "balance f s' = balance f s + (if g' y = Some f then 1 else 0)"
    using ownsD(1) [OF assms(1)] assms(2) by simp
next
  fix s e s' f
  assume "sbind m (\<lambda>x. sret (h x)) s = (Inl e, s')" "is_std_exception e"
  moreover have "m s = (Inl e, s')" using calculation(1) by (rule sbind_InlE) simp_all
  ultimately show "balance f s' = balance f s" using ownsD(2) [OF assms(1)] by simp
qed

lemma destroy_balance:
  assumes "socket_valid fd" "socket_destroy fd s = (r, s')" "\<And>e. r = Inl e \<Longrightarrow> is_std_exception e"
  shows "balance f s' = balance f s - (if f = fd then 1 else 0)"
proof -
  obtain r1 s1 where c: "sys (C_close fd) s = (r1, s1)" by (cases "sys (C_close fd) s")
  have "r1 \<noteq> Inl Hang"
    using assms c by (auto simp: socket_destroy_def socket_dispose_def sbind_def)
  then have b: "balance f s1 = balance f s - (if f = fd then 1 else 0)"
    using c by (auto simp: sys_def balance_def split: list.splits)
  have "quiet (if ret_of a < 0
     then (\<lambda>s. on_log (log_oneoff (datetime s) ''SOCKET-DESTRUCTOR'' EMERG
             (''WTF: Close failed for socket descriptor '' @ int_to_string fd @ ''; error: ''
              @ get_strerror_message (errno s) s)) s)
     else sskip)" for a
    by (auto simp: quiet_def on_log_def balance_def split: prod.splits)
  from quietD [OF this] b c assms(1,2) show ?thesis
    by (auto simp: socket_destroy_def socket_dispose_def sbind_def split: sum.splits)
qed

text \<open>A socket that is destroyed when what follows throws.\<close>

lemma owns_guard:
  assumes "owns Some acquire" "\<And>st s st'. acquire st = (Inr s, st') \<Longrightarrow> socket_valid s"
    and "\<And>s. quiet (k s)" "\<And>s st x st'. k s st = (Inr x, st') \<Longrightarrow> h x = s"
  shows "owns (\<lambda>x. Some (h x)) (sbind acquire (\<lambda>s. on_exception (k s) (socket_destroy s)))"
proof (rule ownsI)
  fix st x st' f
  assume "sbind acquire (\<lambda>s. on_exception (k s) (socket_destroy s)) st = (Inr x, st')"
  then obtain s st1 where a: "acquire st = (Inr s, st1)" "on_exception (k s) (socket_destroy s) st1 = (Inr x, st')"
    by (rule sbind_InrE)
  then have "k s st1 = (Inr x, st')"
    by (auto simp: on_exception_def sbind_def split: prod.splits sum.splits if_splits)
  then show "balance f st' = balance f st + (if Some (h x) = Some f then 1 else 0)"
    using ownsD(1) [OF assms(1) a(1)] quietD [OF assms(3)] assms(4) by simp
next
  fix st e st' f
  assume e: "sbind acquire (\<lambda>s. on_exception (k s) (socket_destroy s)) st = (Inl e, st')" "is_std_exception e"
  from e(1) show "balance f st' = balance f st"
  proof (rule sbind_InlE)
    assume "acquire st = (Inl e, st')"
    then show ?thesis using ownsD(2) [OF assms(1) _ e(2)] by simp
  next
    fix s st1
    assume a: "acquire st = (Inr s, st1)" "on_exception (k s) (socket_destroy s) st1 = (Inl e, st')"
    obtain r1 st2 where "k s st1 = (r1, st2)" by (cases "k s st1")
    moreover from this obtain e1 where "r1 = Inl e1"
      using a(2) by (cases r1) (simp_all add: on_exception_def)
    ultimately have k: "k s st1 = (Inl e1, st2)"
      "(if is_std_exception e1 then sbind (socket_destroy s) (\<lambda>_. sthrow e1) st2 else (Inl e1, st2))
        = on_exception (k s) (socket_destroy s) st1"
      by (simp_all add: on_exception_def split del: if_split)
    have "\<exists>r. socket_destroy s st2 = (r, st') \<and> (\<forall>e'. r = Inl e' \<longrightarrow> is_std_exception e')"
      using k(2) e(2) unfolding a(2) by (auto simp: sbind_def split: if_splits prod.splits sum.splits)
    then obtain r where "socket_destroy s st2 = (r, st')" "\<And>e'. r = Inl e' \<Longrightarrow> is_std_exception e'" by blast
    from destroy_balance [OF assms(2) [OF a(1)] this]
    have "balance f st' = balance f st2 - (if f = s then 1 else 0)" by simp
    then show ?thesis
      using ownsD(1) [OF assms(1) a(1), of f] quietD [OF assms(3) k(1), of f] by simp
  qed
qed

lemma socket_new_valid: "socket_new type fam st = (Inr s, st') \<Longrightarrow> socket_valid s"
  by (auto simp: socket_new_def socket_adopt_def socket_setup_def throw_socket_error_def strerror_exception_def
      elim!: sbind_InrE split: if_splits)

lemma owns_socket_new: "owns Some (socket_new type fam)"
  unfolding socket_new_def
proof (rule owns_bind, rule quiet_basic, rule owns_bind, rule quiet_basic)
  fix x t
  show "owns Some (sbind (sys (C_socket x t)) (\<lambda>a. socket_adopt (ret_of a)))"
    by (rule ownsI) (auto simp: sbind_def sys_def socket_adopt_def socket_setup_def balance_def throw_socket_error_def
        strerror_exception_def split: list.splits if_splits)
qed

lemma owns_bind_one: "owns Some (bind_one type adr)"
proof -
  have "owns (\<lambda>x. Some (id x)) (bind_one type adr)"
    unfolding bind_one_def
  proof (rule owns_guard [OF owns_socket_new socket_new_valid])
    fix s st x st'
    assume "sbind (my_bind s adr) (\<lambda>_. sret s) st = (Inr x, st')"
    then show "id x = s" by (rule sbind_InrE) simp
  qed (assumption | rule quiet_intros)+
  then show ?thesis by (simp add: owns_def)
qed

lemma owns_connect_one: "owns Some (connect_one local remote t)"
proof -
  have "owns (\<lambda>x. Some (id x)) (connect_one local remote t)"
    unfolding connect_one_def
  proof (rule owns_guard [OF owns_socket_new socket_new_valid])
    fix s st x st'
    assume "sbind (case local of None \<Rightarrow> sskip | Some l \<Rightarrow> my_bind s l)
      (\<lambda>_. sbind (my_connect_timeout s remote t) (\<lambda>_. sret s)) st = (Inr x, st')"
    then show "id x = s" by (elim sbind_InrE) simp
  qed (assumption | rule quiet_intros)+
  then show ?thesis by (simp add: owns_def)
qed

lemma owns_bound_socket: "owns Some (bound_socket type la)"
proof -
  have "owns g (sthrow e)" for g :: "int \<Rightarrow> int option" and e
    by (rule ownsI) auto
  then have "owns Some (bound_socket_loop type la err)" for err
    by (induction la arbitrary: err) (auto intro: owns_catch owns_bind_one)
  then show ?thesis
    unfolding bound_socket_def by (auto intro!: ownsI dest: ownsD)
qed

lemma bound_socket_valid: "bound_socket type la st = (Inr s, st') \<Longrightarrow> socket_valid s"
proof -
  have b: "bind_one type adr st = (Inr s, st') \<Longrightarrow> socket_valid s" for adr st st'
    by (auto simp: bind_one_def on_exception_def sbind_def dest!: socket_new_valid
        split: prod.splits sum.splits if_splits)
  have "bound_socket_loop type la err st = (Inr s, st') \<Longrightarrow> socket_valid s" for err
  proof (induction la arbitrary: err st)
    case (Cons adr la)
    then show ?case by (auto simp: scatch_def dest: b split: prod.splits sum.splits if_splits)
  qed simp
  then show "bound_socket type la st = (Inr s, st') \<Longrightarrow> socket_valid s"
    by (auto simp: bound_socket_def split: if_splits)
qed

lemma connect_one_valid: "connect_one local remote t st = (Inr s, st') \<Longrightarrow> socket_valid s"
  by (auto simp: connect_one_def on_exception_def sbind_def dest!: socket_new_valid
      split: prod.splits sum.splits if_splits)

lemma owns_connect_loop: "owns fst (connect_loop ps t err)"
proof (induction ps t err rule: connect_loop.induct)
  case (1 t err)
  then show ?case by (auto intro: ownsI)
next
  case (2 local remote rest t err)
  have "owns fst (sbind (connect_one local remote t) (\<lambda>s. sret (Some s, err)))"
    by (rule owns_map [OF owns_connect_one]) simp
  then show ?case
    using 2 by (auto intro!: owns_catch owns_bind quiet_intros)
qed

lemma connect_loop_valid: "connect_loop ps t err st = (Inr (Some s, er), st') \<Longrightarrow> socket_valid s"
proof (induction ps t err arbitrary: st rule: connect_loop.induct)
  case (2 local remote rest t err)
  show ?case
  proof (cases "case local of None \<Rightarrow> False | Some l \<Rightarrow> a_family l \<noteq> a_family remote")
    case True
    then show ?thesis using 2 by simp
  next
    case False
    let ?m = "sbind (connect_one local remote t) (\<lambda>s. sret (Some s, err))"
    obtain r st1 where m: "?m st = (r, st1)" by (cases "?m st")
    show ?thesis
    proof (cases r)
      case (Inl e)
      then have "sbind (connect_error local remote e) (\<lambda>m. connect_loop rest t (add_error err m)) st1
        = (Inr (Some s, er), st')"
        using "2.prems" False m by (auto simp: scatch_def split: if_splits)
      then show ?thesis by (rule sbind_InrE) (rule "2.IH"(2) [OF False])
    next
      case (Inr y)
      then have "?m st = (Inr (Some s, er), st')" using "2.prems" False m by (simp add: scatch_def)
      then show ?thesis by (rule sbind_InrE) (auto dest: connect_one_valid)
    qed
  qed
qed simp

lemma owns_connection_initialize: "owns Some (connection_initialize ra la t)"
proof (rule ownsI)
  fix s x s' f
  assume "connection_initialize ra la t s = (Inr x, s')"
  then show "balance f s' = balance f s + (if Some x = Some f then 1 else 0)"
    unfolding connection_initialize_def
    by (elim sbind_InrE) (auto dest: ownsD(1) [OF owns_connect_loop, of _ _ _ _ _ _ f] split: option.splits)
next
  fix s e s' f
  assume e: "connection_initialize ra la t s = (Inl e, s')" "is_std_exception e"
  show "balance f s' = balance f s"
    by (rule sbind_InlE [OF e(1) [unfolded connection_initialize_def]])
      (auto dest: ownsD(1) [OF owns_connect_loop, of _ _ _ _ _ _ f] ownsD(2) [OF owns_connect_loop _ e(2), of _ _ _ _ _ f]
        split: option.splits)
qed

lemma connection_initialize_valid: "connection_initialize ra la t st = (Inr s, st') \<Longrightarrow> socket_valid s"
  unfolding connection_initialize_def
  by (elim sbind_InrE) (auto dest: connect_loop_valid split: option.splits)

lemma owns_new_connection: "owns (\<lambda>c. Some (con_fd c)) (new_connection ra la t)"
  unfolding new_connection_def connection_of_def
proof (rule owns_guard [OF owns_connection_initialize connection_initialize_valid])
  fix s st x st'
  assume "sbind (my_getsockname s) (\<lambda>l. sbind (my_getpeername s) (\<lambda>p.
    sret \<lparr>con_fd = s, con_local = l, con_peer = p\<rparr>)) st = (Inr x, st')"
  then show "con_fd x = s" by (elim sbind_InrE) auto
qed (assumption | rule quiet_intros)+

lemma owns_new_acceptor: "owns (\<lambda>a. Some (acc_fd a)) (new_acceptor la bl)"
  unfolding new_acceptor_def
proof (rule owns_guard [OF owns_bound_socket bound_socket_valid])
  fix s st x st'
  assume "sbind (my_getsockname s) (\<lambda>l. sbind (my_listen s bl) (\<lambda>_. sret \<lparr>acc_fd = s, acc_local = l\<rparr>)) st
    = (Inr x, st')"
  then show "acc_fd x = s" by (elim sbind_InrE) auto
qed (assumption | rule quiet_intros)+

section \<open>Exceptions\<close>

text \<open>\<open>raises P m\<close>: every exception of \<open>m\<close> satisfies \<open>P\<close>.\<close>

named_theorems raises_intros \<open>the exceptions of an operation\<close>

definition raises :: "(exc \<Rightarrow> bool) \<Rightarrow> ('s, 'a) sx \<Rightarrow> bool" where
  "raises P m \<longleftrightarrow> (\<forall>s e s'. m s = (Inl e, s') \<longrightarrow> P e)"

lemma raisesD: "raises P m \<Longrightarrow> m s = (Inl e, s') \<Longrightarrow> P e"
  by (auto simp: raises_def)

lemma raises_bind [raises_intros]: "raises P m \<Longrightarrow> (\<And>x. raises P (k x)) \<Longrightarrow> raises P (sbind m k)"
  unfolding raises_def by (blast elim: sbind_InlE)

lemma raises_basic [raises_intros]:
  "raises P (sret x)" "raises P sskip" "raises P (sgets g)" "P e \<Longrightarrow> raises P (sthrow e)"
  "(\<And>e. r = Inl e \<Longrightarrow> P e) \<Longrightarrow> raises P (slift r)" "P Hang \<Longrightarrow> raises P (sys c)" "P Hang \<Longrightarrow> raises P (eintr c)"
  by (auto simp: raises_def slift_def sys_def dest: eintr_Inl split: list.splits)

lemma raises_if [raises_intros]: "raises P m \<Longrightarrow> raises P k \<Longrightarrow> raises P (if b then m else k)"
  by simp

lemma raises_option [raises_intros]:
  "raises P m \<Longrightarrow> (\<And>x. raises P (k x)) \<Longrightarrow> raises P (case opt of None \<Rightarrow> m | Some x \<Rightarrow> k x)"
  by (cases opt) auto

lemma raises_catch [raises_intros]:
  assumes "\<And>e. is_std_exception e \<Longrightarrow> raises P (h e)" "raises (\<lambda>e. is_std_exception e \<or> P e) m"
  shows "raises P (scatch m h)"
  using assms unfolding raises_def scatch_def
  by (auto split: prod.splits sum.splits if_splits) blast+

definition untimed :: "exc \<Rightarrow> bool" where
  "untimed e \<longleftrightarrow> (\<forall>m. e \<noteq> Timeout_exception m)"

lemma untimed_simps [simp]:
  "untimed (Runtime_error m)" "untimed (Assertion_failure m)" "untimed Hang" "\<not> untimed (Timeout_exception m)"
  "untimed (Abort m)" "untimed (Undefined m)"
  by (simp_all add: untimed_def)

lemma untimed_names [raises_intros]:
  "raises untimed (strerror_exception m n)" "raises untimed (throw_socket_error m)"
  "raises untimed (my_getnameinfo type a nd u q)"
  by (auto simp: raises_def my_getnameinfo_def throw_socket_error_def strerror_exception_def sbind_def sys_def
      split: list.splits if_splits)

lemma untimed_check_family: "check_family f = Inl e \<Longrightarrow> untimed e"
  by (auto simp: check_family_def assertion_def split: if_splits)

lemma untimed_connect_error [raises_intros]: "raises untimed (connect_error l r e)"
  unfolding connect_error_def addr_to_string_def addr_host_def addr_port_def
  by (intro raises_intros) (auto dest: untimed_check_family)

lemma raises_std_or_untimed: "raises (\<lambda>e. is_std_exception e \<or> untimed e) m"
  by (auto simp: raises_def untimed_def)

lemma untimed_connect_loop: "raises untimed (connect_loop ps t err)"
proof (induction ps t err rule: connect_loop.induct)
  case (1 t err)
  then show ?case by (simp add: raises_def)
next
  case (2 local remote rest t err)
  have "raises untimed (scatch (sbind (connect_one local remote t) (\<lambda>s. sret (Some s, err)))
             (\<lambda>e. sbind (connect_error local remote e) (\<lambda>m. connect_loop rest t (add_error err m))))"
    if "\<not> (case local of None \<Rightarrow> False | Some l \<Rightarrow> a_family l \<noteq> a_family remote)"
    by (intro raises_catch raises_bind untimed_connect_error "2.IH"(2) [OF that] raises_std_or_untimed)
  then show ?case using "2.IH"(1) by simp
qed

section \<open>Properties\<close>

text \<open>C8: Making a connection leaks no descriptor. For every descriptor, the number of times it has been
  opened less the number of times it has been closed is unchanged when the constructor throws; when
  it returns, the only descriptor it has left open is that of the connection. This holds for every
  list of addresses, every timeout and all answers of the system, so also for attempts that fail at
  binding, connecting, waiting or reading the addresses.\<close>

theorem connection_leaks_nothing:
  assumes "new_connection ra la timeout s = (r, s')"
  shows "(\<forall>c. r = Inr c \<longrightarrow> balance f s' = balance f s + (if f = con_fd c then 1 else 0))
    \<and> (\<forall>e. r = Inl e \<and> is_std_exception e \<longrightarrow> balance f s' = balance f s)"
  using ownsD(1) [OF owns_new_connection, of ra la timeout s _ s' f]
    ownsD(2) [OF owns_new_connection, of ra la timeout s _ s' f] assms by auto

lemma two_refusals:
  "new_connection [Addr AF_INET 80 [127, 0, 0, 1]] [] (Fin (- 1))
     (sample_os [Ret 7, Fail E_CONNREFUSED, Ret 0, Host ''127.0.0.1'', Host ''80''])
   = (Inl (Runtime_error
        (''Failed to connect: from (unbound local socket) to 127.0.0.1:80: connect: '' @
         ''WTF: strerror_r() call failed for error code: '' @ int_to_string E_CONNREFUSED)),
      (sample_os [])\<lparr>errno := E_CONNREFUSED, trace :=
        [(C_socket AF_INET SOCK_STREAM, Ret 7), (C_connect 7 (Addr AF_INET 80 [127, 0, 0, 1]), Fail E_CONNREFUSED),
         (C_close 7, Ret 0),
         (C_getnameinfo (Addr AF_INET 80 [127, 0, 0, 1]) True True False False, Host ''127.0.0.1''),
         (C_getnameinfo (Addr AF_INET 80 [127, 0, 0, 1]) False True False False, Host ''80'')]\<rparr>)"
  by (simp add: new_connection_def connection_initialize_def connect_one_def socket_new_def socket_adopt_def
      socket_setup_def check_family_def check_socktype_def my_connect_timeout_def my_connect_def connect_error_def
      addr_to_string_def addr_host_def addr_port_def my_getnameinfo_def socket_destroy_def socket_dispose_def
      on_exception_def scatch_def sbind_def sys_def eintr_answer sample_os_def throw_socket_error_def
      strerror_exception_def get_strerror_message_def socket_valid_def invalid_socket_def add_error_def
      SOCK_DGRAM_def SOCK_STREAM_def AF_INET_def AF_INET6_def slift_def)

lemma connection_leaks_nothing_witness:
  "\<exists>e s'. new_connection [Addr AF_INET 80 [127, 0, 0, 1]] [] (Fin (- 1))
     (sample_os [Ret 7, Fail E_CONNREFUSED, Ret 0, Host ''127.0.0.1'', Host ''80'']) = (Inl (Runtime_error e), s')
   \<and> balance 7 s' = balance 7 (sample_os [])"
  using two_refusals connection_leaks_nothing [OF two_refusals, of 7] by (auto simp: balance_def)

text \<open>Nor does making an acceptor: when it throws, every descriptor that was opened has been closed, also
  those of addresses that could not be bound; when it returns, only that of the acceptor is open.\<close>

theorem acceptor_leaks_nothing:
  assumes "new_acceptor la bl s = (r, s')"
  shows "(\<forall>a. r = Inr a \<longrightarrow> balance f s' = balance f s + (if f = acc_fd a then 1 else 0))
    \<and> (\<forall>e. r = Inl e \<and> is_std_exception e \<longrightarrow> balance f s' = balance f s)"
  using ownsD(1) [OF owns_new_acceptor, of la bl s _ s' f]
    ownsD(2) [OF owns_new_acceptor, of la bl s _ s' f] assms by auto

lemma second_address_bound:
  "\<exists>s'. new_acceptor [Addr AF_INET 80 [1], Addr AF_INET 81 [2]] 0
     (sample_os [Ret 7, Fail 13, Ret 0, Ret 8, Ret 0, Name (Addr AF_INET 81 [2]), Ret 0])
   = (Inr \<lparr>acc_fd = 8, acc_local = Addr AF_INET 81 [2]\<rparr>, s')
   \<and> trace s' = [(C_socket AF_INET SOCK_STREAM, Ret 7), (C_bind 7 (Addr AF_INET 80 [1]), Fail 13), (C_close 7, Ret 0),
       (C_socket AF_INET SOCK_STREAM, Ret 8), (C_bind 8 (Addr AF_INET 81 [2]), Ret 0),
       (C_getsockname 8, Name (Addr AF_INET 81 [2])), (C_listen 8 0, Ret 0)]"
  by (simp add: new_acceptor_def bound_socket_def bind_one_def socket_new_def socket_adopt_def my_bind_def my_listen_def
      socket_setup_def check_family_def check_socktype_def socket_destroy_def socket_dispose_def my_getsockname_def
      on_exception_def scatch_def sbind_def sys_def eintr_answer sample_os_def throw_socket_error_def
      strerror_exception_def get_strerror_message_def socket_valid_def invalid_socket_def
      SOCK_DGRAM_def SOCK_STREAM_def AF_INET_def AF_INET6_def slift_def)

lemma acceptor_leaks_nothing_witness:
  "\<exists>s'. new_acceptor [Addr AF_INET 80 [1], Addr AF_INET 81 [2]] 0
     (sample_os [Ret 7, Fail 13, Ret 0, Ret 8, Ret 0, Name (Addr AF_INET 81 [2]), Ret 0])
   = (Inr \<lparr>acc_fd = 8, acc_local = Addr AF_INET 81 [2]\<rparr>, s')
   \<and> balance 7 s' = 0 \<and> balance 8 s' = 1"
proof -
  from second_address_bound obtain s' where s: "new_acceptor [Addr AF_INET 80 [1], Addr AF_INET 81 [2]] 0
     (sample_os [Ret 7, Fail 13, Ret 0, Ret 8, Ret 0, Name (Addr AF_INET 81 [2]), Ret 0])
   = (Inr \<lparr>acc_fd = 8, acc_local = Addr AF_INET 81 [2]\<rparr>, s')" by blast
  show ?thesis
    using s acceptor_leaks_nothing [OF s, of 7] acceptor_leaks_nothing [OF s, of 8] by (simp add: balance_def)
qed


end
