(* ===== verification/Datagram.thy ===== *)
theory Datagram
  imports Net
begin

text \<open>
  Datagram sockets: the class \<^verbatim>\<open>datagram_socket\<close> of \<^verbatim>\<open>nanonet/sys/network.h\<close> and
  \<^verbatim>\<open>src/network.cpp\<close>. Such a socket is its descriptor; the properties say what is sent to
  which address, what a receive call returns and that the constructors leak no descriptor.
\<close>

section \<open>Construction\<close>

definition dgram_initialize :: "int \<Rightarrow> (os, unit) sx" where
  "dgram_initialize fd = sbind (bool_sockopt fd SO_BROADCAST True) (\<lambda>_. bool_sockopt fd SO_REUSEADDR True)"

text \<open>The socket is a member: it is closed if \<open>initialize\<close> throws.\<close>

definition dgram_setup :: "(os, int) sx \<Rightarrow> (os, int) sx" where
  "dgram_setup m =
     sbind m (\<lambda>s. on_exception (sbind (dgram_initialize s) (\<lambda>_. sret s)) (socket_destroy s))"

definition dgram_unbound :: "address_family \<Rightarrow> (os, int) sx" where
  "dgram_unbound af = dgram_setup (sbind (slift (int_address_family af)) (\<lambda>f. socket_new SOCK_DGRAM f))"

definition dgram_bound_family :: "address_family \<Rightarrow> string \<Rightarrow> (os, int) sx" where
  "dgram_bound_family af ls =
     dgram_setup
       (sbind (slift (int_address_family af)) (\<lambda>f.
        sbind (my_getaddrinfo SOCK_DGRAM None (Some ls) f) (\<lambda>la. bound_socket SOCK_DGRAM la)))"

definition dgram_bound_name :: "string \<Rightarrow> string \<Rightarrow> (os, int) sx" where
  "dgram_bound_name nm ls =
     dgram_setup (sbind (resolve SOCK_DGRAM nm ls Ip_unspec) (\<lambda>la. bound_socket SOCK_DGRAM la))"

definition dgram_bound :: "addr list \<Rightarrow> (os, int) sx" where
  "dgram_bound la = dgram_setup (bound_socket SOCK_DGRAM la)"

section \<open>Connecting\<close>

definition dgram_connect :: "int \<Rightarrow> addr \<Rightarrow> (os, unit) sx" where
  "dgram_connect fd a = my_connect fd a"

definition dgram_local :: "int \<Rightarrow> (os, addr) sx" where
  "dgram_local fd = my_getsockname fd"

definition dgram_peer :: "int \<Rightarrow> (os, addr) sx" where
  "dgram_peer fd = my_getpeername fd"

text \<open>The first of the addresses whose family is that of the socket; \<open>local()\<close> asks the system for each.\<close>

fun first_match :: "int \<Rightarrow> addr list \<Rightarrow> (os, addr option) sx" where
  "first_match fd [] = sret None"
| "first_match fd (a # as) =
     sbind (dgram_local fd) (\<lambda>l. if a_family l = a_family a then sret (Some a) else first_match fd as)"

definition dgram_connect_name :: "int \<Rightarrow> string \<Rightarrow> string \<Rightarrow> (os, unit) sx" where
  "dgram_connect_name fd nm service =
     sbind (resolve SOCK_DGRAM nm service Ip_unspec) (\<lambda>candidates.
     sbind (first_match fd candidates) (\<lambda>r.
     case r of
       Some a \<Rightarrow> dgram_connect fd a
     | None \<Rightarrow> sthrow (Runtime_error ''datagram connect: address family mismatch'')))"

definition dgram_connected :: "addr \<Rightarrow> (os, int) sx" where
  "dgram_connected a =
     sbind (slift (from_int_address_family (a_family a))) (\<lambda>af.
     sbind (dgram_unbound af) (\<lambda>s.
     on_exception (sbind (dgram_connect s a) (\<lambda>_. sret s)) (socket_destroy s)))"

definition dgram_connected_name :: "string \<Rightarrow> string \<Rightarrow> address_family \<Rightarrow> (os, int) sx" where
  "dgram_connected_name nm service family =
     sbind (resolve SOCK_DGRAM nm service family) (\<lambda>as. dgram_connected (as ! 0))"

section \<open>Receiving\<close>

definition dgram_timeout :: nat where "dgram_timeout = 2 ^ 64 - 1"
definition dgram_default_size :: nat where "dgram_default_size = 65536"

definition FD_SETSIZE :: int where "FD_SETSIZE = 1024"

text \<open>Waiting with \<open>select\<close>, whose set of descriptors has room for \<open>FD_SETSIZE\<close> of them.\<close>

definition dgram_wait :: "int \<Rightarrow> double \<Rightarrow> (os, bool) sx" where
  "dgram_wait fd t =
     (if fd < 0 \<or> FD_SETSIZE \<le> fd then sthrow (Undefined ''FD_SET out of range'')
      else
        sbind (slift (to_timeval t)) (\<lambda>tv.
        sbind (eintr (C_select fd tv)) (\<lambda>a.
        if ret_of a < 0 then throw_socket_error ''select'' else sret (ret_of a \<noteq> 0))))"

fun source_of :: "answer \<Rightarrow> addr" where
  "source_of (Packet _ a) = a"
| "source_of _ = Addr AF_UNSPEC 0 []"

text \<open>The result: the number returned, the characters written and the source address, which a timeout
  leaves alone.\<close>

definition receive_internal :: "int \<Rightarrow> double \<Rightarrow> nat \<Rightarrow> (os, nat \<times> string \<times> addr option) sx" where
  "receive_internal fd t n =
     sbind (if dle (Fin 0) t then dgram_wait fd t else sret True) (\<lambda>ready.
     if \<not> ready then sret (dgram_timeout, [], None)
     else if n = 0 then sthrow (Undefined ''first element of an empty vector'')
     else
       sbind (eintr (C_recvfrom fd n)) (\<lambda>a.
       case data_of a of
         None \<Rightarrow> throw_socket_error ''recvfrom''
       | Some d \<Rightarrow>
           sbind (slift (c_assert (length d \<le> n) ''err <= buffer.size()'')) (\<lambda>_.
           sret (length d, d, Some (source_of a)))))"

text \<open>The two overloads: without the source address, and with an address that it replaces.\<close>

definition dgram_receive :: "int \<Rightarrow> double \<Rightarrow> nat \<Rightarrow> (os, nat \<times> string) sx" where
  "dgram_receive fd t n = sbind (receive_internal fd t n) (\<lambda>(k, d, src). sret (k, d))"

definition dgram_receive_from :: "int \<Rightarrow> addr \<Rightarrow> double \<Rightarrow> nat \<Rightarrow> (os, nat \<times> string \<times> addr) sx" where
  "dgram_receive_from fd source t n =
     sbind (receive_internal fd t n) (\<lambda>(k, d, src). sret (k, d, case src of None \<Rightarrow> source | Some a \<Rightarrow> a))"

section \<open>Sending\<close>

definition dgram_send :: "int \<Rightarrow> string \<Rightarrow> (os, unit) sx" where
  "dgram_send fd buffer =
     (if buffer = [] then sthrow (Undefined ''first element of an empty vector'')
      else
        sbind (my_send fd buffer) (\<lambda>r.
        sbind (sgets errno) (\<lambda>en.
        if ret_of r < 0 then (if en = E_CONNREFUSED then sret () else throw_socket_error ''send'')
        else slift (assertion (ret_of r = int (length buffer)) ''result == static_cast< long >( buffer.size() )''
               ''include/nanonet/sys/network.h'' 667))))"

definition dgram_sendto :: "int \<Rightarrow> string \<Rightarrow> addr \<Rightarrow> (os, unit) sx" where
  "dgram_sendto fd buffer d =
     sbind (dgram_local fd) (\<lambda>l.
     if a_family d \<noteq> a_family l
     then sthrow (Runtime_error ''datagram send: address family mismatch'')
     else if buffer = [] then sthrow (Undefined ''first element of an empty vector'')
     else
       sbind (my_sendto fd d buffer) (\<lambda>r.
       sbind (sgets errno) (\<lambda>en.
       if ret_of r < 0
       then (if en = E_CONNREFUSED then sret ()
             else sbind (addr_host SOCK_DGRAM d) (\<lambda>h. sbind (addr_port SOCK_DGRAM d) (\<lambda>p.
                  throw_socket_error (''send to '' @ h @ '':'' @ p))))
       else slift (assertion (ret_of r = int (length buffer)) ''result == static_cast< long >( buffer.size() )''
              ''include/nanonet/sys/network.h'' 695))))"

definition dgram_send_name :: "int \<Rightarrow> string \<Rightarrow> string \<Rightarrow> string \<Rightarrow> (os, unit) sx" where
  "dgram_send_name fd buffer node service =
     sbind (resolve SOCK_DGRAM node service Ip_unspec) (\<lambda>ra.
     sbind (first_match fd ra) (\<lambda>r.
     case r of
       Some a \<Rightarrow> dgram_sendto fd buffer a
     | None \<Rightarrow> sthrow (Runtime_error ''datagram send: no matching address family'')))"

section \<open>Facts\<close>

lemma quiet_initialize [quiet_intros]: "quiet (dgram_initialize fd)"
  unfolding dgram_initialize_def by (intro quiet_intros)

lemma owns_dgram_setup:
  assumes "owns Some m" "\<And>st s st'. m st = (Inr s, st') \<Longrightarrow> socket_valid s"
  shows "owns Some (dgram_setup m)"
proof -
  have "owns (\<lambda>x. Some (id x)) (dgram_setup m)"
    unfolding dgram_setup_def
  proof (rule owns_guard [OF assms])
    fix s st x st'
    assume "sbind (dgram_initialize s) (\<lambda>_. sret s) st = (Inr x, st')"
    then show "id x = s" by (rule sbind_InrE) simp
  qed (assumption | rule quiet_intros)+
  then show ?thesis by (simp add: owns_def)
qed

lemma dgram_setup_valid:
  assumes "\<And>st s st'. m st = (Inr s, st') \<Longrightarrow> socket_valid s" "dgram_setup m st = (Inr s, st')"
  shows "socket_valid s"
proof -
  from assms(2) obtain s1 st1 where a: "m st = (Inr s1, st1)"
    "on_exception (sbind (dgram_initialize s1) (\<lambda>_. sret s1)) (socket_destroy s1) st1 = (Inr s, st')"
    unfolding dgram_setup_def by (rule sbind_InrE)
  then have "s = s1" by (auto simp: on_exception_def sbind_def split: prod.splits sum.splits if_splits)
  then show ?thesis using assms(1) a(1) by blast
qed

lemma owns_dgram_unbound: "owns Some (dgram_unbound af)"
  unfolding dgram_unbound_def
  by (rule owns_dgram_setup) (auto intro!: owns_bind owns_socket_new quiet_intros dest: socket_new_valid elim!: sbind_InrE)

lemma dgram_unbound_valid: "dgram_unbound af st = (Inr s, st') \<Longrightarrow> socket_valid s"
  unfolding dgram_unbound_def
  by (rule dgram_setup_valid) (auto dest: socket_new_valid elim!: sbind_InrE)

lemma owns_dgram_bound: "owns Some (dgram_bound la)"
  unfolding dgram_bound_def by (rule owns_dgram_setup [OF owns_bound_socket bound_socket_valid])

lemma owns_dgram_connected: "owns Some (dgram_connected a)"
proof -
  have "owns (\<lambda>x. Some (id x)) (sbind (dgram_unbound af) (\<lambda>s.
     on_exception (sbind (dgram_connect s a) (\<lambda>_. sret s)) (socket_destroy s)))" for af
  proof (rule owns_guard [OF owns_dgram_unbound dgram_unbound_valid])
    fix s st x st'
    assume "sbind (dgram_connect s a) (\<lambda>_. sret s) st = (Inr x, st')"
    then show "id x = s" by (rule sbind_InrE) simp
  qed (assumption | rule quiet_intros | simp only: dgram_connect_def)+
  then have "owns Some (sbind (dgram_unbound af) (\<lambda>s.
     on_exception (sbind (dgram_connect s a) (\<lambda>_. sret s)) (socket_destroy s)))" for af
    by (simp add: owns_def)
  then show ?thesis unfolding dgram_connected_def by (rule owns_bind [OF quiet_basic(3)])
qed

text \<open>What is called while waiting for a datagram.\<close>

lemma wait_calls:
  assumes "(if dle (Fin 0) t then dgram_wait fd t else sret True) s = (Inr ready, s1)"
  shows "\<exists>seg. trace s1 = trace s @ seg \<and> (\<forall>(c, x) \<in> set seg. \<exists>tv. c = C_select fd tv \<and> to_timeval t = Inr tv)
    \<and> (\<not> ready \<longrightarrow> dle (Fin 0) t)"
proof (cases "dle (Fin 0) t")
  case True
  with assms obtain tv a where "to_timeval t = Inr tv" "eintr (C_select fd tv) s = (Inr a, s1)"
    by (auto simp: dgram_wait_def slift_def throw_socket_error_def strerror_exception_def elim!: sbind_InrE split: if_splits)
  moreover from extends_eintr [OF this(2)] obtain m where
    "trace s1 = trace s @ replicate m (C_select fd tv, Fail E_INTR) @ [(C_select fd tv, a)]"
    by (auto simp: extends_def)
  ultimately show ?thesis using True
    by (intro exI [of _ "replicate m (C_select fd tv, Fail E_INTR) @ [(C_select fd tv, a)]"]) auto
next
  case False
  then show ?thesis using assms by (intro exI [of _ "[]"]) auto
qed

section \<open>Properties\<close>

text \<open>Making a datagram socket, bound or connected, leaks no descriptor: when the constructor throws, the
  balance of opening and closing is unchanged for every descriptor; when it returns, only the
  descriptor of the new socket is open.\<close>

theorem datagram_leaks_nothing:
  assumes "dgram_bound la s = (r, s')" "dgram_connected a t = (q, t')"
  shows "(\<forall>fd. r = Inr fd \<longrightarrow> balance f s' = balance f s + (if f = fd then 1 else 0))
    \<and> (\<forall>e. r = Inl e \<and> is_std_exception e \<longrightarrow> balance f s' = balance f s)
    \<and> (\<forall>fd. q = Inr fd \<longrightarrow> balance f t' = balance f t + (if f = fd then 1 else 0))
    \<and> (\<forall>e. q = Inl e \<and> is_std_exception e \<longrightarrow> balance f t' = balance f t)"
  using ownsD(1) [OF owns_dgram_bound, of la s _ s' f] ownsD(2) [OF owns_dgram_bound, of la s _ s' f]
    ownsD(1) [OF owns_dgram_connected, of a t _ t' f] ownsD(2) [OF owns_dgram_connected, of a t _ t' f] assms by auto

lemma datagram_leaks_nothing_witness:
  "\<exists>s' e t'. dgram_bound [Addr AF_INET 80 [1]] (sample_os [Ret 7, Ret 0, Ret 0, Fail 92, Ret 0]) = (Inl (Runtime_error e), s')
     \<and> dgram_connected (Addr AF_INET 80 [1]) (sample_os [Ret 7, Ret 0, Ret 0, Ret 0]) = (Inr 7, t')
     \<and> balance 7 s' = 0 \<and> balance 7 t' = 1"
proof -
  have "\<exists>s' e. dgram_bound [Addr AF_INET 80 [1]] (sample_os [Ret 7, Ret 0, Ret 0, Fail 92, Ret 0]) = (Inl (Runtime_error e), s')"
    by (simp add: dgram_bound_def dgram_setup_def dgram_initialize_def bool_sockopt_def enable_sockopt_def
      bound_socket_def bind_one_def socket_new_def socket_adopt_def my_bind_def
      socket_setup_def check_family_def check_socktype_def socket_destroy_def socket_dispose_def
      on_exception_def scatch_def sbind_def sys_def eintr_answer sample_os_def throw_socket_error_def
      strerror_exception_def socket_valid_def invalid_socket_def
      SOCK_DGRAM_def SOCK_STREAM_def AF_INET_def AF_INET6_def slift_def)
  then obtain s' e where s: "dgram_bound [Addr AF_INET 80 [1]] (sample_os [Ret 7, Ret 0, Ret 0, Fail 92, Ret 0])
    = (Inl (Runtime_error e), s')" by blast
  have "\<exists>t'. dgram_connected (Addr AF_INET 80 [1]) (sample_os [Ret 7, Ret 0, Ret 0, Ret 0]) = (Inr 7, t')"
    by (simp add: dgram_connected_def dgram_unbound_def dgram_connect_def my_connect_def from_int_address_family_def
      int_address_family_def dgram_setup_def dgram_initialize_def bool_sockopt_def enable_sockopt_def
      socket_new_def socket_adopt_def socket_setup_def check_family_def check_socktype_def
      on_exception_def sbind_def sys_def eintr_answer sample_os_def socket_valid_def invalid_socket_def
      SOCK_DGRAM_def SOCK_STREAM_def AF_INET_def AF_INET6_def slift_def)
  then obtain t' where t: "dgram_connected (Addr AF_INET 80 [1]) (sample_os [Ret 7, Ret 0, Ret 0, Ret 0]) = (Inr 7, t')"
    by blast
  from datagram_leaks_nothing [OF s t, of 7] s t show ?thesis by (simp add: balance_def)
qed

lemma my_getsockname_call:
  assumes "my_getsockname fd s = (Inr l, s')"
  shows "\<exists>x. trace s' = trace s @ [(C_getsockname fd, x)] \<and> name_of x = l"
  using assms by (auto simp: my_getsockname_def throw_socket_error_def strerror_exception_def sys_def
      elim!: sbind_InrE split: if_splits list.splits)

lemma first_match_calls:
  "first_match fd as s = (Inr r, s') \<Longrightarrow>
     \<exists>seg. trace s' = trace s @ seg \<and> (\<forall>(c, x) \<in> set seg. c = C_getsockname fd)
       \<and> (\<forall>a. r = Some a \<longrightarrow> a \<in> set as)"
proof (induction as arbitrary: s)
  case (Cons a as)
  from Cons.prems obtain l s1 where l: "my_getsockname fd s = (Inr l, s1)"
    "(if a_family l = a_family a then sret (Some a) else first_match fd as) s1 = (Inr r, s')"
    unfolding first_match.simps dgram_local_def by (rule sbind_InrE)
  from my_getsockname_call [OF l(1)] obtain x where x: "trace s1 = trace s @ [(C_getsockname fd, x)]" by blast
  show ?case
  proof (cases "a_family l = a_family a")
    case True
    then show ?thesis using l(2) x by (intro exI [of _ "[(C_getsockname fd, x)]"]) auto
  next
    case False
    then have "first_match fd as s1 = (Inr r, s')" using l(2) by simp
    from Cons.IH [OF this] obtain seg where "trace s' = trace s1 @ seg" "\<forall>(c, x) \<in> set seg. c = C_getsockname fd"
      "\<forall>a. r = Some a \<longrightarrow> a \<in> set as" by blast
    then show ?thesis using x by (intro exI [of _ "(C_getsockname fd, x) # seg"]) simp
  qed
qed simp

text \<open>A datagram that has been sent.\<close>

definition one_datagram :: "int \<Rightarrow> addr \<Rightarrow> string \<Rightarrow> (call \<times> answer) list \<Rightarrow> bool" where
  "one_datagram fd a d seg \<longleftrightarrow>
     (\<exists>l n x. seg = (C_getsockname fd, l) # replicate n (C_sendto fd a d, Fail E_INTR) @ [(C_sendto fd a d, x)]
        \<and> a_family (name_of l) = a_family a \<and> (ret_of x = int (length d) \<or> x = Fail E_CONNREFUSED))"

lemma sendto_calls:
  assumes "dgram_sendto fd d a s = (Inr u, s')"
  shows "\<exists>seg. trace s' = trace s @ seg \<and> one_datagram fd a d seg"
proof -
  from assms obtain l s1 x where l: "my_getsockname fd s = (Inr l, s1)" "a_family a = a_family l"
    and x: "eintr (C_sendto fd a d) s1 = (Inr x, s')"
      "if ret_of x < 0 then errno s' = E_CONNREFUSED else ret_of x = int (length d)"
    unfolding dgram_sendto_def dgram_local_def my_sendto_def
    by (auto simp: throw_socket_error_def strerror_exception_def slift_def elim!: sbind_InrE split: if_splits)
  from my_getsockname_call [OF l(1)] obtain y where y: "trace s1 = trace s @ [(C_getsockname fd, y)]" "name_of y = l" by blast
  from eintr_Inr [OF x(1)] obtain n where n: "trace s' = trace s1 @ replicate n (C_sendto fd a d, Fail E_INTR) @ [(C_sendto fd a d, x)]"
    "\<forall>e. x = Fail e \<longrightarrow> errno s' = e" by blast
  have "ret_of x = int (length d) \<or> x = Fail E_CONNREFUSED"
    using x(2) n(2) ret_of_negative [of x] by (auto split: if_splits)
  then have "one_datagram fd a d ((C_getsockname fd, y) # replicate n (C_sendto fd a d, Fail E_INTR) @ [(C_sendto fd a d, x)])"
    unfolding one_datagram_def using y l(2) by (intro exI [of _ y] exI [of _ n] exI [of _ x]) simp
  then show ?thesis
    using n(1) y(1)
    by (intro exI [of _ "(C_getsockname fd, y) # replicate n (C_sendto fd a d, Fail E_INTR) @ [(C_sendto fd a d, x)]"]) simp
qed

lemma my_getaddrinfo_calls:
  assumes "my_getaddrinfo type n s f st = (Inr as, st')"
  shows "\<exists>l. trace st' = trace st @ [(C_getaddrinfo n s f type, Addrs l)] \<and> as = map snd l \<and> as \<noteq> []"
proof -
  have t: "take_addresses ty l = Inr bs \<Longrightarrow> bs = map snd l" for ty l bs
    by (induction ty l arbitrary: bs rule: take_addresses.induct) (auto simp: rbind_Inr_iff)
  show ?thesis
    using assms unfolding my_getaddrinfo_def
    by (auto simp: slift_def sys_def Let_def elim!: sbind_InrE dest!: t split: if_splits answer.splits list.splits)
qed

text \<open>C30: Sending a datagram to a named destination. If it returns, exactly one address of those the resolver
  gave was used: one whose family is that of the socket. The whole text went to it in one datagram,
  sent again only after an interruption; the one error that is not reported is a refused connection.\<close>

theorem datagram_goes_to_one_match:
  assumes "dgram_send_name fd d node service s = (Inr u, s')"
  shows "\<exists>l asks a seg. trace s' = trace s
      @ (C_getaddrinfo (Some node) (Some service) AF_UNSPEC SOCK_DGRAM, Addrs l) # asks @ seg
    \<and> (\<forall>(c, x) \<in> set asks. c = C_getsockname fd) \<and> a \<in> snd ` set l \<and> one_datagram fd a d seg"
proof -
  from assms obtain as s1 r s2 where
    g: "my_getaddrinfo SOCK_DGRAM (Some node) (Some service) AF_UNSPEC s = (Inr as, s1)"
    and r: "first_match fd as s1 = (Inr r, s2)"
    and k: "(case r of Some a \<Rightarrow> dgram_sendto fd d a
     | None \<Rightarrow> sthrow (Runtime_error ''datagram send: no matching address family'')) s2 = (Inr u, s')"
    unfolding dgram_send_name_def resolve_def
    by (auto simp: int_address_family_def elim!: sbind_InrE)
  from my_getaddrinfo_calls [OF g] obtain l where
    l: "trace s1 = trace s @ [(C_getaddrinfo (Some node) (Some service) AF_UNSPEC SOCK_DGRAM, Addrs l)]" "as = map snd l"
    by blast
  from k obtain a where a: "r = Some a" "dgram_sendto fd d a s2 = (Inr u, s')" by (cases r) auto
  from first_match_calls [OF r] a(1) obtain asks where q: "trace s2 = trace s1 @ asks"
    "\<forall>(c, x) \<in> set asks. c = C_getsockname fd" "a \<in> set as" by blast
  from sendto_calls [OF a(2)] obtain seg where "trace s' = trace s2 @ seg" "one_datagram fd a d seg" by blast
  then show ?thesis using l q by (intro exI [of _ l] exI [of _ asks] exI [of _ a] exI [of _ seg]) simp
qed

lemma datagram_goes_to_one_match_witness:
  "\<exists>s'. dgram_send_name 5 ''hi'' ''host'' ''1'' (sample_os [Addrs [(2, Addr 10 1 [9]), (2, Addr 2 1 [8])],
       Name (Addr 2 0 []), Name (Addr 2 0 []), Name (Addr 2 0 []), Ret 2]) = (Inr (), s')
     \<and> (C_sendto 5 (Addr 2 1 [8]) ''hi'', Ret 2) \<in> set (trace s')
     \<and> (\<exists>a seg. one_datagram 5 a ''hi'' seg \<and> set seg \<subseteq> set (trace s'))"
proof -
  have "\<exists>s'. dgram_send_name 5 ''hi'' ''host'' ''1'' (sample_os [Addrs [(2, Addr 10 1 [9]), (2, Addr 2 1 [8])],
       Name (Addr 2 0 []), Name (Addr 2 0 []), Name (Addr 2 0 []), Ret 2]) = (Inr (), s')
     \<and> (C_sendto 5 (Addr 2 1 [8]) ''hi'', Ret 2) \<in> set (trace s')"
    by (simp add: dgram_send_name_def resolve_def my_getaddrinfo_def int_address_family_def dgram_local_def
      my_getsockname_def dgram_sendto_def my_sendto_def sbind_def sys_def eintr_answer sample_os_def slift_def
      SOCK_DGRAM_def Let_def)
  then obtain s' where s: "dgram_send_name 5 ''hi'' ''host'' ''1'' (sample_os [Addrs [(2, Addr 10 1 [9]), (2, Addr 2 1 [8])],
       Name (Addr 2 0 []), Name (Addr 2 0 []), Name (Addr 2 0 []), Ret 2]) = (Inr (), s')"
     "(C_sendto 5 (Addr 2 1 [8]) ''hi'', Ret 2) \<in> set (trace s')" by blast
  from datagram_goes_to_one_match [OF s(1)] s show ?thesis by fastforce
qed



text \<open>The address of a bound socket is taken before \<^verbatim>\<open>SO_REUSEADDR\<close> is set.\<close>

lemma reuseaddr_after_bind:
  "\<exists>s'. dgram_bound [Addr AF_INET 80 [1]] (sample_os [Ret 7, Ret 0, Ret 0, Ret 0]) = (Inr 7, s')
     \<and> trace s' = [(C_socket AF_INET SOCK_DGRAM, Ret 7), (C_bind 7 (Addr AF_INET 80 [1]), Ret 0),
         (C_setsockopt 7 SO_BROADCAST [1], Ret 0), (C_setsockopt 7 SO_REUSEADDR [1], Ret 0)]"
  by (simp add: dgram_bound_def dgram_setup_def dgram_initialize_def bool_sockopt_def enable_sockopt_def
      bound_socket_def bind_one_def socket_new_def socket_adopt_def my_bind_def
      socket_setup_def check_family_def check_socktype_def
      on_exception_def scatch_def sbind_def sys_def eintr_answer sample_os_def socket_valid_def invalid_socket_def
      SOCK_DGRAM_def SOCK_STREAM_def AF_INET_def AF_INET6_def slift_def)

end
