(* ===== verification/Server.thy ===== *)
theory Server
  imports Net
begin

text \<open>
  The TCP server of \<^verbatim>\<open>nanonet/sys/server.h\<close> and \<^verbatim>\<open>src/sys/server.cpp\<close>, as far as one thread runs it: the
  parameters and the status, the loop that serves a connection, the thread of a connection with its
  two levels of exception handlers, \<open>run_server\<close> with its retries, and \<open>server_manager\<close>. How the
  listening thread and the threads of the connections interleave is theory Server_Run. The handler
  and the welcome function are parameters, which act on the input stream and on a state \<open>'e\<close> that
  stands for the output stream and whatever else they reach.
\<close>

section \<open>Parameters and status\<close>

record server_parameters =
  bind_address :: string
  service :: string
  server_name :: string
  log_connections :: bool
  n_listen_retries :: int
  listen_retry_time :: double
  max_line_length :: int
  sp_timeout :: double
  accept_timeout :: double
  C_cps_slow :: double
  C_cps_medium :: double
  C_cps_fast :: double
  sp_backlog :: int
  background :: bool
  shutdown_wait_for_client_close :: bool

definition default_parameters :: server_parameters where
  "default_parameters =
     \<lparr>bind_address = any_ipv4, service = ''test:stdio'', server_name = ''nanonet/generic'', log_connections = True,
      n_listen_retries = - 1, listen_retry_time = Fin 1, max_line_length = 1000, sp_timeout = Fin 60,
      accept_timeout = Fin 3, C_cps_slow = to_double (2 / 1000), C_cps_medium = to_double (1 / 100),
      C_cps_fast = to_double (5 / 100), sp_backlog = 0, background = False, shutdown_wait_for_client_close = True\<rparr>"

record server_status =
  st_name :: string
  connections_total :: int
  connections_current :: int
  cps_estimate_slow :: double
  cps_estimate_medium :: double
  cps_estimate_fast :: double

definition new_status :: "server_parameters \<Rightarrow> server_status" where
  "new_status p =
     \<lparr>st_name = server_name p, connections_total = 0, connections_current = 0,
      cps_estimate_slow = Fin 0, cps_estimate_medium = Fin 0, cps_estimate_fast = Fin 0\<rparr>"

record connection_rates =
  re_slow :: rate_estimator
  re_medium :: rate_estimator
  re_fast :: rate_estimator

definition new_rates :: "server_parameters \<Rightarrow> connection_rates result" where
  "new_rates p =
     rbind (new_rate_estimator (C_cps_slow p) (Fin 1)) (\<lambda>s.
     rbind (new_rate_estimator (C_cps_medium p) (Fin 1)) (\<lambda>m.
     rbind (new_rate_estimator (C_cps_fast p) (Fin 1)) (\<lambda>f. Inr \<lparr>re_slow = s, re_medium = m, re_fast = f\<rparr>)))"

definition update_rates :: "double \<Rightarrow> connection_rates \<Rightarrow> connection_rates" where
  "update_rates now r =
     \<lparr>re_slow = snd (re_update (re_slow r) now), re_medium = snd (re_update (re_medium r) now),
      re_fast = snd (re_update (re_fast r) now)\<rparr>"

definition update_status :: "connection_rates \<Rightarrow> server_status \<Rightarrow> server_status" where
  "update_status r s =
     s\<lparr>cps_estimate_slow := estimate (re_slow r), cps_estimate_medium := estimate (re_medium r),
       cps_estimate_fast := estimate (re_fast r)\<rparr>"

section \<open>Log streams\<close>

text \<open>
  A log stream as the server uses it: the level of the entry being written, its text so far, and the
  entries that \<^verbatim>\<open>std::endl\<close> has completed. Text that is left over when an exception interrupts a
  statement becomes the beginning of the next entry.
\<close>

record slog =
  lg_level :: prio
  lg_text :: string
  entries :: "(prio \<times> string) list"

definition new_slog :: slog where "new_slog = \<lparr>lg_level = default_prio, lg_text = [], entries = []\<rparr>"

definition lg_begin :: "prio \<Rightarrow> string \<Rightarrow> slog \<Rightarrow> slog" where
  "lg_begin p t l = l\<lparr>lg_level := p, lg_text := lg_text l @ t\<rparr>"

definition lg_end :: "string \<Rightarrow> slog \<Rightarrow> slog" where
  "lg_end t l = l\<lparr>entries := entries l @ [(lg_level l, lg_text l @ t)], lg_text := [], lg_level := default_prio\<rparr>"

definition lg_entry :: "prio \<Rightarrow> string \<Rightarrow> slog \<Rightarrow> slog" where
  "lg_entry p t l = lg_end [] (lg_begin p t l)"

definition lg_error :: "string \<Rightarrow> string \<Rightarrow> slog \<Rightarrow> slog" where
  "lg_error msg w l = lg_entry ERR (msg @ '': '' @ w) l"

definition show_bool :: "bool \<Rightarrow> string" where
  "show_bool b = (if b then ''1'' else ''0'')"

definition log_params :: "server_parameters \<Rightarrow> bool \<Rightarrow> slog \<Rightarrow> slog" where
  "log_params p production l =
     fold (lg_entry NOTICE)
       [''Starting service: '' @ server_name p, ''Mode: '' @ (if production then ''Production'' else ''Test''),
        ''Maximum backlog: '' @ int_to_string (sp_backlog p), ''Connection timeout [s]: '' @ show_double (sp_timeout p),
        ''Maximum line length: '' @ int_to_string (max_line_length p),
        ''Running in background: '' @ show_bool (background p)] l"

section \<open>Serving a connection\<close>

type_synonym 'e handler = "string \<Rightarrow> server_status \<Rightarrow> (istream \<times> 'e, bool) sx"
type_synonym 'e os_writer = "server_status \<Rightarrow> ('e, unit) sx"

text \<open>One turn of the loop of \<open>handle_connection\<close>, with the value of the running flag it reads: whether
  there is another one.\<close>

definition handle_line :: "int \<Rightarrow> 'e handler \<Rightarrow> server_status \<Rightarrow> bool \<Rightarrow> (istream \<times> 'e, bool) sx" where
  "handle_line maxlen handler status run s =
     (if \<not> run then (Inr False, s)
      else
        (case getline maxlen (fst s, []) of
           (Inl e, is', _) \<Rightarrow> (Inl e, (is', snd s))
         | (Inr _, is', line) \<Rightarrow>
             if failbit is' then (Inr False, (is', snd s)) else handler line status (is', snd s)))"

definition write_welcome :: "'e os_writer option \<Rightarrow> server_status \<Rightarrow> (istream \<times> 'e, unit) sx" where
  "write_welcome welcome status s =
     (case welcome of
        None \<Rightarrow> (Inr (), s)
      | Some w \<Rightarrow> (case w status (snd s) of (r, e) \<Rightarrow> (r, (fst s, e))))"

text \<open>The whole loop, as the test mode runs it; \<open>runs i\<close> is the flag at the \<open>i\<close>th turn. The first
  argument bounds the number of turns, \<open>None\<close> says that it was too small.\<close>

fun serve_lines ::
  "nat \<Rightarrow> nat \<Rightarrow> (nat \<Rightarrow> bool) \<Rightarrow> int \<Rightarrow> 'e handler \<Rightarrow> server_status \<Rightarrow> istream \<times> 'e
     \<Rightarrow> (unit result \<times> istream \<times> 'e) option" where
  "serve_lines 0 i runs maxlen handler status s = None"
| "serve_lines (Suc n) i runs maxlen handler status s =
     (case handle_line maxlen handler status (runs i) s of
        (Inl e, s') \<Rightarrow> Some (Inl e, s')
      | (Inr go, s') \<Rightarrow> if go then serve_lines n (Suc i) runs maxlen handler status s' else Some (Inr (), s'))"

definition handle_connection ::
  "nat \<Rightarrow> (nat \<Rightarrow> bool) \<Rightarrow> server_parameters \<Rightarrow> 'e os_writer option \<Rightarrow> 'e handler \<Rightarrow> server_status
     \<Rightarrow> istream \<times> 'e \<Rightarrow> (unit result \<times> istream \<times> 'e) option" where
  "handle_connection n runs p welcome handler status s =
     (case write_welcome welcome status s of
        (Inl e, s') \<Rightarrow> Some (Inl e, s')
      | (Inr _, s') \<Rightarrow> serve_lines n 0 runs (max_line_length p) handler status s')"

section \<open>The thread of a connection\<close>

datatype cphase = Starting | Reading | Waiting | Finished | Gone | Terminated

text \<open>\<open>peer k\<close> is what printing the peer's address gives, or throws, at the \<open>k\<close>th time.\<close>

record 'e conn =
  phase :: cphase
  c_in :: istream
  c_env :: 'e
  peer :: "nat \<Rightarrow> string result"
  asked :: nat
  clog :: slog

definition new_conn :: "istream \<Rightarrow> 'e \<Rightarrow> (nat \<Rightarrow> string result) \<Rightarrow> 'e conn" where
  "new_conn is e pr = \<lparr>phase = Starting, c_in = is, c_env = e, peer = pr, asked = 0, clog = new_slog\<rparr>"

text \<open>The state of a thread is its own and the running flag.\<close>

type_synonym 'e cstate = "bool \<times> 'e conn"

definition set_phase :: "cphase \<Rightarrow> ('e cstate, unit) sx" where
  "set_phase ph = smod (\<lambda>(run, c). (run, c\<lparr>phase := ph\<rparr>))"

definition say :: "(slog \<Rightarrow> slog) \<Rightarrow> ('e cstate, unit) sx" where
  "say f = smod (\<lambda>(run, c). (run, c\<lparr>clog := f (clog c)\<rparr>))"

definition ask_peer :: "('e cstate, string) sx" where
  "ask_peer s = (case s of (run, c) \<Rightarrow> (peer c (asked c), (run, c\<lparr>asked := Suc (asked c)\<rparr>)))"

definition say_peer :: "prio \<Rightarrow> string \<Rightarrow> string \<Rightarrow> ('e cstate, unit) sx" where
  "say_peer p before after =
     sbind (say (lg_begin p before)) (\<lambda>_. sbind ask_peer (\<lambda>a. say (lg_end (a @ after))))"

definition on_streams :: "(istream \<times> 'e, 'a) sx \<Rightarrow> ('e cstate, 'a) sx" where
  "on_streams m s =
     (case s of (run, c) \<Rightarrow>
        (case m (c_in c, c_env c) of (r, (is, e)) \<Rightarrow> (r, (run, c\<lparr>c_in := is, c_env := e\<rparr>))))"

text \<open>The handlers of the inner and of the outer \<^verbatim>\<open>try\<close> block.\<close>

definition inner_catch :: "server_parameters \<Rightarrow> exc \<Rightarrow> ('e cstate, unit) sx" where
  "inner_catch p e =
     (case e of
        Shutdown_exception _ \<Rightarrow>
          sbind (smod (\<lambda>(run, c). (False, c))) (\<lambda>_.
          sbind (say_peer NOTICE ''Shutdown requested in connection from: '' []) (\<lambda>_.
          if shutdown_wait_for_client_close p
          then sbind (say (lg_entry NOTICE ''Waiting for client to close the connection...'')) (\<lambda>_. set_phase Waiting)
          else set_phase Finished))
      | _ \<Rightarrow> sbind (say_peer ERR ''In connection from '' ('': '' @ what e)) (\<lambda>_. set_phase Finished))"

definition outer_catch :: "exc \<Rightarrow> ('e cstate, unit) sx" where
  "outer_catch e =
     sbind (say_peer CRIT ''WTF: Communication couldn't be set up in connection from '' ('': '' @ what e))
       (\<lambda>_. set_phase Finished)"

text \<open>A statement in the inner block; an exception that leaves the thread terminates the program.\<close>

definition guarded :: "server_parameters \<Rightarrow> ('e cstate, unit) sx \<Rightarrow> 'e cstate \<Rightarrow> 'e cstate" where
  "guarded p m s =
     (case scatch (scatch m (inner_catch p)) outer_catch s of
        (Inr _, s') \<Rightarrow> s'
      | (Inl _, (run, c)) \<Rightarrow> (run, c\<lparr>phase := Terminated\<rparr>))"

text \<open>What the thread does in each phase: the beginning up to the welcome message, one turn of the loop,
  the log entry at its end, and the loop that waits for the client.\<close>

definition begin_connection :: "server_parameters \<Rightarrow> 'e os_writer option \<Rightarrow> server_status \<Rightarrow> ('e cstate, unit) sx" where
  "begin_connection p welcome status =
     sbind (if log_connections p
            then say_peer NOTICE ''New connection from ''
              (''; currently '' @ int_to_string (connections_current status) @ ''/total ''
               @ int_to_string (connections_total status) @ '' connection(s)'')
            else sskip) (\<lambda>_.
     sbind (on_streams (write_welcome welcome status)) (\<lambda>_. set_phase Reading))"

definition end_connection :: "server_parameters \<Rightarrow> ('e cstate, unit) sx" where
  "end_connection p =
     sbind (if log_connections p then say_peer NOTICE ''Connection closing: '' [] else sskip)
       (\<lambda>_. set_phase Finished)"

definition serve_one :: "server_parameters \<Rightarrow> 'e handler \<Rightarrow> server_status \<Rightarrow> ('e cstate, unit) sx" where
  "serve_one p handler status =
     sbind (sgets fst) (\<lambda>run.
     sbind (on_streams (handle_line (max_line_length p) handler status run)) (\<lambda>go.
     if go then sskip else end_connection p))"

definition wait_close :: "'e cstate \<Rightarrow> 'e cstate" where
  "wait_close s =
     (case s of (run, c) \<Rightarrow>
        (run, c\<lparr>c_in := snd (snd (get_while (\<lambda>_. True) (c_in c))), phase := Finished,
                clog := lg_entry NOTICE ''Client closed connection, ready for shutdown'' (clog c)\<rparr>))"

definition conn_step ::
  "server_parameters \<Rightarrow> 'e os_writer option \<Rightarrow> 'e handler \<Rightarrow> server_status \<Rightarrow> 'e cstate \<Rightarrow> 'e cstate" where
  "conn_step p welcome handler status s =
     (case phase (snd s) of
        Starting \<Rightarrow>
          if \<not> fst s then (fst s, (snd s)\<lparr>phase := Finished\<rparr>)
          else guarded p (begin_connection p welcome status) s
      | Reading \<Rightarrow> guarded p (serve_one p handler status) s
      | Waiting \<Rightarrow> wait_close s
      | _ \<Rightarrow> s)"

section \<open>Starting the server\<close>

text \<open>What \<open>run_server\<close> uses of the system: the sockets and its log.\<close>

type_synonym rs_state = "os \<times> slog"

definition on_os :: "(os, 'a) sx \<Rightarrow> (rs_state, 'a) sx" where
  "on_os m s = (case m (fst s) of (r, o') \<Rightarrow> (r, (o', snd s)))"

definition on_slog :: "(slog \<Rightarrow> slog) \<Rightarrow> (rs_state, unit) sx" where
  "on_slog f s = (Inr (), (fst s, f (snd s)))"

datatype outcome = Not_started | In_background acceptor | Served

text \<open>One attempt to listen; \<open>serve\<close> is the function of the listening thread, run here in the foreground.\<close>

definition listen_once :: "server_parameters \<Rightarrow> (acceptor \<Rightarrow> (rs_state, unit) sx) \<Rightarrow> (rs_state, outcome) sx" where
  "listen_once p serve =
     sbind (on_os (new_acceptor_name (bind_address p) (service p) (sp_backlog p))) (\<lambda>acc.
     if background p
     then sbind (on_slog (lg_entry NOTICE ''Starting service in background...'')) (\<lambda>_. sret (In_background acc))
     else sbind (on_slog (lg_entry NOTICE
              ''Starting service in foreground and looping to accept connections until shutdown...'')) (\<lambda>_.
          sbind (serve acc) (\<lambda>_. sret Served)))"

definition listen_error :: "server_parameters \<Rightarrow> exc \<Rightarrow> (rs_state, unit) sx" where
  "listen_error p e =
     on_slog (lg_error (''Failed to accept connections on '' @ service p @ '' (retrying in ''
       @ double_to_string (listen_retry_time p) @ ''s)'') (what e))"

text \<open>The loop, with the number of retries so far; \<open>runs i\<close> is the flag at the \<open>i\<close>th turn.\<close>

fun listen_loop ::
  "nat \<Rightarrow> nat \<Rightarrow> (nat \<Rightarrow> bool) \<Rightarrow> server_parameters \<Rightarrow> (acceptor \<Rightarrow> (rs_state, unit) sx) \<Rightarrow> int \<Rightarrow> rs_state
     \<Rightarrow> (outcome result \<times> rs_state) option" where
  "listen_loop 0 i runs p serve retries s = None"
| "listen_loop (Suc n) i runs p serve retries s =
     (if \<not> runs i
      then Some (sbind (on_slog (lg_entry NOTICE ''Shutdown requested before we could bind to socket''))
             (\<lambda>_. sret Not_started) s)
      else
        (case listen_once p serve s of
           (Inr r, s1) \<Rightarrow> Some (Inr r, s1)
         | (Inl e, s1) \<Rightarrow>
             if \<not> is_std_exception e then Some (Inl e, s1)
             else
               (let s2 = snd (listen_error p e s1);
                    retries' = (if n_listen_retries p < 0 then retries else retries + 1)
                in if n_listen_retries p < 0 \<or> retries' \<le> n_listen_retries p
                   then (case on_os (sleep (listen_retry_time p)) s2 of
                           (Inl e2, s3) \<Rightarrow> Some (Inl e2, s3)
                         | (Inr _, s3) \<Rightarrow> listen_loop n (Suc i) runs p serve retries' s3)
                   else Some (sbind (on_slog (lg_entry ERR (''Maximum number of retries (''
                          @ int_to_string (n_listen_retries p) @ '') reached, giving up''))) (\<lambda>_. sthrow e) s2))))"

text \<open>The object that is returned. Its pointer to the log stream is null, the caller's, or that of a
  stream which \<open>run_server\<close> has created and destroyed.\<close>

datatype stream_pointer = Null | Callers | Dangling

record server_manager =
  sm_name :: string
  logstream :: stream_pointer
  joinable :: bool

definition run_server ::
  "nat \<Rightarrow> (nat \<Rightarrow> bool) \<Rightarrow> server_parameters \<Rightarrow> (acceptor \<Rightarrow> (rs_state, unit) sx) \<Rightarrow> bool \<Rightarrow> rs_state
     \<Rightarrow> (server_manager result \<times> rs_state) option" where
  "run_server n runs p serve has_sl s =
     (case listen_loop n 0 runs p serve 0 (fst s, if has_sl then snd s else new_slog) of
        None \<Rightarrow> None
      | Some (Inl e, s') \<Rightarrow> Some (Inl e, s')
      | Some (Inr r, s') \<Rightarrow>
          Some (Inr \<lparr>sm_name = server_name p, logstream = (if has_sl then Callers else Dangling),
                      joinable = (case r of In_background _ \<Rightarrow> True | _ \<Rightarrow> False)\<rparr>, s'))"

text \<open>The mode that serves the standard streams: exceptions are logged, the manager has no thread.\<close>

definition run_test_server ::
  "nat \<Rightarrow> (nat \<Rightarrow> bool) \<Rightarrow> server_parameters \<Rightarrow> 'e os_writer option \<Rightarrow> 'e handler
     \<Rightarrow> (istream \<times> 'e) \<times> slog \<Rightarrow> (server_manager result \<times> (istream \<times> 'e) \<times> slog) option" where
  "run_test_server n runs p welcome handler s =
     (let sl = log_params p False (snd s);
          sm = \<lparr>sm_name = server_name p, logstream = Callers, joinable = False\<rparr>
      in case handle_connection n runs p welcome handler (new_status p) (fst s) of
           None \<Rightarrow> None
         | Some (Inr _, s') \<Rightarrow> Some (Inr sm, (s', sl))
         | Some (Inl e, s') \<Rightarrow>
             (case e of
                Shutdown_exception w \<Rightarrow>
                  Some (Inr sm, (s', lg_error (''Shutdown requested in synchronous test mode service '' @ server_name p) w sl))
              | _ \<Rightarrow>
                  if is_std_exception e
                  then Some (Inr sm, (s', lg_error (''Aborting synchronous test mode service '' @ server_name p) (what e) sl))
                  else Some (Inl e, (s', sl))))"

text \<open>The destructor, which joins the thread; \<open>join\<close> waits for it.\<close>

definition destroy_manager :: "server_manager \<Rightarrow> (rs_state, unit) sx \<Rightarrow> (rs_state, unit) sx" where
  "destroy_manager m join =
     (if \<not> joinable m then sskip
      else
        (let note = (\<lambda>t. case logstream m of
                       Null \<Rightarrow> sskip
                     | Callers \<Rightarrow> on_slog (lg_entry NOTICE (t @ sm_name m))
                     | Dangling \<Rightarrow> sthrow (Undefined ''destroyed log stream''))
         in sbind (note ''Waiting for service shutdown confirmation: '') (\<lambda>_.
            sbind join (\<lambda>_. note ''Service shutdown confirmed: ''))))"

section \<open>Facts\<close>

lemma getline_of:
  assumes "newline_char \<notin> set l" "int (length l) < n"
  shows "getline n (istream_of (l @ newline_char # r), []) = (Inr (), istream_of r, l)"
proof -
  have "getline_loop (nat n) (istream_of (l @ newline_char # r)) [] = ([] @ l, istream_of r)"
    by (rule getline_loop_of) (use assms in auto)
  then show ?thesis using assms(2) by (simp add: getline_def assertion_def)
qed

lemma getline_end: "0 < n \<Longrightarrow> \<exists>is'. getline n (istream_of [], []) = (Inr (), is', []) \<and> failbit is'"
  by (cases "nat n") (auto simp: getline_def assertion_def)

text \<open>What a handler that leaves the stream alone makes of a list of lines.\<close>

fun fold_lines :: "(string \<Rightarrow> 'e \<Rightarrow> bool result \<times> 'e) \<Rightarrow> string list \<Rightarrow> 'e \<Rightarrow> unit result \<times> 'e" where
  "fold_lines h [] e = (Inr (), e)"
| "fold_lines h (l # ls) e =
     (case h l e of
        (Inl x, e') \<Rightarrow> (Inl x, e')
      | (Inr go, e') \<Rightarrow> if go then fold_lines h ls e' else (Inr (), e'))"

lemma serve_lines_serve:
  assumes h: "\<And>line st is e. handler line st (is, e) = (case h line e of (r, e') \<Rightarrow> (r, (is, e')))"
    and m: "list_all (\<lambda>l. newline_char \<notin> set l \<and> int (length l) < maxlen) ls" "0 < maxlen" "\<And>i. runs i"
  shows "length ls < n \<Longrightarrow> \<exists>is'. serve_lines n i runs maxlen handler status
      (istream_of (concat (map (\<lambda>l. l @ [newline_char]) ls)), e)
    = Some (fst (fold_lines h ls e), (is', snd (fold_lines h ls e)))"
  using m(1)
proof (induction ls arbitrary: n i e)
  case Nil
  then obtain k where "n = Suc k" by (cases n) auto
  moreover obtain is' where "getline maxlen (istream_of [], []) = (Inr (), is', [])" "failbit is'"
    using getline_end [OF m(2)] by blast
  ultimately show ?case using m(3) by (simp add: handle_line_def)
next
  case (Cons l ls)
  then obtain k where n: "n = Suc k" "length ls < k" by (cases n) auto
  let ?rest = "concat (map (\<lambda>l. l @ [newline_char]) ls)"
  have "getline maxlen (istream_of (l @ newline_char # ?rest), []) = (Inr (), istream_of ?rest, l)"
    by (rule getline_of) (use Cons.prems in auto)
  then have hl: "handle_line maxlen handler status (runs i) (istream_of (l @ newline_char # ?rest), e)
    = (case h l e of (r, e') \<Rightarrow> (r, (istream_of ?rest, e')))"
    using m(3) by (simp add: handle_line_def h)
  obtain r e' where r: "h l e = (r, e')" by fastforce
  show ?case
  proof (cases r)
    case (Inl x)
    then show ?thesis using n hl r by simp
  next
    case (Inr go)
    show ?thesis
    proof (cases go)
      case True
      have "list_all (\<lambda>l. newline_char \<notin> set l \<and> int (length l) < maxlen) ls" using Cons.prems(2) by simp
      from Cons.IH [OF n(2) this, of "Suc i" e'] show ?thesis using n hl r Inr True by simp
    next
      case False
      then show ?thesis using n hl r Inr by simp
    qed
  qed
qed

text \<open>Threads whose peer can be printed and that have not terminated the program.\<close>

definition thread_ok :: "'e cstate \<Rightarrow> bool" where
  "thread_ok s \<longleftrightarrow> (\<forall>k. is_ok (peer (snd s) k)) \<and> phase (snd s) \<noteq> Terminated"

lemma say_wp [wp_simps]: "wp (say f) Q E = (\<lambda>s. Q () (fst s, (snd s)\<lparr>clog := f (clog (snd s))\<rparr>))"
  by (simp add: say_def wp_simps case_prod_beta)

lemma set_phase_wp [wp_simps]: "wp (set_phase ph) Q E = (\<lambda>s. Q () (fst s, (snd s)\<lparr>phase := ph\<rparr>))"
  by (simp add: set_phase_def wp_simps case_prod_beta)

lemma ask_peer_wp [wp_simps]:
  "wp ask_peer Q E = (\<lambda>s. case peer (snd s) (asked (snd s)) of
     Inl e \<Rightarrow> E e (fst s, (snd s)\<lparr>asked := Suc (asked (snd s))\<rparr>)
   | Inr a \<Rightarrow> Q a (fst s, (snd s)\<lparr>asked := Suc (asked (snd s))\<rparr>))"
  by (auto simp: ask_peer_def wp_def fun_eq_iff split: sum.splits)

lemma thread_ok_upd [simp]:
  "thread_ok (run, c\<lparr>clog := l\<rparr>) = thread_ok (run, c)" "thread_ok (run, c\<lparr>asked := n\<rparr>) = thread_ok (run, c)"
  "thread_ok (run, c\<lparr>c_in := is, c_env := e\<rparr>) = thread_ok (run, c)"
  "thread_ok (run, c) \<Longrightarrow> ph \<noteq> Terminated \<Longrightarrow> thread_ok (run', c\<lparr>phase := ph\<rparr>)"
  by (simp_all add: thread_ok_def)

lemma thread_ok_peer: "thread_ok s \<Longrightarrow> \<exists>a. peer (snd s) k = Inr a"
  unfolding thread_ok_def by (metis is_ok_simps(2) obj_sumE)

lemma say_peer_ok: "thread_ok s \<Longrightarrow> wp (say_peer p b a) (\<lambda>_. thread_ok) (\<lambda>_ _. False) s"
  using thread_ok_peer [of s "asked (snd s)"] by (cases s) (auto simp: say_peer_def wp_simps)

lemma wp_seq_ok:
  "wp m (\<lambda>_. I) F s \<Longrightarrow> (\<And>x s. I s \<Longrightarrow> wp (k x) Q F s) \<Longrightarrow> wp (sbind m k) Q F s"
  unfolding wp_bind by (erule wp_mono)

lemma inner_catch_ok: "thread_ok s \<Longrightarrow> wp (inner_catch p e) (\<lambda>_. thread_ok) (\<lambda>_ _. False) s"
proof -
  have other: "wp (sbind (say_peer q b a) (\<lambda>_. set_phase Finished)) (\<lambda>_. thread_ok) (\<lambda>_ _. False) s"
    if "thread_ok s" for q b a and s :: "'a cstate"
    by (rule wp_seq_ok [OF say_peer_ok [OF that]]) (auto simp: wp_simps)
  have shut: "wp (sbind (say_peer q b a) (\<lambda>_. if w then sbind (say f) (\<lambda>_. set_phase Waiting) else set_phase Finished))
      (\<lambda>_. thread_ok) (\<lambda>_ _. False) s"
    if "thread_ok s" for q b a w f and s :: "'a cstate"
    by (rule wp_seq_ok [OF say_peer_ok [OF that]]) (auto simp: wp_simps)
  assume ok: "thread_ok s"
  then have "thread_ok (False, snd s)" by (simp add: thread_ok_def)
  then show ?thesis
    using other [OF ok] shut by (cases e) (auto simp: inner_catch_def wp_simps case_prod_beta)
qed

lemma outer_catch_ok: "thread_ok s \<Longrightarrow> wp (outer_catch e) (\<lambda>_. thread_ok) (\<lambda>_ _. False) s"
  unfolding outer_catch_def by (rule wp_seq_ok [OF say_peer_ok]) (auto simp: wp_simps)

lemma guarded_ok:
  assumes "wp m (\<lambda>_. thread_ok) (\<lambda>e s. is_std_exception e \<and> thread_ok s) s"
  shows "thread_ok (guarded p m s)"
proof -
  have "wp (scatch (scatch m (inner_catch p)) outer_catch) (\<lambda>_. thread_ok) (\<lambda>_ _. False) s"
    unfolding wp_catch
    by (rule wp_mono [OF assms]) (auto intro!: wp_mono [OF inner_catch_ok])
  then show ?thesis
    by (auto simp: guarded_def wp_def split: prod.splits sum.splits)
qed

lemma on_streams_ok:
  assumes "\<And>e is'. m (c_in (snd s), c_env (snd s)) = (Inl e, is') \<Longrightarrow> is_std_exception e" "thread_ok s"
  shows "wp (on_streams m) (\<lambda>_. thread_ok) (\<lambda>e s. is_std_exception e \<and> thread_ok s) s"
  using assms by (cases s) (auto simp: on_streams_def wp_def split: prod.splits sum.splits)

definition throws_std :: "('s, 'a) sx \<Rightarrow> bool" where
  "throws_std m \<longleftrightarrow> raises is_std_exception m"

lemma say_peer_std:
  "thread_ok s \<Longrightarrow> wp (say_peer p b a) (\<lambda>_. thread_ok) (\<lambda>e s. is_std_exception e \<and> thread_ok s) s"
  by (rule wp_mono [OF say_peer_ok]) auto

lemma begin_connection_ok:
  assumes "\<And>w. welcome = Some w \<Longrightarrow> throws_std (w status)" "thread_ok s"
  shows "wp (begin_connection p welcome status) (\<lambda>_. thread_ok) (\<lambda>e s. is_std_exception e \<and> thread_ok s) s"
proof -
  have w: "is_std_exception e" if "write_welcome welcome status (i, en) = (Inl e, t)" for i en e t
    using assms(1) that by (auto simp: write_welcome_def throws_std_def split: option.splits prod.splits dest: raisesD)
  have "wp (if log_connections p then say_peer NOTICE b a else sskip) (\<lambda>_. thread_ok)
    (\<lambda>e s. is_std_exception e \<and> thread_ok s) s" for b a
    using assms(2) say_peer_std [OF assms(2)] by (auto simp: wp_simps)
  then show ?thesis
    unfolding begin_connection_def
    by (rule wp_seq_ok) (rule wp_seq_ok [OF on_streams_ok], auto simp: wp_simps dest: w)
qed

lemma serve_one_ok:
  assumes "\<And>line st. throws_std (handler line st)" "thread_ok s"
  shows "wp (serve_one p handler status) (\<lambda>_. thread_ok) (\<lambda>e s. is_std_exception e \<and> thread_ok s) s"
proof -
  have h: "is_std_exception e" if "handle_line n handler status run (i, en) = (Inl e, t)" for n run i en e t
  proof -
    have "is_std_exception e" if "handler l st x = (Inl e, t)" for l st x
      using raisesD [OF assms(1) [unfolded throws_std_def] that] .
    then show ?thesis
      using that by (auto simp: handle_line_def getline_def assertion_def split: if_splits prod.splits)
  qed
  have fin: "wp (end_connection p) (\<lambda>_. thread_ok) (\<lambda>e s. is_std_exception e \<and> thread_ok s) s" if "thread_ok s" for s
    unfolding end_connection_def
    by (rule wp_seq_ok [where I = thread_ok]) (use that say_peer_std [OF that] in \<open>auto simp: wp_simps\<close>)
  have "wp (sbind (on_streams (handle_line (max_line_length p) handler status run)) (\<lambda>go. if go then sskip else end_connection p))
    (\<lambda>_. thread_ok) (\<lambda>e s. is_std_exception e \<and> thread_ok s) s" for run
    by (rule wp_seq_ok [OF on_streams_ok [OF h assms(2)]]) (use fin in \<open>auto simp: wp_simps\<close>)
  then show ?thesis by (simp add: serve_one_def wp_simps)
qed

lemma conn_step_ok:
  assumes "\<And>line st. throws_std (handler line st)" "\<And>w st. welcome = Some w \<Longrightarrow> throws_std (w st)" "thread_ok s"
  shows "thread_ok (conn_step p welcome handler status s)"
proof (cases "phase (snd s)")
  case Starting
  have "thread_ok (guarded p (begin_connection p welcome status) s)"
    by (rule guarded_ok, rule begin_connection_ok) (use assms in auto)
  then show ?thesis using Starting assms(3) by (cases s) (auto simp: conn_step_def)
next
  case Reading
  have "thread_ok (guarded p (serve_one p handler status) s)"
    by (rule guarded_ok, rule serve_one_ok) (use assms in auto)
  then show ?thesis using Reading by (simp add: conn_step_def)
next
  case Waiting
  then show ?thesis using assms(3) by (cases s) (simp add: conn_step_def wait_close_def thread_ok_def)
qed (use assms(3) in \<open>simp_all add: conn_step_def\<close>)

lemma listen_loop_None:
  assumes "listen_loop (Suc n) i runs p serve k s = None"
  shows "\<exists>k' t. (n_listen_retries p < 0 \<or> (k' = k + 1 \<and> k' \<le> n_listen_retries p))
    \<and> listen_loop n (Suc i) runs p serve k' t = None"
proof -
  obtain r s1 where "listen_once p serve s = (r, s1)" by (rule prod.exhaust)
  with assms obtain e where e: "listen_once p serve s = (Inl e, s1)" "runs i" by (cases r) (auto split: if_splits)
  obtain r3 o3 l3 where s3: "on_os (sleep (listen_retry_time p)) (snd (listen_error p e s1)) = (r3, o3, l3)" by (rule prod_cases3)
  show ?thesis
    using assms e s3 by (cases r3) (auto simp: Let_def split: if_splits)
qed

section \<open>Properties\<close>


definition sample_handler :: "string list handler" where
  "sample_handler line st s = (Inr (line \<noteq> ''quit''), (fst s, snd s @ [line]))"


text \<open>C19: No exception leaves the thread of a connection, which would terminate the program, if the handler
  and the welcome function throw only exceptions derived from \<^verbatim>\<open>std::exception\<close> and the address of the
  peer can be printed: in no step, whatever the input, the status and the running flag.\<close>

theorem connection_thread_never_throws:
  assumes "\<And>line st. throws_std (handler line st)" "\<And>w st. welcome = Some w \<Longrightarrow> throws_std (w st)"
    and "\<And>k. is_ok (peer c k)" "phase c \<noteq> Terminated"
  shows "phase (snd (conn_step p welcome handler status (run, c))) \<noteq> Terminated"
proof -
  have "thread_ok (conn_step p welcome handler status (run, c))"
    by (rule conn_step_ok) (use assms in \<open>auto simp: thread_ok_def\<close>)
  then show ?thesis by (simp add: thread_ok_def)
qed

lemma connection_thread_never_throws_witness:
  "phase (snd (conn_step default_parameters None (\<lambda>_ _. sthrow (Runtime_error ''x'')) (new_status default_parameters)
     (True, (new_conn (istream_of (''a'' @ [newline_char])) () (\<lambda>_. Inr ''peer''))\<lparr>phase := Reading\<rparr>))) \<noteq> Terminated"
  by (rule connection_thread_never_throws) (auto simp: throws_std_def raises_def new_conn_def)

text \<open>If the address cannot be printed the program is terminated, since both exception handlers print it
  once more.\<close>

lemma unprintable_peer_terminates:
  "log_connections p \<Longrightarrow>
     phase (snd (conn_step p welcome handler status (True, new_conn is e (\<lambda>_. Inl (Runtime_error m))))) = Terminated"
  by (simp add: conn_step_def new_conn_def guarded_def scatch_def begin_connection_def say_peer_def ask_peer_def
      say_def inner_catch_def outer_catch_def sbind_def)

text \<open>\<open>run_server\<close> retries at most as often as the parameter says. With a limit that is not negative
  the loop ends after at most one turn more than the limit: the bound of the model is never reached,
  whatever the system answers, and so the function returns or throws.\<close>

theorem run_server_gives_up:
  assumes "0 \<le> n_listen_retries p" "nat (n_listen_retries p) < n"
  shows "run_server n runs p serve has_sl s \<noteq> None"
proof -
  have "retries \<le> n_listen_retries p \<Longrightarrow> nat (n_listen_retries p - retries) < m \<Longrightarrow>
    listen_loop m i runs p serve retries t \<noteq> None" for m i retries t
  proof (induction m arbitrary: i retries t)
    case (Suc m)
    show ?case
    proof
      assume "listen_loop (Suc m) i runs p serve retries t = None"
      from listen_loop_None [OF this] assms(1) obtain u where
        "retries + 1 \<le> n_listen_retries p" "listen_loop m (Suc i) runs p serve (retries + 1) u = None" by auto
      then show False using Suc.IH [of "retries + 1"] Suc.prems by simp
    qed
  qed simp
  from this [of 0 n] assms have "listen_loop n i runs p serve 0 t \<noteq> None" for i t by simp
  then obtain x where "listen_loop n 0 runs p serve 0 (fst s, if has_sl then snd s else new_slog) = Some x"
    by blast
  then show ?thesis by (cases x; cases "fst x") (simp_all add: run_server_def)
qed

lemma run_server_gives_up_witness:
  "run_server 1 (\<lambda>_. True) (default_parameters\<lparr>service := ''80'', n_listen_retries := 0\<rparr>) (\<lambda>_. sret ()) True
     (sample_os [Gai 8], new_slog) \<noteq> None"
  by (rule run_server_gives_up) simp_all

text \<open>Without a log stream of the caller, the manager of a server in the background keeps a pointer to
  one that is gone when its destructor uses it.\<close>

lemma manager_uses_destroyed_log:
  "run_server n runs p serve False s = Some (Inr m, s') \<Longrightarrow> joinable m \<Longrightarrow>
     fst (destroy_manager m join t) = Inl (Undefined ''destroyed log stream'')"
  by (auto simp: run_server_def destroy_manager_def split: option.splits sum.splits)

end
