(* ===== verification/Server_Run.thy ===== *)
theory Server_Run
  imports Server
begin

text \<open>
  The running server: the listening thread (\<open>server_thread\<close> of \<^verbatim>\<open>src/sys/server.cpp\<close>) and the detached
  threads of the connections as a step relation over the shared state, which is the running flag and
  the status. The listening thread owns the status; the properties say that no connection outlives
  it, how many connections are accepted after a shutdown request, and that a shutdown completes.
\<close>

section \<open>State\<close>

text \<open>Where the listening thread is: before the test of the flag, inside the \<^verbatim>\<open>try\<close> block, in the \<open>n\<close>th turn
  of the last loop, at its end, or left by an exception.\<close>

datatype lphase = Checking | Accepting | Draining nat | Stopped | Escaped

record 'e server =
  running :: bool
  status :: server_status
  rates :: connection_rates
  listener :: lphase
  llog :: slog
  conns :: "'e conn list"

definition new_server :: "server_parameters \<Rightarrow> string \<Rightarrow> 'e server result" where
  "new_server p local =
     rbind (new_rates p) (\<lambda>r.
     Inr \<lparr>running = True, status = new_status p, rates = r, listener = Checking,
          llog = lg_entry NOTICE (''Listening for incoming connections on '' @ local) (log_params p True new_slog),
          conns = []\<rparr>)"

text \<open>A thread that has left its function and whose members have been destroyed is gone.\<close>

definition live :: "'e conn \<Rightarrow> bool" where
  "live c \<longleftrightarrow> phase c \<noteq> Gone"

definition program_runs :: "'e server \<Rightarrow> bool" where
  "program_runs s \<longleftrightarrow> (\<forall>c \<in> set (conns s). phase c \<noteq> Terminated)"

section \<open>The listening thread\<close>

definition l_check :: "'e server \<Rightarrow> 'e server" where
  "l_check s =
     (if running s then s\<lparr>listener := Accepting\<rparr>
      else s\<lparr>listener := Draining 0, llog := lg_entry NOTICE ''Service loop terminated and shutdown initiated...'' (llog s)\<rparr>)"

definition count_connection :: "double \<Rightarrow> 'e server \<Rightarrow> 'e server" where
  "count_connection now s =
     (let r = update_rates now (rates s); st = update_status r (status s)
      in s\<lparr>rates := r, status := st\<lparr>connections_total := connections_total st + 1\<rparr>\<rparr>)"

definition l_accept :: "double \<Rightarrow> 'e conn \<Rightarrow> 'e server \<Rightarrow> 'e server" where
  "l_accept now c s0 =
     (let s = count_connection now s0
      in s\<lparr>status := (status s)\<lparr>connections_current := connections_current (status s) + 1\<rparr>,
           conns := conns s @ [c], listener := Checking\<rparr>)"

definition l_timeout :: "'e server \<Rightarrow> 'e server" where
  "l_timeout s = s\<lparr>listener := Checking\<rparr>"

text \<open>Another exception, in the block, before or after the connection has been counted; a signal
  makes \<open>sleep\<close> throw.\<close>

definition l_failure :: "string \<Rightarrow> bool \<Rightarrow> 'e server \<Rightarrow> 'e server" where
  "l_failure w slept s =
     s\<lparr>llog := lg_error ''Failed to handle incoming connection'' w (llog s),
       listener := (if slept then Checking else Escaped)\<rparr>"

definition l_drain :: "nat \<Rightarrow> bool \<Rightarrow> 'e server \<Rightarrow> 'e server" where
  "l_drain n slept s =
     (let count = connections_current (status s)
      in if 0 = count then s\<lparr>llog := lg_entry NOTICE ''Service shutdown complete'' (llog s), listener := Stopped\<rparr>
         else
           s\<lparr>llog := (if 0 = n mod 10
                       then lg_entry NOTICE (''Waiting for '' @ int_to_string count
                              @ '' connection(s) to exit: Time [s]: '' @ nat_to_string n) (llog s)
                       else llog s),
             listener := (if slept then Draining (Suc n) else Escaped)\<rparr>)"

section \<open>The threads of the connections\<close>

definition t_step :: "server_parameters \<Rightarrow> 'e os_writer option \<Rightarrow> 'e handler \<Rightarrow> nat \<Rightarrow> 'e server \<Rightarrow> 'e server" where
  "t_step p welcome handler i s =
     (case conn_step p welcome handler (status s) (running s, conns s ! i) of
        (run, c) \<Rightarrow> s\<lparr>running := run, conns := (conns s)[i := c]\<rparr>)"

text \<open>The end of the thread object: the counter sentry decrements the count.\<close>

definition t_release :: "nat \<Rightarrow> 'e server \<Rightarrow> 'e server" where
  "t_release i s =
     s\<lparr>conns := (conns s)[i := (conns s ! i)\<lparr>phase := Gone\<rparr>],
       status := (status s)\<lparr>connections_current := connections_current (status s) - 1\<rparr>\<rparr>"

section \<open>Steps\<close>

inductive sstep :: "server_parameters \<Rightarrow> 'e os_writer option \<Rightarrow> 'e handler \<Rightarrow> 'e server \<Rightarrow> 'e server \<Rightarrow> bool"
  for p :: server_parameters and wel :: "'e os_writer option" and handler :: "'e handler" where
  s_check: "program_runs s \<Longrightarrow> listener s = Checking \<Longrightarrow> sstep p wel handler s (l_check s)"
| s_accept: "program_runs s \<Longrightarrow> listener s = Accepting \<Longrightarrow>
    sstep p wel handler s (l_accept now (new_conn is e pr) s)"
| s_timeout: "program_runs s \<Longrightarrow> listener s = Accepting \<Longrightarrow> sstep p wel handler s (l_timeout s)"
| s_failure: "program_runs s \<Longrightarrow> listener s = Accepting \<Longrightarrow> sstep p wel handler s (l_failure w slept s)"
| s_failure_late: "program_runs s \<Longrightarrow> listener s = Accepting \<Longrightarrow>
    sstep p wel handler s (l_failure w slept (count_connection now s))"
| s_drain: "program_runs s \<Longrightarrow> listener s = Draining n \<Longrightarrow> sstep p wel handler s (l_drain n slept s)"
| s_thread: "program_runs s \<Longrightarrow> i < length (conns s) \<Longrightarrow> phase (conns s ! i) \<in> {Starting, Reading, Waiting} \<Longrightarrow>
    sstep p wel handler s (t_step p wel handler i s)"
| s_release: "program_runs s \<Longrightarrow> i < length (conns s) \<Longrightarrow> phase (conns s ! i) = Finished \<Longrightarrow>
    sstep p wel handler s (t_release i s)"
| s_shutdown: "program_runs s \<Longrightarrow> sstep p wel handler s (s\<lparr>running := False\<rparr>)"

inductive_cases sstepE: "sstep p wel handler s s'"

inductive sreach :: "server_parameters \<Rightarrow> 'e os_writer option \<Rightarrow> 'e handler \<Rightarrow> 'e server \<Rightarrow> 'e server \<Rightarrow> bool"
  for p :: server_parameters and wel :: "'e os_writer option" and handler :: "'e handler" and s :: "'e server" where
  r_refl: "sreach p wel handler s s"
| r_step: "sreach p wel handler s s1 \<Longrightarrow> sstep p wel handler s1 s2 \<Longrightarrow> sreach p wel handler s s2"

lemma sreach_trans: "sreach p w h s2 s3 \<Longrightarrow> sreach p w h s1 s2 \<Longrightarrow> sreach p w h s1 s3"
  by (induction rule: sreach.induct) (auto intro: sreach.intros)

lemma sreach_one: "sstep p w h s s' \<Longrightarrow> sreach p w h s s'"
  by (rule r_step [OF r_refl])

section \<open>Facts\<close>

lemma sel_simps [simp]:
  "running (count_connection now s) = running s" "conns (count_connection now s) = conns s"
  "listener (count_connection now s) = listener s"
  "connections_current (status (count_connection now s)) = connections_current (status s)"
  by (simp_all add: count_connection_def Let_def update_status_def)

text \<open>A step of a thread keeps the flag false, and does not make the thread disappear.\<close>

definition quiet_phase :: "'e cstate \<Rightarrow> 'e cstate \<Rightarrow> bool" where
  "quiet_phase s s' \<longleftrightarrow> (\<not> fst s \<longrightarrow> \<not> fst s') \<and> (phase (snd s) \<noteq> Gone \<longrightarrow> phase (snd s') \<noteq> Gone)"

definition keeps :: "('e cstate, 'a) sx \<Rightarrow> bool" where
  "keeps m \<longleftrightarrow> (\<forall>s. quiet_phase s (snd (m s)))"

lemma quiet_phase_trans: "quiet_phase s s1 \<Longrightarrow> quiet_phase s1 s2 \<Longrightarrow> quiet_phase s s2"
  by (auto simp: quiet_phase_def)

lemma keeps_bind: "keeps m \<Longrightarrow> (\<And>x. keeps (k x)) \<Longrightarrow> keeps (sbind m k)"
  unfolding keeps_def sbind_def
  by (auto split: prod.splits sum.splits intro: quiet_phase_trans) (metis quiet_phase_trans snd_conv)+

lemma keeps_catch: "keeps m \<Longrightarrow> (\<And>e. keeps (h e)) \<Longrightarrow> keeps (scatch m h)"
  unfolding keeps_def scatch_def
  by (auto split: prod.splits sum.splits intro: quiet_phase_trans) (metis quiet_phase_trans snd_conv)+

lemma keeps_basic:
  "keeps sskip" "keeps (sgets g)" "keeps (say f)" "ph \<noteq> Gone \<Longrightarrow> keeps (set_phase ph)" "keeps ask_peer"
  "keeps (on_streams m)" "keeps (smod (\<lambda>(run, c). (False, c)))"
  by (auto simp: keeps_def quiet_phase_def say_def set_phase_def ask_peer_def on_streams_def split: prod.splits)

lemma keeps_say_peer: "keeps (say_peer q b a)"
  unfolding say_peer_def by (intro keeps_bind keeps_basic)

lemma keeps_if: "keeps m \<Longrightarrow> keeps k \<Longrightarrow> keeps (if b then m else k)"
  by simp

lemma keeps_inner: "keeps (inner_catch p e)"
  by (cases e) (auto simp: inner_catch_def intro!: keeps_bind keeps_if keeps_basic keeps_say_peer)

lemma keeps_outer: "keeps (outer_catch e)"
  by (auto simp: outer_catch_def intro!: keeps_bind keeps_basic keeps_say_peer)

lemma keeps_guarded: "keeps m \<Longrightarrow> quiet_phase s (guarded p m s)"
proof -
  assume "keeps m"
  then have "keeps (scatch (scatch m (inner_catch p)) outer_catch)"
    by (intro keeps_catch keeps_inner keeps_outer)
  then have "quiet_phase s (snd (scatch (scatch m (inner_catch p)) outer_catch s))"
    unfolding keeps_def by blast
  then show ?thesis
    by (auto simp: guarded_def quiet_phase_def split: prod.splits sum.splits)
qed

lemma conn_step_keeps: "quiet_phase s (conn_step p welcome handler st s)"
proof -
  have e: "keeps (end_connection p)"
    unfolding end_connection_def by (intro keeps_bind keeps_if keeps_basic keeps_say_peer) simp
  have "keeps (begin_connection p welcome st)" "keeps (serve_one p handler st)"
    unfolding begin_connection_def serve_one_def
    by (intro keeps_bind keeps_if keeps_basic keeps_say_peer e; simp)+
  from this [THEN keeps_guarded, of s p] show ?thesis
    by (cases s) (auto simp: conn_step_def quiet_phase_def wait_close_def split: cphase.splits)
qed

text \<open>The invariant: the counter is the number of threads that are not gone, and when the listening
  thread has stopped there is none.\<close>

definition counted :: "'e server \<Rightarrow> bool" where
  "counted s \<longleftrightarrow> connections_current (status s) = int (length (filter live (conns s)))
     \<and> (listener s = Stopped \<longrightarrow> filter live (conns s) = [])"

lemma t_step_sel:
  "listener (t_step p wel handler i s) = listener s" "status (t_step p wel handler i s) = status s"
  "conns (t_step p wel handler i s)
     = (conns s)[i := snd (conn_step p wel handler (status s) (running s, conns s ! i))]"
  "running (t_step p wel handler i s) = fst (conn_step p wel handler (status s) (running s, conns s ! i))"
  by (simp_all add: t_step_def case_prod_beta)

lemma no_live: "filter live cs = [] \<Longrightarrow> i < length cs \<Longrightarrow> phase (cs ! i) = Gone"
  by (simp add: filter_empty_conv live_def)

lemma sstep_counted: "sstep p wel handler s s' \<Longrightarrow> counted s \<Longrightarrow> counted s'"
proof (induction rule: sstep.induct)
  case (s_thread s i)
  let ?c = "snd (conn_step p wel handler (status s) (running s, conns s ! i))"
  have l: "live (conns s ! i)" "live ?c"
    using s_thread.hyps(3) conn_step_keeps [of "(running s, conns s ! i)" p wel handler "status s"]
    by (auto simp: live_def quiet_phase_def)
  then have "length (filter live ((conns s)[i := ?c])) = length (filter live (conns s))"
    using length_filter_update [OF s_thread.hyps(2), of live ?c] by simp
  moreover have "listener s \<noteq> Stopped"
    using s_thread no_live [of "conns s" i] by (auto simp: counted_def)
  ultimately show ?case using s_thread.prems by (simp add: counted_def t_step_sel)
next
  case (s_release s i)
  have "live (conns s ! i)" using s_release.hyps(3) by (simp add: live_def)
  then have "Suc (length (filter live ((conns s)[i := (conns s ! i)\<lparr>phase := Gone\<rparr>]))) = length (filter live (conns s))"
    using length_filter_update [OF s_release.hyps(2), of live "(conns s ! i)\<lparr>phase := Gone\<rparr>"] by (simp add: live_def)
  moreover have "listener s \<noteq> Stopped"
    using s_release no_live [of "conns s" i] by (auto simp: counted_def)
  ultimately show ?case using s_release.prems by (simp add: counted_def t_release_def)
qed (auto simp: counted_def l_check_def l_accept_def Let_def l_timeout_def l_failure_def l_drain_def live_def new_conn_def)

lemma sreach_counted: "sreach p wel handler s s' \<Longrightarrow> counted s \<Longrightarrow> counted s'"
  by (induction rule: sreach.induct) (auto intro: sstep_counted)

lemma new_server_sel:
  assumes "new_server p local = Inr s"
  shows "running s" "conns s = []" "listener s = Checking" "connections_current (status s) = 0"
  using assms by (auto simp: new_server_def new_status_def rbind_Inr_iff)

lemma new_server_counted: "new_server p local = Inr s \<Longrightarrow> counted s"
  using new_server_sel [of p local s] by (simp add: counted_def)

text \<open>After a request to shut down.\<close>

lemma sstep_stays_down: "sstep p wel handler s s' \<Longrightarrow> \<not> running s \<Longrightarrow> \<not> running s'"
proof (induction rule: sstep.induct)
  case (s_thread s i)
  then show ?case
    using conn_step_keeps [of "(running s, conns s ! i)" p wel handler "status s"]
    by (simp add: t_step_sel quiet_phase_def)
qed (auto simp: l_check_def l_accept_def Let_def l_timeout_def l_failure_def l_drain_def t_release_def)

definition late_ok :: "'e conn list \<Rightarrow> nat \<Rightarrow> bool" where
  "late_ok cs n \<longleftrightarrow> (\<forall>i. n \<le> i \<and> i < length cs \<longrightarrow> phase (cs ! i) \<in> {Starting, Finished, Gone})"

lemma late_ok_update:
  "late_ok cs n \<Longrightarrow> (n \<le> i \<Longrightarrow> phase c \<in> {Starting, Finished, Gone}) \<Longrightarrow> late_ok (cs[i := c]) n"
proof -
  assume a: "late_ok cs n" "n \<le> i \<Longrightarrow> phase c \<in> {Starting, Finished, Gone}"
  have "phase (cs[i := c] ! j) \<in> {Starting, Finished, Gone}" if "n \<le> j" "j < length cs" for j
    using a that by (cases "j = i") (auto simp: late_ok_def)
  then show ?thesis by (simp add: late_ok_def)
qed

lemma sstep_after_shutdown:
  assumes "sstep p wel handler s s'" "\<not> running s" "late_ok (conns s) n"
    "n \<le> length (conns s)" "length (conns s) + (if listener s = Accepting then 1 else 0) \<le> m"
  shows "late_ok (conns s') n \<and> n \<le> length (conns s')
    \<and> length (conns s') + (if listener s' = Accepting then 1 else 0) \<le> m"
  using assms
proof (induction rule: sstep.induct)
  case (s_thread s i)
  let ?c = "snd (conn_step p wel handler (status s) (running s, conns s ! i))"
  have "phase ?c = Finished" if "n \<le> i"
    using that s_thread by (auto simp: late_ok_def conn_step_def)
  then have "late_ok ((conns s)[i := ?c]) n" by (intro late_ok_update) (use s_thread.prems in auto)
  then show ?case using s_thread.prems by (simp add: t_step_sel)
next
  case (s_release s i)
  then have "late_ok ((conns s)[i := (conns s ! i)\<lparr>phase := Gone\<rparr>]) n" by (intro late_ok_update) auto
  then show ?case using s_release.prems by (simp add: t_release_def)
qed (auto simp: l_check_def l_accept_def Let_def l_timeout_def l_failure_def l_drain_def late_ok_def new_conn_def
      nth_append split: if_splits)

text \<open>A thread whose peer can be printed ends with its next step when the flag is false.\<close>

lemma conn_step_down:
  assumes "\<And>k. is_ok (peer c k)" "phase c \<in> {Starting, Reading, Waiting}"
  shows "phase (snd (conn_step p wel handler st (False, c))) = Finished
    \<and> peer (snd (conn_step p wel handler st (False, c))) = peer c"
proof -
  obtain a where "peer c (asked c) = Inr a" using assms(1) [of "asked c"] by (cases "peer c (asked c)") auto
  then show ?thesis
    using assms(2)
    by (auto simp: conn_step_def guarded_def scatch_def serve_one_def end_connection_def on_streams_def handle_line_def
        say_peer_def ask_peer_def say_def set_phase_def sbind_def wait_close_def)
qed

definition printable :: "'e server \<Rightarrow> bool" where
  "printable s \<longleftrightarrow> (\<forall>c \<in> set (conns s). (\<forall>k. is_ok (peer c k)) \<and> phase c \<noteq> Terminated)"

lemma printable_runs: "printable s \<Longrightarrow> program_runs s"
  by (auto simp: printable_def program_runs_def)

lemma printable_update:
  "printable s \<Longrightarrow> (\<forall>k. is_ok (peer c k)) \<Longrightarrow> phase c \<noteq> Terminated \<Longrightarrow> conns t = (conns s)[i := c] \<Longrightarrow> printable t"
  unfolding printable_def using set_update_subset_insert [of "conns s" i c] by auto

text \<open>So one live thread can be brought to its end.\<close>

lemma finish_one:
  assumes "\<not> running s" "printable s" "i < length (conns s)" "phase (conns s ! i) = Finished"
  shows "sstep p wel handler s (t_release i s) \<and> \<not> running (t_release i s) \<and> printable (t_release i s)
    \<and> listener (t_release i s) = listener s
    \<and> Suc (length (filter live (conns (t_release i s)))) = length (filter live (conns s))"
proof -
  let ?c = "(conns s ! i)\<lparr>phase := Gone\<rparr>"
  have "sstep p wel handler s (t_release i s)"
    by (rule s_release) (use assms in \<open>auto simp: printable_runs\<close>)
  moreover have "printable (t_release i s)"
    by (rule printable_update [OF assms(2), of ?c _ i]) (use assms in \<open>auto simp: t_release_def printable_def\<close>)
  moreover have "Suc (length (filter live ((conns s)[i := ?c]))) = length (filter live (conns s))"
    using length_filter_update [OF assms(3), of live ?c] assms(4) by (simp add: live_def)
  ultimately show ?thesis using assms(1) by (simp add: t_release_def)
qed

lemma end_one:
  assumes "\<not> running s" "printable s" "filter live (conns s) \<noteq> []"
  shows "\<exists>s'. sreach p wel handler s s' \<and> \<not> running s' \<and> printable s' \<and> listener s' = listener s
    \<and> Suc (length (filter live (conns s'))) = length (filter live (conns s))"
proof -
  obtain i where i: "i < length (conns s)" "live (conns s ! i)"
    using assms(3) by (auto simp: filter_empty_conv in_set_conv_nth)
  have ok: "\<And>k. is_ok (peer (conns s ! i) k)" "phase (conns s ! i) \<noteq> Terminated"
    using assms(2) i(1) by (auto simp: printable_def)
  show ?thesis
  proof (cases "phase (conns s ! i) = Finished")
    case True
    from finish_one [OF assms(1,2) i(1) True] show ?thesis by (blast intro: sreach_one)
  next
    case False
    then have ph: "phase (conns s ! i) \<in> {Starting, Reading, Waiting}"
      using ok(2) i(2) by (cases "phase (conns s ! i)") (auto simp: live_def)
    let ?s = "t_step p wel handler i s" and ?c = "snd (conn_step p wel handler (status s) (running s, conns s ! i))"
    have st: "sstep p wel handler s ?s"
      by (rule s_thread) (use i(1) ph assms(2) in \<open>auto simp: printable_runs\<close>)
    have c: "phase ?c = Finished" "peer ?c = peer (conns s ! i)"
      using conn_step_down [of "conns s ! i" p wel handler "status s"] ok(1) ph assms(1) by auto
    have d: "\<not> running ?s" by (rule sstep_stays_down [OF st assms(1)])
    have pr: "printable ?s"
      by (rule printable_update [OF assms(2), of ?c _ i]) (use c ok in \<open>auto simp: t_step_sel\<close>)
    have i': "i < length (conns ?s)" "phase (conns ?s ! i) = Finished"
      using i(1) c(1) by (simp_all add: t_step_sel)
    have "length (filter live (conns ?s)) = length (filter live (conns s))"
      using length_filter_update [OF i(1), of live ?c] i(2) c(1) by (simp add: t_step_sel live_def)
    moreover from finish_one [OF d pr i', of p wel handler] have
      "sreach p wel handler s (t_release i ?s)" using st by (blast intro: r_step r_refl)
    ultimately show ?thesis
      using finish_one [OF d pr i', of p wel handler] t_step_sel(1) by (intro exI [of _ "t_release i ?s"]) simp
  qed
qed

lemma end_all:
  "\<not> running s \<Longrightarrow> printable s \<Longrightarrow>
     \<exists>s'. sreach p wel handler s s' \<and> \<not> running s' \<and> printable s' \<and> listener s' = listener s
       \<and> filter live (conns s') = []"
proof (induction "length (filter live (conns s))" arbitrary: s)
  case 0
  then show ?case by (intro exI [of _ s]) (simp add: r_refl)
next
  case (Suc n)
  then have "filter live (conns s) \<noteq> []" by auto
  from end_one [OF Suc.prems this, of p wel handler] obtain s1 where s1: "sreach p wel handler s s1" "\<not> running s1" "printable s1"
    "listener s1 = listener s" "Suc (length (filter live (conns s1))) = length (filter live (conns s))" by blast
  with Suc.hyps(1) [of s1] Suc.hyps(2) obtain s2 where "sreach p wel handler s1 s2" "\<not> running s2" "printable s2"
    "listener s2 = listener s1" "filter live (conns s2) = []" by auto
  then show ?case using s1 sreach_trans by metis
qed

lemma stop_idle:
  assumes "\<not> running s" "printable s" "counted s" "filter live (conns s) = []" "listener s \<noteq> Escaped"
  shows "\<exists>s'. sreach p wel handler s s' \<and> listener s' = Stopped"
proof -
  have drain: "\<exists>s'. sreach p wel handler t s' \<and> listener s' = Stopped"
    if "listener t = Draining n" "program_runs t" "connections_current (status t) = 0" for t :: "'a server" and n
    using that s_drain [of t n p wel handler True]
    by (intro exI [of _ "l_drain n True t"]) (auto simp: l_drain_def intro: sreach_one)
  have check: "\<exists>s'. sreach p wel handler t s' \<and> listener s' = Stopped"
    if "listener t = Checking" "program_runs t" "connections_current (status t) = 0" "\<not> running t" for t :: "'a server"
  proof -
    have "sstep p wel handler t (l_check t)" by (rule s_check) (use that in auto)
    moreover have "listener (l_check t) = Draining 0" "program_runs (l_check t)" "connections_current (status (l_check t)) = 0"
      using that by (simp_all add: l_check_def program_runs_def)
    ultimately show ?thesis using drain sreach_trans sreach_one by metis
  qed
  have z: "connections_current (status s) = 0" "program_runs s"
    using assms by (simp_all add: counted_def printable_runs)
  show ?thesis
  proof (cases "listener s")
    case Accepting
    have "sstep p wel handler s (l_timeout s)" by (rule s_timeout) (use Accepting z in auto)
    moreover have "\<exists>s'. sreach p wel handler (l_timeout s) s' \<and> listener s' = Stopped"
      by (rule check) (use z assms(1) in \<open>simp_all add: l_timeout_def program_runs_def\<close>)
    ultimately show ?thesis using sreach_trans sreach_one by metis
  next
    case Stopped
    then show ?thesis using r_refl by blast
  qed (use check drain z assms in blast)+
qed

lemma one_connection:
  assumes "new_server q local = Inr s0"
  shows "\<exists>s. sreach p wel handler s0 s \<and> listener s = Accepting \<and> running s \<and> conns s = [new_conn is e pr]"
proof -
  note i = new_server_sel [OF assms]
  let ?c = "new_conn is e pr"
  let ?s1 = "l_check s0"
  let ?s2 = "l_accept (Fin 0) ?c ?s1"
  let ?s3 = "l_check ?s2"
  have s1: "sstep p wel handler s0 ?s1" by (rule s_check) (use i in \<open>auto simp: program_runs_def\<close>)
  have l1: "listener ?s1 = Accepting" "conns ?s1 = []" "running ?s1" using i by (simp_all add: l_check_def)
  have s2: "sstep p wel handler ?s1 ?s2" by (rule s_accept) (use l1 in \<open>auto simp: program_runs_def\<close>)
  have l2: "listener ?s2 = Checking" "conns ?s2 = [?c]" "running ?s2" using l1 by (simp_all add: l_accept_def Let_def)
  have s3: "sstep p wel handler ?s2 ?s3" by (rule s_check) (use l2 in \<open>auto simp: program_runs_def new_conn_def\<close>)
  have "listener ?s3 = Accepting" "conns ?s3 = [?c]" "running ?s3" using l2 by (simp_all add: l_check_def)
  then show ?thesis using r_step [OF r_step [OF r_step [OF r_refl s1] s2] s3] by blast
qed

text \<open>A server for examples.\<close>

definition sample_parameters :: server_parameters where
  "sample_parameters =
     default_parameters\<lparr>C_cps_slow := Fin (1 / 2), C_cps_medium := Fin (1 / 2), C_cps_fast := Fin (1 / 2)\<rparr>"

lemma sample_server: "\<exists>s0. new_server sample_parameters ''0.0.0.0:80'' = Inr s0"
  by (simp add: new_server_def new_rates_def sample_parameters_def new_rate_estimator_def new_moving_average_def
      assertion_def)

section \<open>Properties\<close>



text \<open>C18: After a request to shut down the flag stays false, and at most one more connection is accepted, the
  one the listening thread was already waiting for. No line of a connection accepted after the
  request is read: its thread ends at once.\<close>

theorem shutdown_accepts_at_most_one:
  assumes "sreach p wel handler s s'" "\<not> running s"
  shows "\<not> running s' \<and> length (conns s') \<le> length (conns s) + (if listener s = Accepting then 1 else 0)
    \<and> (\<forall>i. length (conns s) \<le> i \<and> i < length (conns s') \<longrightarrow> phase (conns s' ! i) \<in> {Starting, Finished, Gone})"
proof -
  let ?m = "length (conns s) + (if listener s = Accepting then 1 else 0)"
  have "\<not> running s' \<and> late_ok (conns s') (length (conns s)) \<and> length (conns s) \<le> length (conns s')
    \<and> length (conns s') + (if listener s' = Accepting then 1 else 0) \<le> ?m"
    using assms(1)
  proof (induction rule: sreach.induct)
    case r_refl
    then show ?case using assms(2) by (auto simp: late_ok_def)
  next
    case (r_step s1 s2)
    then show ?case
      using sstep_after_shutdown [of p wel handler s1 s2 "length (conns s)" ?m] sstep_stays_down by blast
  qed
  then show ?thesis by (auto simp: late_ok_def split: if_splits)
qed

lemma shutdown_accepts_at_most_one_witness:
  "\<exists>(s :: string list server) s'. \<not> running s \<and> sreach sample_parameters None sample_handler s s' \<and> listener s = Accepting
     \<and> length (conns s') = Suc (length (conns s)) \<and> \<not> running s'"
proof -
  obtain s0 where s0: "new_server sample_parameters ''0.0.0.0:80'' = Inr (s0 :: string list server)"
    using sample_server by blast
  obtain s where s: "sreach sample_parameters None sample_handler s0 s" "listener s = Accepting"
    "conns s = [new_conn (istream_of []) [] (\<lambda>_. Inr ''peer'')]"
    using one_connection [OF s0, of sample_parameters None sample_handler "istream_of []" "[]" "\<lambda>_. Inr ''peer''"] by blast
  let ?s = "s\<lparr>running := False\<rparr>" and ?c = "new_conn (istream_of []) [] (\<lambda>_. Inr ''peer'')"
  have "sstep sample_parameters None sample_handler ?s (l_accept (Fin 1) ?c ?s)"
    by (rule s_accept) (use s in \<open>auto simp: program_runs_def new_conn_def\<close>)
  then have r: "sreach sample_parameters None sample_handler ?s (l_accept (Fin 1) ?c ?s)" by (rule sreach_one)
  have "length (conns (l_accept (Fin 1) ?c ?s)) = Suc (length (conns ?s))" by (simp add: l_accept_def Let_def)
  then show ?thesis
    using r shutdown_accepts_at_most_one [OF r] s by (intro exI [of _ ?s] exI [of _ "l_accept (Fin 1) ?c ?s"]) simp
qed



text \<open>An exception that leaves the listening thread, which an interrupted \<open>sleep\<close> can cause, destroys the
  status while a connection still uses it.\<close>

lemma escaped_with_live_connection:
  fixes s0 :: "'e server"
  assumes "new_server p local = Inr s0"
  shows "\<exists>s. sreach p wel handler s0 s \<and> listener s = Escaped \<and> (\<exists>c \<in> set (conns s). live c)"
proof -
  let ?c = "new_conn (istream_of []) (undefined :: 'e) (\<lambda>_. Inr [])"
  obtain s where s: "sreach p wel handler s0 s" "listener s = Accepting" "conns s = [?c]"
    using one_connection [OF assms, of p wel handler "istream_of []" undefined "\<lambda>_. Inr []"] by blast
  have "sstep p wel handler s (l_failure [] False s)"
    by (rule s_failure) (use s in \<open>auto simp: program_runs_def new_conn_def\<close>)
  then have "sreach p wel handler s0 (l_failure [] False s)" by (rule r_step [OF s(1)])
  moreover have "listener (l_failure [] False s) = Escaped" "conns (l_failure [] False s) = [?c]"
    using s by (simp_all add: l_failure_def)
  ultimately show ?thesis by (intro exI [of _ "l_failure [] False s"]) (simp add: live_def new_conn_def)
qed

end
