(* ===== verification/Owning_Streams.thy ===== *)
theory Owning_Streams
  imports Streambuf
begin

text \<open>
  Ownership of the stream buffers of \<^verbatim>\<open>nanonet/util.h\<close>: \<^verbatim>\<open>buffer_maker\<close>, \<^verbatim>\<open>owning_ostream\<close> and
  \<^verbatim>\<open>owning_istream\<close>, what moving them does to the buffers and to the error flags, and the destructors,
  which shut the connection down. The reader_writer is the parameter of theory Streambuf, with
  \<open>sd\<close> for \<^verbatim>\<open>shutdown_write\<close> and \<open>sr\<close> for \<^verbatim>\<open>shutdown_read\<close>.
\<close>

section \<open>Output streams\<close>

text \<open>A stream that owns its buffer; \<open>own_bad\<close> is \<^verbatim>\<open>badbit\<close>. Setting a buffer with \<^verbatim>\<open>rdbuf(&mybuf)\<close>
  calls \<^verbatim>\<open>clear()\<close>, so the new stream is good.\<close>

record owning_ostream =
  own_bad :: bool
  own_buf :: obuf

definition owning_ostream_from :: "obuf \<Rightarrow> owning_ostream \<times> obuf" where
  "owning_ostream_from buf =
     (case move_ostreambuf buf of (mybuf, rest) \<Rightarrow> (\<lparr>own_bad = False, own_buf = mybuf\<rparr>, rest))"

text \<open>From a buffer maker: \<open>mk\<close> is its \<^verbatim>\<open>make_ostreambuf()\<close>, whose result is a temporary.\<close>

definition owning_ostream_make :: "obuf result \<Rightarrow> owning_ostream result" where
  "owning_ostream_make mk = rbind mk (\<lambda>buf. Inr (fst (owning_ostream_from buf)))"

text \<open>The move constructor: the new stream, and what is left of the other one, whose flags stay.\<close>

definition move_owning_ostream :: "owning_ostream \<Rightarrow> owning_ostream \<times> owning_ostream" where
  "move_owning_ostream other =
     (case move_ostreambuf (own_buf other) of
        (mybuf, rest) \<Rightarrow> (\<lparr>own_bad = False, own_buf = mybuf\<rparr>, other\<lparr>own_buf := rest\<rparr>))"

definition ob_reader_writer :: "obuf \<Rightarrow> unit result" where
  "ob_reader_writer b = c_assert (ob_rw b) ''rw''"

text \<open>
  A program that uses a stream and moves it around: the stream in use, the ones that were moved
  from, the latest first, and the world. At the end they are destroyed in the reverse order of
  their construction.
\<close>

record 'w owners =
  ow_cur :: owning_ostream
  ow_moved :: "owning_ostream list"
  ow_world :: 'w

datatype own_op = On os_op | Move

fun own_do :: "(string \<Rightarrow> ('w, int) sx) \<Rightarrow> own_op \<Rightarrow> ('w owners, unit) sx" where
  "own_do wr (On x) s =
     (case os_do wr x (own_bad (ow_cur s), own_buf (ow_cur s), ow_world s) of
        (r, bad, b, w) \<Rightarrow> (r, s\<lparr>ow_cur := \<lparr>own_bad = bad, own_buf = b\<rparr>, ow_world := w\<rparr>))"
| "own_do wr Move s =
     (case move_owning_ostream (ow_cur s) of
        (new, other) \<Rightarrow> (Inr (), s\<lparr>ow_cur := new, ow_moved := other # ow_moved s\<rparr>))"

fun own_run :: "(string \<Rightarrow> ('w, int) sx) \<Rightarrow> own_op list \<Rightarrow> ('w owners, unit) sx" where
  "own_run wr [] = sret ()"
| "own_run wr (x # xs) = sbind (own_do wr x) (\<lambda>_. own_run wr xs)"

fun destroy_ostreams :: "(string \<Rightarrow> ('w, int) sx) \<Rightarrow> ('w, unit) sx \<Rightarrow> owning_ostream list \<Rightarrow> ('w, unit) sx" where
  "destroy_ostreams wr sd [] w = (Inr (), w)"
| "destroy_ostreams wr sd (x # xs) w =
     (case ob_destroy wr sd (own_buf x, w) of
        (Inl e, b, w') \<Rightarrow> (Inl e, w')
      | (Inr _, b, w') \<Rightarrow> destroy_ostreams wr sd xs w')"

definition own_end :: "(string \<Rightarrow> ('w, int) sx) \<Rightarrow> ('w, unit) sx \<Rightarrow> 'w owners \<Rightarrow> unit result \<times> 'w" where
  "own_end wr sd s = destroy_ostreams wr sd (ow_cur s # ow_moved s) (ow_world s)"

fun own_text :: "own_op \<Rightarrow> string" where
  "own_text (On x) = op_text x"
| "own_text Move = []"

definition own_start :: "owning_ostream \<Rightarrow> 'w \<Rightarrow> 'w owners" where
  "own_start o1 w = \<lparr>ow_cur = o1, ow_moved = [], ow_world = w\<rparr>"

section \<open>Input streams\<close>

text \<open>An input buffer with its reader_writer, which the destructor and the accessor ask for.\<close>

record istreambuf =
  is_rw :: bool
  is_buf :: ibuffer

text \<open>
  The move constructor. The other object keeps the pointers of its get area, which point into the
  memory that the new object has now; only its put area is reset, which an input buffer does not
  use. Its own memory is empty.
\<close>

record stale =
  st_eback :: nat
  st_gptr :: nat
  st_egptr :: nat

definition move_istreambuf :: "istreambuf \<Rightarrow> istreambuf \<times> stale" where
  "move_istreambuf other =
     (other, \<lparr>st_eback = ib_eback (is_buf other), st_gptr = ib_gptr (is_buf other), st_egptr = ib_egptr (is_buf other)\<rparr>)"

text \<open>Taking a character from the object that was moved from, while the memory is that of \<open>b\<close>.\<close>

definition stale_sbumpc :: "ibuffer \<Rightarrow> stale \<Rightarrow> (char \<times> stale) result" where
  "stale_sbumpc b st =
     (if st_gptr st < st_egptr st then Inr (ib_mem b ! st_gptr st, st\<lparr>st_gptr := st_gptr st + 1\<rparr>)
      else Inl (Undefined ''memmove in an empty buffer''))"

definition is_reader_writer :: "istreambuf \<Rightarrow> unit result" where
  "is_reader_writer i = c_assert (is_rw i) ''rw''"

definition is_destroy :: "('w, unit) sx \<Rightarrow> istreambuf \<Rightarrow> ('w, unit) sx" where
  "is_destroy sr i = (if is_rw i then sr else sret ())"

text \<open>The destructor of an object that was moved from: its \<^verbatim>\<open>rw\<close> is empty.\<close>

definition stale_destroy :: "('w, unit) sx \<Rightarrow> stale \<Rightarrow> ('w, unit) sx" where
  "stale_destroy sr st = sret ()"

record owning_istream =
  oi_eof :: bool
  oi_fail :: bool
  oi_buf :: istreambuf

definition owning_istream_from :: "istreambuf \<Rightarrow> owning_istream \<times> stale" where
  "owning_istream_from buf =
     (case move_istreambuf buf of (mybuf, rest) \<Rightarrow> (\<lparr>oi_eof = False, oi_fail = False, oi_buf = mybuf\<rparr>, rest))"

definition owning_istream_make :: "istreambuf result \<Rightarrow> owning_istream result" where
  "owning_istream_make mk = rbind mk (\<lambda>buf. Inr (fst (owning_istream_from buf)))"

text \<open>\<^verbatim>\<open>std::istream(std::move(other))\<close> takes over the flags, and \<^verbatim>\<open>rdbuf(&mybuf)\<close> clears them.\<close>

definition set_rdbuf :: "owning_istream \<Rightarrow> istreambuf \<Rightarrow> owning_istream" where
  "set_rdbuf i buf = i\<lparr>oi_eof := False, oi_fail := False, oi_buf := buf\<rparr>"

definition move_owning_istream :: "owning_istream \<Rightarrow> owning_istream \<times> stale" where
  "move_owning_istream other =
     (case move_istreambuf (oi_buf other) of (mybuf, rest) \<Rightarrow> (set_rdbuf other mybuf, rest))"

section \<open>Facts\<close>

text \<open>An operation on the stream leaves the reader_writer of its buffer alone.\<close>

lemma ob_flush_frame:
  "ob_flush wr (b, w) = (r, b', w') \<Longrightarrow> ob_live b' = ob_live b \<and> ob_rw b' = ob_rw b"
  by (auto simp: ob_flush_def Let_def split: if_splits prod.splits sum.splits)

lemma sputc_frame:
  "sputc wr c (b, w) = (r, b', w') \<Longrightarrow> ob_live b' = ob_live b \<and> ob_rw b' = ob_rw b"
  by (auto simp: sputc_def ob_overflow_def dest!: ob_flush_frame split: if_splits)

lemma xsputn_frame:
  "xsputn wr str (b, w) = (r, b', w') \<Longrightarrow> ob_live b' = ob_live b \<and> ob_rw b' = ob_rw b"
proof (induction str arbitrary: b w r)
  case (Cons c cs)
  obtain r1 b1 w1 where 1: "sputc wr c (b, w) = (r1, b1, w1)" by (rule prod_cases3)
  obtain r2 b2 w2 where 2: "xsputn wr cs (b1, w1) = (r2, b2, w2)" by (rule prod_cases3)
  show ?case
    using Cons.prems sputc_frame [OF 1] Cons.IH [of b1 w1] 1 2
    by (cases r1; cases r2) (auto simp: sbind_def split: if_splits)
qed auto

lemma os_do_frame:
  assumes "os_do wr x (bad, b, w) = (r, bad', b', w')"
  shows "ob_live b' = ob_live b \<and> ob_rw b' = ob_rw b"
proof -
  have fl: "ob_live b2 = ob_live b1 \<and> ob_rw b2 = ob_rw b1"
    if "os_flush wr (bad1, b1, w1) = (r2, bad2, b2, w2)" for bad1 b1 w1 r2 bad2 b2 w2
    using that ob_flush_frame [of wr b1 w1]
    by (auto simp: os_flush_def ob_sync_def sbind_def split: if_splits prod.splits sum.splits)
  have wt: "ob_live b2 = ob_live b1 \<and> ob_rw b2 = ob_rw b1"
    if "os_write wr str (bad1, b1, w1) = (r2, bad2, b2, w2)" for str bad1 b1 w1 r2 bad2 b2 w2
    using that xsputn_frame [of wr str b1 w1]
    by (auto simp: os_write_def split: if_splits prod.splits sum.splits)
  show ?thesis
  proof (cases x)
    case Endl
    obtain r1 bad1 b1 w1 where 1: "os_write wr [newline_char] (bad, b, w) = (r1, bad1, b1, w1)"
      by (rule prod_cases4)
    show ?thesis
      using assms Endl 1 wt [OF 1] fl [of bad1 b1 w1 r bad' b' w']
      by (cases r1) (auto simp: os_endl_def sbind_def)
  qed (use assms wt fl in auto)
qed

text \<open>How every write moves the world, the operations of the stream move it: for an order on the states of
  the world, and so for what the writes leave alone.\<close>

definition moves_by :: "(string \<Rightarrow> ('w, int) sx) \<Rightarrow> ('w \<Rightarrow> 'w \<Rightarrow> bool) \<Rightarrow> bool" where
  "moves_by wr R \<longleftrightarrow> reflp R \<and> transp R \<and> (\<forall>d w. R w (snd (wr d w)))"

lemma moves_byD:
  assumes "moves_by wr R"
  shows "R w w" "R w1 w2 \<Longrightarrow> R w2 w3 \<Longrightarrow> R w1 w3" "wr d w = (r, w') \<Longrightarrow> R w w'"
  using assms unfolding moves_by_def by (auto dest: reflpD transpD) (metis snd_conv)

definition kept_by :: "(string \<Rightarrow> ('w, int) sx) \<Rightarrow> ('w \<Rightarrow> 'a) \<Rightarrow> bool" where
  "kept_by wr f \<longleftrightarrow> (\<forall>d w. f (snd (wr d w)) = f w)"

lemma kept_byD: "kept_by wr f \<Longrightarrow> wr d w = (r, w') \<Longrightarrow> f w' = f w"
  by (metis kept_by_def snd_conv)

lemma kept_byI: "(\<And>d w r w'. wr d w = (r, w') \<Longrightarrow> f w' = f w) \<Longrightarrow> kept_by wr f"
  by (metis kept_by_def prod.collapse)

lemma ob_flush_moves:
  assumes "moves_by wr R" "ob_flush wr (b, w) = (r, b', w')"
  shows "R w w'"
  using assms(2) moves_byD [OF assms(1)]
  by (auto simp: ob_flush_def Let_def split: if_splits prod.splits sum.splits)

lemma sputc_moves:
  assumes "moves_by wr R" "sputc wr c (b, w) = (r, b', w')"
  shows "R w w'"
  using assms(2) ob_flush_moves [OF assms(1)] moves_byD(1) [OF assms(1)]
  by (auto simp: sputc_def ob_overflow_def split: if_splits)

lemma xsputn_moves:
  assumes "moves_by wr R"
  shows "xsputn wr str (b, w) = (r, b', w') \<Longrightarrow> R w w'"
proof (induction str arbitrary: b w r)
  case (Cons c cs)
  obtain r1 b1 w1 where 1: "sputc wr c (b, w) = (r1, b1, w1)" by (rule prod_cases3)
  obtain r2 b2 w2 where 2: "xsputn wr cs (b1, w1) = (r2, b2, w2)" by (rule prod_cases3)
  show ?case
    using Cons.prems sputc_moves [OF assms 1] Cons.IH [of b1 w1] 1 2 moves_byD(2) [OF assms, of w w1 w']
    by (cases r1; cases r2) (auto simp: sbind_def split: if_splits)
qed (use moves_byD(1) [OF assms] in auto)

lemma os_do_moves:
  assumes "moves_by wr R" "os_do wr x (bad, b, w) = (r, bad', b', w')"
  shows "R w w'"
proof -
  have fl: "R w1 w2" if "os_flush wr (bad1, b1, w1) = (r2, bad2, b2, w2)" for bad1 b1 w1 r2 bad2 b2 w2
    using that ob_flush_moves [OF assms(1), of b1 w1] moves_byD(1) [OF assms(1)]
    by (auto simp: os_flush_def ob_sync_def sbind_def split: if_splits prod.splits sum.splits)
  have wt: "R w1 w2" if "os_write wr str (bad1, b1, w1) = (r2, bad2, b2, w2)" for str bad1 b1 w1 r2 bad2 b2 w2
    using that xsputn_moves [OF assms(1), of str b1 w1] moves_byD(1) [OF assms(1)]
    by (auto simp: os_write_def split: if_splits prod.splits sum.splits)
  show ?thesis
  proof (cases x)
    case Endl
    obtain r1 bad1 b1 w1 where 1: "os_write wr [newline_char] (bad, b, w) = (r1, bad1, b1, w1)"
      by (rule prod_cases4)
    show ?thesis
      using assms(2) Endl 1 wt [OF 1] fl [of bad1 b1 w1 r bad' b' w'] moves_byD(2) [OF assms(1), of w w1 w']
      by (cases r1) (auto simp: os_endl_def sbind_def)
  qed (use assms(2) wt fl in auto)
qed

lemma os_run_moves:
  assumes "moves_by wr R"
  shows "os_run wr xs (bad, b, w) = (r, bad', b', w') \<Longrightarrow> R w w'"
proof (induction xs arbitrary: bad b w)
  case (Cons x xs)
  obtain r1 bad1 b1 w1 where 1: "os_do wr x (bad, b, w) = (r1, bad1, b1, w1)" by (rule prod_cases4)
  show ?case
    using Cons.prems 1 os_do_moves [OF assms 1] Cons.IH [of bad1 b1 w1] moves_byD(2) [OF assms, of w w1 w']
    by (cases r1) (auto simp: sbind_def)
qed (simp add: moves_byD(1) [OF assms])

lemma kept_moves: "kept_by wr f \<Longrightarrow> moves_by wr (\<lambda>w w'. f w' = f w)"
  by (auto simp: kept_by_def moves_by_def intro!: reflpI transpI)

lemmas ob_flush_world = ob_flush_moves [OF kept_moves]
lemmas os_do_world = os_do_moves [OF kept_moves]
lemmas os_run_world = os_run_moves [OF kept_moves]

text \<open>A buffer that was moved from does nothing when it is destroyed.\<close>

definition dead :: "owning_ostream \<Rightarrow> bool" where
  "dead x \<longleftrightarrow> \<not> ob_rw (own_buf x) \<and> \<not> ob_live (own_buf x)"

lemma destroy_dead: "list_all dead xs \<Longrightarrow> destroy_ostreams wr sd xs w = (Inr (), w)"
  by (induction xs) (auto simp: dead_def ob_destroy_def)

lemma own_do_live:
  assumes "own_do wr x s = (Inr u, s')" "list_all dead (ow_moved s)"
    "ob_rw (own_buf (ow_cur s))" "ob_live (own_buf (ow_cur s))"
  shows "list_all dead (ow_moved s') \<and> ob_rw (own_buf (ow_cur s')) \<and> ob_live (own_buf (ow_cur s'))"
proof (cases x)
  case (On y)
  obtain r bad b w where y: "os_do wr y (own_bad (ow_cur s), own_buf (ow_cur s), ow_world s) = (r, bad, b, w)"
    by (rule prod_cases4)
  then show ?thesis using assms On os_do_frame [OF y] by auto
next
  case Move
  then show ?thesis using assms by (auto simp: move_owning_ostream_def move_ostreambuf_def dead_def)
qed

text \<open>The moved-from input buffer hands out once more what the new one has not yet read.\<close>

lemma moved_istreambuf_reads_twice:
  assumes "ib_gptr (is_buf i) < ib_egptr (is_buf i)" "move_istreambuf i = (new, st)"
  shows "\<exists>st'. stale_sbumpc (is_buf new) st = Inr (ib_mem (is_buf i) ! ib_gptr (is_buf i), st')
    \<and> fst (sbumpc rd (is_buf new, w)) = Inr (Some (ib_mem (is_buf i) ! ib_gptr (is_buf i)))"
  using assms by (auto simp: move_istreambuf_def stale_sbumpc_def sbumpc_def underflow_def sbind_def)

text \<open>Moving a stream forgets that it has failed, or that it has reached the end of its input.\<close>

lemma move_forgets_errors:
  "\<not> own_bad (fst (move_owning_ostream os1)) \<and> \<not> oi_eof (fst (move_owning_istream is1))
   \<and> \<not> oi_fail (fst (move_owning_istream is1))"
  by (simp add: move_owning_ostream_def move_ostreambuf_def move_owning_istream_def move_istreambuf_def set_rdbuf_def)

text \<open>Writing to a stream that was moved from stores through a null pointer.\<close>

lemma write_to_moved_from:
  "\<not> own_bad o1 \<Longrightarrow> fst (os_do wr (Write [c]) (own_bad (snd (move_owning_ostream o1)), own_buf (snd (move_owning_ostream o1)), w))
     = Inl (Undefined ''write past the end of the buffer'')"
  by (simp add: move_owning_ostream_def move_ostreambuf_def os_write_def sbind_def sputc_def ob_overflow_def)

section \<open>A writer that can be shut down\<close>

locale closing_writer = writer wr sent
  for wr :: "string \<Rightarrow> ('w, int) sx" and sent :: "'w \<Rightarrow> string" +
  fixes sd :: "('w, unit) sx" and shuts :: "'w \<Rightarrow> nat"
  assumes shutdown_once: "sd w = (Inr u, w') \<Longrightarrow> shuts w' = Suc (shuts w) \<and> sent w' = sent w"
    and write_keeps_shuts: "wr d w = (r, w') \<Longrightarrow> shuts w' = shuts w"
begin

lemma shuts_kept: "kept_by wr shuts"
  using write_keeps_shuts by (rule kept_byI)

lemmas os_do_shuts = os_do_world [OF shuts_kept]

lemmas flush_shuts = ob_flush_world [OF shuts_kept]

text \<open>The invariant of a program that moves its stream: exactly the stream in use has the
  connection, and if none of the streams has failed, what was written is accounted for.\<close>

definition owned :: "string \<Rightarrow> 'w owners \<Rightarrow> bool" where
  "owned acc s \<longleftrightarrow> list_all dead (ow_moved s) \<and> ob_rw (own_buf (ow_cur s)) \<and> ob_live (own_buf (ow_cur s))
     \<and> (list_all (\<lambda>x. \<not> own_bad x) (ow_moved s) \<longrightarrow>
          stream_ok acc (own_bad (ow_cur s), own_buf (ow_cur s), ow_world s))"

lemma own_do_owned:
  assumes "owned acc s" "own_do wr x s = (Inr u, s')"
  shows "owned (acc @ own_text x) s' \<and> shuts (ow_world s') = shuts (ow_world s)"
proof -
  have live: "list_all dead (ow_moved s')" "ob_rw (own_buf (ow_cur s'))" "ob_live (own_buf (ow_cur s'))"
    using own_do_live [OF assms(2)] assms(1) by (simp_all add: owned_def)
  show ?thesis
  proof (cases x)
    case (On y)
    obtain r bad b w where y: "os_do wr y (own_bad (ow_cur s), own_buf (ow_cur s), ow_world s) = (r, bad, b, w)"
      by (rule prod_cases4)
    then have r: "r = Inr u" "s' = s\<lparr>ow_cur := \<lparr>own_bad = bad, own_buf = b\<rparr>, ow_world := w\<rparr>"
      using assms(2) On by auto
    have "stream_ok (acc @ op_text y) (bad, b, w)"
      if "stream_ok acc (own_bad (ow_cur s), own_buf (ow_cur s), ow_world s)"
      by (rule os_do_ok(1) [OF that]) (use y r in simp)
    then show ?thesis
      using assms(1) live r(2) os_do_shuts [OF y] On by (auto simp: owned_def)
  next
    case Move
    then show ?thesis
      using assms live by (auto simp: owned_def move_owning_ostream_def move_ostreambuf_def)
  qed
qed

lemma own_run_owned:
  "owned acc s \<Longrightarrow> own_run wr xs s = (Inr u, s') \<Longrightarrow>
     owned (acc @ concat (map own_text xs)) s' \<and> shuts (ow_world s') = shuts (ow_world s)"
proof (induction xs arbitrary: acc s)
  case (Cons x xs)
  from Cons.prems(2) obtain v s1 where "own_do wr x s = (Inr v, s1)" "own_run wr xs s1 = (Inr u, s')"
    by (auto elim: sbind_InrE)
  then show ?case
    using Cons.IH [of "acc @ own_text x" s1] own_do_owned [OF Cons.prems(1), of x v s1] by simp
qed simp

text \<open>At the end the connection is shut down once, and the rest of the buffer is sent unless the
  write fails.\<close>

lemma own_end_owned:
  assumes "owned acc s" "own_end wr sd s = (Inr u, w')"
  shows "shuts w' = Suc (shuts (ow_world s))
    \<and> (list_all (\<lambda>x. \<not> own_bad x) (ow_cur s # ow_moved s) \<longrightarrow> (\<exists>rest. acc = sent w' @ rest)
         \<and> (sent (ow_world s) = acc \<longrightarrow> sent w' = acc))"
proof -
  let ?b = "own_buf (ow_cur s)"
  have o: "list_all dead (ow_moved s)" "ob_rw ?b" "ob_live ?b" using assms(1) by (simp_all add: owned_def)
  obtain r b1 w1 where f: "ob_flush wr (?b, ow_world s) = (r, b1, w1)" by (rule prod_cases3)
  have d: "(\<exists>v. r = Inr v) \<and> (\<exists>v. sd w1 = (Inr v, w'))"
    using assms(2) o(2,3) f
    by (cases r) (auto simp: own_end_def ob_destroy_def ob_sync_def sbind_def destroy_dead [OF o(1)]
        split: prod.splits sum.splits)
  then obtain v v' where v: "r = Inr v" "sd w1 = (Inr v', w')" by blast
  have sh: "shuts w' = Suc (shuts (ow_world s))" "sent w' = sent w1"
    using shutdown_once [OF v(2)] flush_shuts [OF f] by simp_all
  have "(\<exists>rest. acc = sent w' @ rest) \<and> (sent (ow_world s) = acc \<longrightarrow> sent w' = acc)"
    if good: "\<not> own_bad (ow_cur s)" "list_all (\<lambda>x. \<not> own_bad x) (ow_moved s)"
  proof -
    have a: "account acc (?b, ow_world s)" using assms(1) good by (simp add: owned_def stream_ok_def)
    then have "if v then account acc (b1, w1) \<and> ob_data b1 = [] else failed acc (b1, w1)"
      using flush_wp [of "(?b, ow_world s)" v "(b1, w1)"] f v(1) by (auto simp: account_def split: if_splits)
    moreover have "sent w1 = acc" if "sent (ow_world s) = acc"
      using a that f by (simp add: account_def ob_flush_def split: if_splits)
    ultimately show ?thesis using sh(2) by (auto simp: account_def failed_def split: if_splits)
  qed
  then show ?thesis using sh(1) by auto
qed

lemma own_start_owned:
  assumes "new_ostreambuf True n = Inr b"
  shows "owned (sent w) (own_start (fst (owning_ostream_from b)) w)"
  using new_stream_ok [OF assms, of w] assms
  by (auto simp: owned_def own_start_def owning_ostream_from_def move_ostreambuf_def new_ostreambuf_def rbind_Inr_iff
      split: if_splits)

text \<open>Everything together: the life of a stream.\<close>

lemma own_life:
  assumes "owning_ostream_make (new_ostreambuf True n) = Inr o1"
    and "own_run wr xs (own_start o1 w) = (Inr u, s)" "own_end wr sd s = (Inr v, w')"
  shows "shuts w' = Suc (shuts w)
    \<and> (list_all (\<lambda>x. \<not> own_bad x) (ow_cur s # ow_moved s) \<longrightarrow>
         (\<exists>rest. sent w @ concat (map own_text xs) = sent w' @ rest)
         \<and> (sent (ow_world s) = sent w @ concat (map own_text xs) \<longrightarrow> sent w' = sent w @ concat (map own_text xs)))"
proof -
  obtain b where b: "new_ostreambuf True n = Inr b" "o1 = fst (owning_ostream_from b)"
    using assms(1) by (auto simp: owning_ostream_make_def rbind_Inr_iff)
  have "owned (sent w) (own_start o1 w)" unfolding b(2) by (rule own_start_owned [OF b(1)])
  from own_run_owned [OF this assms(2)] have o: "owned (sent w @ concat (map own_text xs)) s"
    "shuts (ow_world s) = shuts w" by (simp_all add: own_start_def)
  then show ?thesis using own_end_owned [OF o(1) assms(3)] by auto
qed

end

end
