(* ===== verification/Conn_Streams.thy ===== *)
theory Conn_Streams
  imports Owning_Streams Net
begin

text \<open>
  The streams of a TCP connection, \<^verbatim>\<open>instream\<close> and \<^verbatim>\<open>onstream\<close> of \<^verbatim>\<open>nanonet/sys/network.h\<close>: the owning
  streams of theory Owning_Streams on the sockets of theory Sockets. All buffers of a connection
  share its socket.
\<close>

section \<open>Buffers and streams of a connection\<close>

definition make_ostreambuf :: "connection \<Rightarrow> obuf result" where
  "make_ostreambuf c = new_ostreambuf True 1024"

definition make_istreambuf :: "connection \<Rightarrow> istreambuf result" where
  "make_istreambuf c = rbind (new_istreambuf 1024 4) (\<lambda>b. Inr \<lparr>is_rw = True, is_buf = b\<rparr>)"

definition make_onstream :: "connection \<Rightarrow> owning_ostream result" where
  "make_onstream c = owning_ostream_make (make_ostreambuf c)"

definition make_instream :: "connection \<Rightarrow> owning_istream result" where
  "make_instream c = owning_istream_make (make_istreambuf c)"

definition connection_shutdown_read :: "connection \<Rightarrow> (os, unit) sx" where
  "connection_shutdown_read c = socket_shutdown_read (con_fd c)"

definition connection_shutdown_write :: "connection \<Rightarrow> (os, unit) sx" where
  "connection_shutdown_write c = socket_shutdown_write (con_fd c)"

text \<open>The address of the other end, asked of the stream; a stream that was moved from fails the assertion of
  its buffer. \<open>fd\<close> is the descriptor of the socket that the stream shares.\<close>

definition onstream_peer :: "int \<Rightarrow> owning_ostream \<Rightarrow> (os, addr) sx" where
  "onstream_peer fd ons = sbind (slift (ob_reader_writer (own_buf ons))) (\<lambda>_. my_getpeername fd)"

definition instream_peer :: "int \<Rightarrow> owning_istream \<Rightarrow> (os, addr) sx" where
  "instream_peer fd ins = sbind (slift (is_reader_writer (oi_buf ins))) (\<lambda>_. my_getpeername fd)"

lemma peer_of_moved_stream:
  assumes "make_onstream c = Inr ons"
  shows "onstream_peer fd (fst (move_owning_ostream ons)) = my_getpeername fd"
    and "fst (onstream_peer fd (snd (move_owning_ostream ons)) w) = Inl (Abort ''rw'')"
  using assms
  by (auto simp: make_onstream_def make_ostreambuf_def owning_ostream_make_def owning_ostream_from_def new_ostreambuf_def
      move_owning_ostream_def move_ostreambuf_def onstream_peer_def ob_reader_writer_def c_assert_def sbind_def slift_def
      fun_eq_iff split: prod.splits)

lemma new_buffers:
  "make_ostreambuf c = Inr \<lparr>ob_rw = True, ob_size = 1024, ob_data = [], ob_live = True\<rparr>"
  "make_istreambuf c = Inr \<lparr>is_rw = True, is_buf = \<lparr>ib_size_pb = 4, ib_mem = replicate 1028 CHR 0x00,
     ib_eback = 4, ib_gptr = 4, ib_egptr = 4\<rparr>\<rparr>"
  by (simp_all add: make_ostreambuf_def new_ostreambuf_def make_istreambuf_def new_istreambuf_def)

section \<open>Sockets as closing writers\<close>

text \<open>How often sending has been shut down on a descriptor, and whether a send has failed.\<close>

fun shut_by :: "int \<Rightarrow> call \<times> answer \<Rightarrow> nat" where
  "shut_by fd (C_shutdown f wr, a) = (if f = fd \<and> wr then 1 else 0)"
| "shut_by fd _ = 0"

definition shut_writes :: "int \<Rightarrow> os \<Rightarrow> nat" where
  "shut_writes fd s = sum_list (map (shut_by fd) (trace s))"

lemma shut_eintr:
  assumes "eintr c s = (r, s')" "\<And>a. shut_by fd (c, a) = 0"
  shows "shut_writes fd s' = shut_writes fd s"
proof -
  from answers_split [of "answers s"] show ?thesis
  proof
    assume "\<exists>n. answers s = replicate n (Fail E_INTR)"
    then obtain n where "answers s = replicate n (Fail E_INTR)" by blast
    then show ?thesis using assms
    proof (induction n arbitrary: s)
      case 0
      then show ?case by (subst (asm) eintr.simps) (auto simp: sys_def)
    next
      case (Suc n)
      let ?t = "s\<lparr>answers := replicate n (Fail E_INTR), trace := trace s @ [(c, Fail E_INTR)], errno := E_INTR\<rparr>"
      have "eintr c s = eintr c ?t" using Suc.prems(1) by (intro eintr_interrupted) simp
      then have "shut_writes fd s' = shut_writes fd ?t" using Suc.prems(2,3) by (intro Suc.IH) simp_all
      then show ?case using Suc.prems(3) by (simp add: shut_writes_def)
    qed
  next
    assume "\<exists>n b as. answers s = replicate n (Fail E_INTR) @ b # as \<and> b \<noteq> Fail E_INTR"
    then obtain n b as where n: "answers s = replicate n (Fail E_INTR) @ b # as" "b \<noteq> Fail E_INTR" by blast
    from eintr_run [OF n, of c] assms(1)
    have "trace s' = trace s @ replicate n (c, Fail E_INTR) @ [(c, b)]" by auto
    then show ?thesis by (simp add: shut_writes_def assms(2) sum_list_replicate)
  qed
qed

lemma socket_write_shuts: "socket_write fd d w = (r, w') \<Longrightarrow> shut_writes fd w' = shut_writes fd w"
proof -
  assume "socket_write fd d w = (r, w')"
  moreover obtain x w1 where x: "eintr (socketsend fd d) w = (x, w1)" by (rule prod.exhaust)
  ultimately have "w' = w1"
    by (cases x) (auto simp: socket_write_def sbind_def slift_def c_assert_def split: if_splits)
  then show ?thesis using shut_eintr [OF x] by (simp add: socketsend_def)
qed

interpretation conn: closing_writer "socket_write fd" "sent_on fd" "socket_shutdown_write fd" "shut_writes fd"
  for fd
proof unfold_locales
  fix w u w'
  assume "socket_shutdown_write fd w = (Inr u, w')"
  then obtain a where "trace w' = trace w @ [(C_shutdown fd True, a)]"
    by (auto simp: socket_shutdown_write_def sys_def sbind_def split: list.splits)
  then show "shut_writes fd w' = Suc (shut_writes fd w) \<and> sent_on fd w' = sent_on fd w"
    by (simp add: shut_writes_def sent_on_def)
qed (rule socket_write_shuts)

section \<open>Properties\<close>



end
