(* ===== verification/Conn_Facts.thy ===== *)
theory Conn_Facts
  imports Conn_Streams
begin

text \<open>
  What the operations on a connection have in common: the destructor of an output stream and of the
  socket, progress of a read, the account of the characters read through a buffer, and what reading
  and writing leave alone. Theories Wget, Conn_Server, Conn_Thread and Listener rest on it.
\<close>

section \<open>Operations of the system in a larger state\<close>

definition on_sys :: "(os, 'a) sx \<Rightarrow> (os \<times> 'l, 'a) sx" where
  "on_sys m s = (case m (fst s) of (r, w) \<Rightarrow> (r, (w, snd s)))"

text \<open>The buffer of an output stream is destroyed.\<close>

definition destroy_onstream :: "connection \<Rightarrow> obuf \<Rightarrow> (os, unit) sx" where
  "destroy_onstream c b w =
     (case ob_destroy (socket_write (con_fd c)) (connection_shutdown_write c) (b, w) of (r, b', w') \<Rightarrow> (r, w'))"

lemma sfinally_on_sys:
  assumes "sfinally m (on_sys h) s = (r, (w', l'))"
  obtains r1 w1 where "m s = (r1, (w1, l'))" "h w1 = (Inr (), w')" "r = r1"
  | r1 w1 e where "m s = (r1, (w1, l'))" "h w1 = (Inl e, w')" "r = Inl e"
  | e where "m s = (Inl e, (w', l'))" "\<not> is_std_exception e" "r = Inl e"
proof -
  obtain r1 w1 l1 where m: "m s = (r1, (w1, l1))" by (rule prod_cases3)
  obtain x w2 where h: "h w1 = (x, w2)" by (rule prod.exhaust)
  show thesis
  proof (cases "\<exists>e. r1 = Inl e \<and> \<not> is_std_exception e")
    case True
    then show thesis using that(3) assms m by (auto simp: sfinally_def)
  next
    case False
    then have "r = (case x of Inl e \<Rightarrow> Inl e | Inr _ \<Rightarrow> r1)" "w' = w2" "l' = l1"
      using assms m h by (auto simp: sfinally_def sbind_def on_sys_def split: sum.splits)
    then show thesis using that(1,2) m h by (cases x) auto
  qed
qed

lemma sfinally_on_sys_Inr:
  assumes "sfinally m (on_sys h) s = (Inr x, (w', l'))"
  obtains w1 where "m s = (Inr x, (w1, l'))" "h w1 = (Inr (), w')"
  by (rule sfinally_on_sys [OF assms]) (use that in auto)

lemma new_instream: "make_instream c = Inr \<lparr>oi_eof = False, oi_fail = False, oi_buf =
    \<lparr>is_rw = True, is_buf = \<lparr>ib_size_pb = 4, ib_mem = replicate 1028 CHR 0x00, ib_eback = 4, ib_gptr = 4, ib_egptr = 4\<rparr>\<rparr>\<rparr>"
  by (simp add: make_instream_def new_buffers owning_istream_make_def owning_istream_from_def move_istreambuf_def)

lemma new_onstream: "make_onstream c = Inr \<lparr>own_bad = False,
    own_buf = \<lparr>ob_rw = True, ob_size = 1024, ob_data = [], ob_live = True\<rparr>\<rparr>"
  by (simp add: make_onstream_def new_buffers owning_ostream_make_def owning_ostream_from_def move_ostreambuf_def)

section \<open>Progress\<close>

text \<open>Reading makes progress: a character less in the buffer, or an answer less of the system.\<close>

definition progress :: "((ibuffer \<times> os) \<times> (ibuffer \<times> os)) set" where
  "progress = inv_image (less_than <*lex*> less_than) (\<lambda>(b, w). (length (answers w), ib_egptr b - ib_gptr b))"

lemma progress_wf [simp]: "wf progress"
  by (simp add: progress_def wf_lex_prod)

lemma progress_trans: "(s1, s2) \<in> progress \<Longrightarrow> (s2, s3) \<in> progress \<Longrightarrow> (s1, s3) \<in> progress"
  by (auto simp: progress_def split: prod.splits)

lemma receive_progress: "receive_with c n w = (Inr r, w') \<Longrightarrow> length (answers w') < length (answers w)"
  by (auto simp: receive_with_def elim!: sbind_InrE split: option.splits dest!: eintr_Inr)
    (auto simp: slift_def c_assert_def split: if_splits)

lemma sbumpc_progress:
  assumes "sbumpc (socket_read fd) s = (Inr r, s')"
  shows "(s', s) \<in> progress"
proof -
  obtain b w where s: "s = (b, w)" by (rule prod.exhaust)
  obtain s1 where u: "underflow (socket_read fd) (b, w) = (Inr r, s1)"
    "s' = (if r = None then s1 else ((fst s1)\<lparr>ib_gptr := ib_gptr (fst s1) + 1\<rparr>, snd s1))"
    using assms by (auto simp: s sbumpc_def elim!: sbind_InrE)
  show ?thesis
  proof (cases "ib_gptr b < ib_egptr b")
    case True
    then show ?thesis using u by (auto simp: s underflow_def progress_def)
  next
    case False
    then obtain d where "socket_read fd (length (ib_mem b) - ib_size_pb b) w = (Inr d, snd s1)"
      using u(1) by (auto simp: underflow_def Let_def split: prod.splits sum.splits option.splits if_splits)
    then have "length (answers (snd s1)) < length (answers w)"
      using receive_progress by (simp add: socket_read_def)
    then show ?thesis using u(2) by (cases s1) (auto simp: s progress_def)
  qed
qed

section \<open>Accounting for what is read\<close>

context reader
begin

text \<open>The account survives a failed read, which the putback area does not.\<close>

lemma underflow_account:
  assumes "in_account consumed s" "underflow rd s = (Inr r, s')"
  shows "in_account consumed s' \<and> (case r of
      None \<Rightarrow> received (snd s') = consumed
    | Some c \<Rightarrow> ib_gptr (fst s') < ib_egptr (fst s') \<and> ib_mem (fst s') ! ib_gptr (fst s') = c)"
proof -
  obtain b w where s: "s = (b, w)" by (rule prod.exhaust)
  have i: "ib_inv b" "received w = consumed @ unread b" using assms(1) s by (simp_all add: in_account_def)
  show ?thesis
  proof (cases "ib_gptr b < ib_egptr b")
    case True
    then show ?thesis using assms s by (auto simp: underflow_def)
  next
    case False
    then have n: "ib_gptr b = ib_egptr b" "unread b = []"
      using i(1) by (simp_all add: ib_inv_def unread_empty)
    define pb where "pb = ib_size_pb b"
    define k where "k = min (ib_gptr b - ib_eback b) pb"
    define m where "m = store (pb - k) (take k (drop (ib_gptr b - k) (ib_mem b))) (ib_mem b)"
    have ib: "pb < length (ib_mem b)" "1 \<le> pb" "k \<le> pb"
      using i(1) by (simp_all add: ib_inv_def pb_def k_def)
    have l: "length m = length (ib_mem b)" "pb < length (ib_mem b)" "1 \<le> pb"
      using ib i(1) by (simp_all add: m_def k_def ib_inv_def)
    obtain x w' where x: "rd (length (ib_mem b) - pb) w = (x, w')" by (rule prod.exhaust)
    obtain o1 where o1: "x = Inr o1" "r = (if o1 = None \<or> o1 = Some [] then None else Some (store pb (the o1) m ! pb))"
      "s' = (if o1 = None \<or> o1 = Some [] then (b\<lparr>ib_mem := m\<rparr>, w')
        else (b\<lparr>ib_mem := store pb (the o1) m, ib_eback := pb - k, ib_gptr := pb, ib_egptr := pb + length (the o1)\<rparr>, w'))"
      using assms(2) s False x
      by (auto simp: underflow_def Let_def m_def k_def pb_def split: sum.splits option.splits if_splits)
    show ?thesis
    proof (cases "o1 = None \<or> o1 = Some []")
      case True
      then have "received w' = received w" using x o1(1) read_error read_some [of _ w "[]" w'] by auto
      then show ?thesis using True i n l o1 by (simp add: in_account_def ib_inv_def unread_def)
    next
      case False
      then obtain d where d: "o1 = Some d" "d \<noteq> []" by auto
      have "length d \<le> length (ib_mem b) - pb" "received w' = consumed @ d"
        using read_some x o1(1) d(1) i(2) n(2) by auto
      then show ?thesis
        using o1 d l i(1) store_at [of pb m d] by (simp add: in_account_def ib_inv_def unread_def flip: pb_def)
    qed
  qed
qed

lemma sbumpc_account:
  assumes "in_account consumed s" "sbumpc rd s = (Inr r, s')"
  shows "case r of
      None \<Rightarrow> in_account consumed s' \<and> received (snd s') = consumed
    | Some c \<Rightarrow> in_account (consumed @ [c]) s'"
proof -
  obtain s1 where u: "underflow rd s = (Inr r, s1)"
    "s' = (if r = None then s1 else ((fst s1)\<lparr>ib_gptr := ib_gptr (fst s1) + 1\<rparr>, snd s1))"
    using assms(2) by (auto simp: sbumpc_def elim!: sbind_InrE)
  show ?thesis
  proof (cases r)
    case None
    then show ?thesis using underflow_account [OF assms(1) u(1)] u(2) by simp
  next
    case (Some c)
    then show ?thesis
      using underflow_account [OF assms(1) u(1)] u(2) unread_nonempty [of "fst s1"]
      by (auto simp: in_account_def ib_inv_def)
  qed
qed

end

section \<open>What reading and writing leave alone\<close>

definition read_keeps :: "(nat \<Rightarrow> ('w, string option) sx) \<Rightarrow> ('w \<Rightarrow> 'a) \<Rightarrow> bool" where
  "read_keeps rd f \<longleftrightarrow> (\<forall>n w. f (snd (rd n w)) = f w)"

lemma read_keepsD: "read_keeps rd f \<Longrightarrow> rd n w = (r, w') \<Longrightarrow> f w' = f w"
  by (metis read_keeps_def snd_conv)

lemma sbumpc_keeps: "read_keeps rd f \<Longrightarrow> sbumpc rd s = (r, s') \<Longrightarrow> f (snd s') = f (snd s)"
  by (auto simp: sbumpc_def sbind_def underflow_def Let_def dest: read_keepsD
      split: prod.splits sum.splits option.splits if_splits)

text \<open>The system calls of a socket.\<close>

lemma eintr_calls: "eintr c s = (r, s') \<Longrightarrow> \<exists>xs. trace s' = trace s @ xs \<and> (\<forall>x \<in> set xs. fst x = c)"
proof (cases r)
  case (Inl e)
  assume "eintr c s = (r, s')"
  with eintr_Inl_trace [of c s e s'] Inl obtain n where "trace s' = trace s @ replicate n (c, Fail E_INTR)" by blast
  then show ?thesis by auto
next
  case (Inr a)
  assume "eintr c s = (r, s')"
  with eintr_Inr [of c s a s'] Inr obtain n where "trace s' = trace s @ replicate n (c, Fail E_INTR) @ [(c, a)]" by blast
  then show ?thesis by auto
qed

lemma sum_calls: "\<forall>x \<in> set xs. fst x = c \<Longrightarrow> (\<And>a. g (c, a) = (0::int)) \<Longrightarrow> sum_list (map g xs) = 0"
  by (induction xs) auto

lemma concat_calls: "\<forall>x \<in> set xs. fst x = c \<Longrightarrow> (\<And>a. g (c, a) = []) \<Longrightarrow> concat (map g xs) = []"
  by (induction xs) auto

lemma socket_read_calls:
  "socket_read fd n w = (r, w') \<Longrightarrow> \<exists>xs. trace w' = trace w @ xs \<and> (\<forall>x \<in> set xs. fst x = C_recv fd n)"
proof -
  obtain x w1 where x: "eintr (C_recv fd n) w = (x, w1)" by (rule prod.exhaust)
  assume "socket_read fd n w = (r, w')"
  then have "w' = w1"
    using x by (auto simp: socket_read_def receive_with_def sbind_def slift_def split: sum.splits option.splits prod.splits)
  then show ?thesis using eintr_calls [OF x] by simp
qed

lemma socket_write_calls:
  "socket_write fd d w = (r, w') \<Longrightarrow> \<exists>xs. trace w' = trace w @ xs \<and> (\<forall>x \<in> set xs. fst x = C_send_nosignal fd d)"
proof -
  obtain x w1 where x: "eintr (C_send_nosignal fd d) w = (x, w1)" by (rule prod.exhaust)
  assume "socket_write fd d w = (r, w')"
  then have "w' = w1"
    using x by (auto simp: socket_write_def socketsend_def sbind_def slift_def split: sum.splits if_splits prod.splits)
  then show ?thesis using eintr_calls [OF x] by simp
qed

lemma socket_keeps:
  "read_keeps (socket_read fd) (balance f)" "read_keeps (socket_read fd) (sent_on fd)"
  "kept_by (socket_write fd) (balance f)" "kept_by (socket_write fd) (received_on fd)"
proof -
  have r: "balance f w' = balance f w \<and> sent_on fd w' = sent_on fd w" if rd: "socket_read fd n w = (r, w')" for n w r w'
  proof -
    obtain xs where xs: "trace w' = trace w @ xs" "\<forall>x \<in> set xs. fst x = C_recv fd n"
      using socket_read_calls [OF rd] by blast
    show ?thesis
      using sum_calls [OF xs(2), of "opens f"] concat_calls [OF xs(2), of "sent_by fd"]
      by (simp add: balance_def sent_on_def xs(1))
  qed
  have w: "balance f w' = balance f w \<and> received_on fd w' = received_on fd w" if wr: "socket_write fd d w = (r, w')" for d w r w'
  proof -
    obtain xs where xs: "trace w' = trace w @ xs" "\<forall>x \<in> set xs. fst x = C_send_nosignal fd d"
      using socket_write_calls [OF wr] by blast
    show ?thesis
      using sum_calls [OF xs(2), of "opens f"] concat_calls [OF xs(2), of "received_by fd"]
      by (simp add: balance_def received_on_def xs(1))
  qed
  show "read_keeps (socket_read fd) (balance f)" "read_keeps (socket_read fd) (sent_on fd)"
    using r [OF prod.collapse [symmetric]] by (simp_all add: read_keeps_def)
  show "kept_by (socket_write fd) (balance f)" "kept_by (socket_write fd) (received_on fd)"
    using w by (auto intro: kept_byI)
qed

lemma shutdown_keeps:
  assumes "socket_shutdown_read fd w = (r, w') \<or> socket_shutdown_write fd w = (r, w')"
  shows "balance f w' = balance f w" "sent_on fd w' = sent_on fd w" "received_on fd w' = received_on fd w"
  using assms
  by (auto simp: socket_shutdown_read_def socket_shutdown_write_def sys_def sbind_def balance_def sent_on_def received_on_def
      split: list.splits)

text \<open>The destructor of the output stream sends what is left in its buffer.\<close>

lemma destroy_onstream_keeps:
  assumes "kept_by (socket_write (con_fd c)) f" "destroy_onstream c b w = (r, w')"
    and "\<And>v x v'. socket_shutdown_write (con_fd c) v = (x, v') \<Longrightarrow> f v' = f v"
  shows "f w' = f w"
proof -
  obtain x b1 w1 where "ob_flush (socket_write (con_fd c)) (b, w) = (x, b1, w1)" by (rule prod_cases3)
  then show ?thesis
    using assms(2) ob_flush_world [OF assms(1), of b w x b1 w1] assms(3)
    by (auto simp: destroy_onstream_def ob_destroy_def ob_sync_def sbind_def connection_shutdown_write_def
        split: if_splits sum.splits prod.splits)
qed

lemma destroy_onstream_sent:
  assumes "ob_data b = []" "destroy_onstream c b w = (r, w')"
  shows "sent_on (con_fd c) w' = sent_on (con_fd c) w"
proof -
  have "ob_flush (socket_write (con_fd c)) (b, w) = (Inr True, (b, w))"
    using assms(1) by (simp add: ob_flush_def)
  then show ?thesis
    using assms(2) shutdown_keeps(2) [of "con_fd c" w]
    by (auto simp: destroy_onstream_def ob_destroy_def ob_sync_def sbind_def connection_shutdown_write_def
        split: if_splits prod.splits)
qed

text \<open>The socket of the connection, closed at the end.\<close>

lemma socket_destroy_keeps:
  assumes "socket_destroy fd w = (r, w')"
  shows "received_on fd w' = received_on fd w" "sent_on fd w' = sent_on fd w"
proof -
  obtain x w1 where c: "sys (C_close fd) w = (x, w1)" by (rule prod.exhaust)
  have "received_on fd w1 = received_on fd w" "sent_on fd w1 = sent_on fd w"
    using c by (auto simp: sys_def received_on_def sent_on_def split: list.splits)
  moreover have "received_on fd v' = received_on fd v" "sent_on fd v' = sent_on fd v"
    if "on_log m v = (y, v')" for m :: "(log_env, unit) sx" and v y v'
    using that by (auto simp: on_log_def received_on_def sent_on_def split: prod.splits)
  ultimately show "received_on fd w' = received_on fd w" "sent_on fd w' = sent_on fd w"
    using assms c by (auto simp: socket_destroy_def socket_dispose_def sbind_def sskip_def split: if_splits sum.splits)
qed

lemma new_connection_valid: "new_connection ra la t st = (Inr c, st') \<Longrightarrow> socket_valid (con_fd c)"
proof -
  assume "new_connection ra la t st = (Inr c, st')"
  then obtain s st1 where "connection_initialize ra la t st = (Inr s, st1)" "connection_of s st1 = (Inr c, st')"
    by (auto simp: new_connection_def elim: sbind_InrE)
  moreover from this(2) have "con_fd c = s"
    by (auto simp: connection_of_def on_exception_def sbind_def split: prod.splits sum.splits if_splits)
  ultimately show ?thesis using connection_initialize_valid by simp
qed

section \<open>Runs\<close>

text \<open>For runs on given answers, of which the state of the system only has those that are left.\<close>

lemma answer_step:
  "answers w = a # as \<Longrightarrow> \<exists>w'. sys c w = (Inr a, w') \<and> answers w' = as"
  "answers w = a # as \<Longrightarrow> a \<noteq> Fail E_INTR \<Longrightarrow> \<exists>w'. eintr c w = (Inr a, w') \<and> answers w' = as"
  by (simp_all add: sys_def eintr_answer)

lemma read_step:
  assumes "answers w = Data d # as" "length d \<le> n"
  shows "\<exists>w'. socket_read fd n w = (Inr (Some d), w') \<and> answers w' = as"
  using answer_step(2) [OF assms(1), of "C_recv fd n"] assms(2)
  by (auto simp: socket_read_def receive_with_def sbind_def c_assert_def slift_def)

lemma write_step:
  assumes "answers w = Ret (length d) # as"
  shows "\<exists>w'. socket_write fd d w = (Inr (int (length d)), w') \<and> answers w' = as"
  using answer_step(2) [OF assms, of "socketsend fd d"]
  by (auto simp: socket_write_def sbind_def c_assert_def slift_def)

text \<open>A text that fits into the buffer is written and flushed.\<close>

lemma request_step:
  assumes "answers w = Ret (length d) # as" "length d < 1024" "d \<noteq> []"
  shows "\<exists>w'. os_run (socket_write fd) [Write d, Flush] (False, \<lparr>ob_rw = True, ob_size = 1024, ob_data = [], ob_live = True\<rparr>, w)
    = (Inr (), False, \<lparr>ob_rw = True, ob_size = 1024, ob_data = [], ob_live = True\<rparr>, w') \<and> answers w' = as"
proof -
  let ?b = "\<lparr>ob_rw = True, ob_size = 1024, ob_data = [], ob_live = True\<rparr>"
  obtain w' where w': "socket_write fd d w = (Inr (int (length d)), w')" "answers w' = as"
    using write_step [OF assms(1)] by blast
  have x: "xsputn (socket_write fd) d (?b, w) = (Inr (length d), ?b\<lparr>ob_data := d\<rparr>, w)"
    using xsputn_fits [of ?b d "socket_write fd" w] assms(2) by simp
  have "ob_flush (socket_write fd) (?b\<lparr>ob_data := d\<rparr>, w) = (Inr True, (?b\<lparr>ob_data := d\<rparr>)\<lparr>ob_data := []\<rparr>, w')"
    by (rule ob_flush_ok) (use assms(2,3) w'(1) in auto)
  then show ?thesis
    using x w'(2) by (simp add: sbind_def os_write_def os_flush_def ob_sync_def)
qed

text \<open>Two characters that arrive together are read one after the other.\<close>

lemma read_two:
  assumes "answers w = Data [c, d] # as"
  shows "\<exists>m w'. length m = 1028 \<and> answers w' = as
    \<and> sbumpc (socket_read fd) (\<lparr>ib_size_pb = 4, ib_mem = replicate 1028 CHR 0x00, ib_eback = 4, ib_gptr = 4, ib_egptr = 4\<rparr>, w)
      = (Inr (Some c), \<lparr>ib_size_pb = 4, ib_mem = m, ib_eback = 4, ib_gptr = 5, ib_egptr = 6\<rparr>, w')
    \<and> (\<forall>v. sbumpc (socket_read fd) (\<lparr>ib_size_pb = 4, ib_mem = m, ib_eback = 4, ib_gptr = 5, ib_egptr = 6\<rparr>, v)
      = (Inr (Some d), \<lparr>ib_size_pb = 4, ib_mem = m, ib_eback = 4, ib_gptr = 6, ib_egptr = 6\<rparr>, v))"
proof -
  define m0 where "m0 = replicate 1028 CHR 0x00"
  define m where "m = store 4 [c, d] m0"
  have l: "length m0 = 1028" "length m = 1028" by (simp_all add: m0_def m_def)
  have nth: "m ! 4 = c" "m ! 5 = d" by (simp_all add: m_def store_def nth_append l(1))
  obtain w1 where w1: "socket_read fd 1024 w = (Inr (Some [c, d]), w1)" "answers w1 = as"
    using read_step [OF assms, of 1024 fd] by auto
  have "store 4 [] m0 = m0" by (simp add: store_def)
  then show ?thesis
    using w1 l nth
    by (intro exI [of _ m] exI [of _ w1]) (simp add: sbumpc_def sbind_def underflow_def Let_def flip: m_def m0_def)
qed

lemma to_timeval_0: "to_timeval (Fin 0) = Inr (0, 0)"
proof -
  have "to_double 1000000 = Fin 1000000" "to_double 0 = Fin 0"
    using to_double_of_int [of 1000000] to_double_of_int [of 0] by simp_all
  moreover have "\<lfloor>1 / 2 :: rat\<rfloor> = 0" by (rule floor_unique) simp_all
  ultimately show ?thesis
    by (simp add: to_timeval_def to_fractional_def c_assert_def assertion_def Let_def dsub_def half_double
        long_min_def long_max_def trunc_def dle_def)
qed

end
