(* ===== verification/Conn_Server.thy ===== *)
theory Conn_Server
  imports Conn_Facts Server
begin

text \<open>
  The loop that serves a connection (\<^verbatim>\<open>handle_connection\<close> of \<^verbatim>\<open>src/sys/server.cpp\<close>) over the TCP
  streams: lines are read through the input buffer of the socket, the answers of the handler go
  through the output buffer, and the destructors shut the connection down. Theory Server has the same
  loop over an abstract stream; here it is shown to be refined by the one over the socket.
\<close>

section \<open>The streams of a connection\<close>

text \<open>\<open>t_good\<close> is the state of the input stream, \<open>t_bad\<close> the \<^verbatim>\<open>badbit\<close> of the output stream.\<close>

record tcp =
  t_good :: bool
  t_in :: ibuffer
  t_bad :: bool
  t_out :: obuf
  t_os :: os

text \<open>The constructors \<^verbatim>\<open>instream is(*c)\<close> and \<^verbatim>\<open>onstream os(*c)\<close>, and the destructors, of \<open>os\<close> first.\<close>

definition tcp_open :: "connection \<Rightarrow> os \<Rightarrow> tcp result" where
  "tcp_open c w =
     rbind (make_instream c) (\<lambda>is.
     rbind (make_onstream c) (\<lambda>os1.
     Inr \<lparr>t_good = True, t_in = is_buf (oi_buf is), t_bad = own_bad os1, t_out = own_buf os1, t_os = w\<rparr>))"

definition tcp_close :: "connection \<Rightarrow> (tcp, unit) sx" where
  "tcp_close c t =
     (case sbind (destroy_onstream c (t_out t))
             (\<lambda>_. is_destroy (connection_shutdown_read c) \<lparr>is_rw = True, is_buf = t_in t\<rparr>) (t_os t) of
        (r, w) \<Rightarrow> (r, t\<lparr>t_os := w\<rparr>))"

section \<open>Serving a connection\<close>

text \<open>The loop of \<^verbatim>\<open>nanonet::util::getline\<close>, with \<open>n\<close> characters left to read; the flag is false at the end of
  the input.\<close>

fun getline_chars :: "nat \<Rightarrow> int \<Rightarrow> string \<Rightarrow> (ibuffer \<times> os, string \<times> bool) sx" where
  "getline_chars 0 fd acc = sret (acc, True)"
| "getline_chars (Suc n) fd acc =
     sbind (sbumpc (socket_read fd)) (\<lambda>oc.
     case oc of
       None \<Rightarrow> sret (acc, False)
     | Some c \<Rightarrow> if c = newline_char then sret (acc, True) else getline_chars n fd (acc @ [c]))"

definition tcp_getline :: "int \<Rightarrow> int \<Rightarrow> string \<Rightarrow> (tcp, string) sx" where
  "tcp_getline fd maxsize line t =
     (case assertion (maxsize > 0) ''maxsize > 0'' ''src/util.cpp'' 81 of
        Inl e \<Rightarrow> (Inl e, t)
      | Inr _ \<Rightarrow>
          if \<not> t_good t then (Inr line, t)
          else
            (case getline_chars (nat maxsize) fd [] (t_in t, t_os t) of
               (Inl e, (b, w)) \<Rightarrow> (Inl e, t\<lparr>t_in := b, t_os := w\<rparr>)
             | (Inr (l, ok), (b, w)) \<Rightarrow> (Inr l, t\<lparr>t_good := ok, t_in := b, t_os := w\<rparr>)))"

text \<open>The handler and the welcome function act on the streams and on a state \<open>'e\<close>.\<close>

type_synonym 'e tcp_handler = "string \<Rightarrow> server_status \<Rightarrow> (tcp \<times> 'e, bool) sx"
type_synonym 'e tcp_writer = "server_status \<Rightarrow> (tcp \<times> 'e, unit) sx"

definition tcp_handle_line ::
  "int \<Rightarrow> int \<Rightarrow> 'e tcp_handler \<Rightarrow> server_status \<Rightarrow> bool \<Rightarrow> (tcp \<times> 'e, bool) sx" where
  "tcp_handle_line fd maxlen handler status run s =
     (if \<not> run then (Inr False, s)
      else
        (case tcp_getline fd maxlen [] (fst s) of
           (Inl e, t) \<Rightarrow> (Inl e, (t, snd s))
         | (Inr line, t) \<Rightarrow>
             if \<not> t_good t then (Inr False, (t, snd s)) else handler line status (t, snd s)))"

text \<open>The loop, of at most \<open>n\<close> turns; \<open>runs i\<close> is the running flag at the \<open>i\<close>th turn.\<close>

fun tcp_serve ::
  "nat \<Rightarrow> nat \<Rightarrow> (nat \<Rightarrow> bool) \<Rightarrow> int \<Rightarrow> int \<Rightarrow> 'e tcp_handler \<Rightarrow> server_status \<Rightarrow> (tcp \<times> 'e, unit) sx" where
  "tcp_serve 0 i runs fd maxlen handler status = sthrow Fuel"
| "tcp_serve (Suc n) i runs fd maxlen handler status =
     sbind (tcp_handle_line fd maxlen handler status (runs i)) (\<lambda>go.
     if go then tcp_serve n (Suc i) runs fd maxlen handler status else sret ())"

definition tcp_handle_connection ::
  "nat \<Rightarrow> (nat \<Rightarrow> bool) \<Rightarrow> int \<Rightarrow> server_parameters \<Rightarrow> 'e tcp_writer option \<Rightarrow> 'e tcp_handler \<Rightarrow> server_status
     \<Rightarrow> (tcp \<times> 'e, unit) sx" where
  "tcp_handle_connection n runs fd p welcome handler status =
     sbind (case welcome of None \<Rightarrow> sret () | Some w \<Rightarrow> w status) (\<lambda>_.
     tcp_serve n 0 runs fd (max_line_length p) handler status)"

section \<open>Handlers that answer\<close>

text \<open>A handler that writes to its output stream and does nothing else to the streams: \<open>h\<close> gives what it
  returns or throws, what it writes before, and the new state. On the abstract streams of
  theory Server it appends to a text.\<close>

definition responder :: "int \<Rightarrow> (string \<Rightarrow> server_status \<Rightarrow> 'e \<Rightarrow> bool result \<times> os_op list \<times> 'e) \<Rightarrow> 'e tcp_handler" where
  "responder fd h line status s =
     (case h line status (snd s) of
        (r, ops, e) \<Rightarrow>
          (case os_run (socket_write fd) ops (t_bad (fst s), t_out (fst s), t_os (fst s)) of
             (x, bad, b, w) \<Rightarrow>
               (case x of Inl y \<Rightarrow> Inl y | Inr _ \<Rightarrow> r, ((fst s)\<lparr>t_bad := bad, t_out := b, t_os := w\<rparr>, e))))"

definition spec_handler :: "(string \<Rightarrow> server_status \<Rightarrow> 'e \<Rightarrow> bool result \<times> os_op list \<times> 'e) \<Rightarrow> ('e \<times> string) handler" where
  "spec_handler h line status s =
     (case s of (is, (e, out)) \<Rightarrow>
        (case h line status e of (r, ops, e') \<Rightarrow> (r, (is, (e', out @ concat (map op_text ops))))))"

definition greeter :: "int \<Rightarrow> (server_status \<Rightarrow> os_op list) \<Rightarrow> 'e tcp_writer" where
  "greeter fd g status s =
     (case os_run (socket_write fd) (g status) (t_bad (fst s), t_out (fst s), t_os (fst s)) of
        (x, bad, b, w) \<Rightarrow> (x, ((fst s)\<lparr>t_bad := bad, t_out := b, t_os := w\<rparr>, snd s)))"

definition spec_greeter :: "(server_status \<Rightarrow> os_op list) \<Rightarrow> ('e \<times> string) os_writer" where
  "spec_greeter g status s = (case s of (e, out) \<Rightarrow> (Inr (), (e, out @ concat (map op_text (g status)))))"

section \<open>Lines\<close>

lemma getline_chars_account:
  "sock.in_account fd c s \<Longrightarrow> getline_chars n fd acc s = (Inr (l, ok), s') \<Longrightarrow>
     \<exists>m. l = acc @ m \<and> newline_char \<notin> set m
       \<and> (if ok then (length m < n \<and> sock.in_account fd (c @ m @ [newline_char]) s')
             \<or> (length m = n \<and> sock.in_account fd (c @ m) s')
          else length m < n \<and> sock.in_account fd (c @ m) s' \<and> received_on fd (snd s') = c @ m)"
proof (induction n arbitrary: c s acc)
  case (Suc n)
  from Suc.prems(2) obtain o1 s1 where o1: "sbumpc (socket_read fd) s = (Inr o1, s1)"
    "(case o1 of None \<Rightarrow> sret (acc, False)
      | Some d \<Rightarrow> if d = newline_char then sret (acc, True) else getline_chars n fd (acc @ [d])) s1 = (Inr (l, ok), s')"
    by (auto elim: sbind_InrE)
  note a = sock.sbumpc_account [OF Suc.prems(1) o1(1)]
  show ?case
  proof (cases o1)
    case None
    then show ?thesis using a o1(2) by auto
  next
    case (Some d)
    show ?thesis
    proof (cases "d = newline_char")
      case True
      then show ?thesis using a o1(2) Some by auto
    next
      case False
      then have "getline_chars n fd (acc @ [d]) s1 = (Inr (l, ok), s')" using o1(2) Some by simp
      from Suc.IH [OF _ this, of "c @ [d]"] a Some obtain m where "l = acc @ d # m" "newline_char \<notin> set m"
        "if ok then (length m < n \<and> sock.in_account fd (c @ (d # m) @ [newline_char]) s')
             \<or> (length m = n \<and> sock.in_account fd (c @ d # m) s')
          else length m < n \<and> sock.in_account fd (c @ d # m) s' \<and> received_on fd (snd s') = c @ d # m"
        by (cases ok) auto
      then show ?thesis using False by (intro exI [of _ "d # m"]) (cases ok; auto)
    qed
  qed
qed auto

lemma sbumpc_socket_error: "sbumpc (socket_read fd) s = (Inl e, s') \<Longrightarrow> \<not> is_std_exception e \<and> e \<noteq> Fuel"
  by (auto simp: sbumpc_def underflow_def socket_read_def receive_with_def slift_def c_assert_def Let_def
      dest!: eintr_Inl elim!: sbind_InlE split: prod.splits sum.splits option.splits if_splits)

lemma getline_chars_error: "getline_chars n fd acc s = (Inl e, s') \<Longrightarrow> \<not> is_std_exception e \<and> e \<noteq> Fuel"
proof (induction n arbitrary: acc s)
  case (Suc n)
  from Suc.prems consider "sbumpc (socket_read fd) s = (Inl e, s')"
    | oc s1 where "(case oc of None \<Rightarrow> sret (acc, False)
        | Some c \<Rightarrow> if c = newline_char then sret (acc, True) else getline_chars n fd (acc @ [c])) s1 = (Inl e, s')"
    by (auto elim!: sbind_InlE)
  then show ?case
  proof cases
    case 1
    then show ?thesis by (rule sbumpc_socket_error)
  next
    case 2
    then show ?thesis using Suc.IH by (cases oc) (auto split: if_splits)
  qed
qed simp

lemma getline_full:
  assumes "newline_char \<notin> set m" "0 < n" "length m = nat n"
  shows "getline n (istream_of (m @ r), []) = (Inr (), istream_of r, m)"
proof -
  have "newline_char \<notin> set l \<Longrightarrow> getline_loop (length l) (istream_of (l @ r)) acc = (acc @ l, istream_of r)" for l acc
    by (induction l arbitrary: acc) (auto simp: istream_of_def)
  from this [of m "[]"] assms show ?thesis by (simp add: getline_def assertion_def)
qed

lemma getline_eof:
  assumes "newline_char \<notin> set m" "0 < n" "length m < nat n"
  shows "\<exists>is'. getline n (istream_of m, []) = (Inr (), is', m) \<and> failbit is' \<and> ibuf is' = []"
proof -
  have "newline_char \<notin> set l \<Longrightarrow> length l < k \<Longrightarrow>
      getline_loop k (istream_of l) acc = (acc @ l, \<lparr>ibuf = [], eofbit = True, failbit = True\<rparr>)" for l acc k
  proof (induction l arbitrary: acc k)
    case Nil
    then show ?case by (cases k) (simp_all add: istream_of_def)
  next
    case (Cons d l)
    then obtain j where "k = Suc j" by (cases k) auto
    then show ?case using Cons by (auto simp: istream_of_def)
  qed
  from this [of m "nat n" "[]"] assms show ?thesis by (simp add: getline_def assertion_def)
qed

text \<open>Reading a line on both streams: the line is the same, and what has been consumed is its text.\<close>

lemma tcp_getline_refines:
  assumes "sock.in_account fd c (t_in t, t_os t)" "t_good t" "0 < maxlen"
    and "tcp_getline fd maxlen [] t = (Inr l, t')"
  shows "\<exists>text. sock.in_account fd (c @ text) (t_in t', t_os t')
    \<and> (if t_good t' then \<forall>r. getline maxlen (istream_of (text @ r), []) = (Inr (), istream_of r, l)
       else received_on fd (t_os t') = c @ text
         \<and> (\<exists>is'. getline maxlen (istream_of text, []) = (Inr (), is', l) \<and> failbit is' \<and> ibuf is' = []))
    \<and> t_bad t' = t_bad t \<and> t_out t' = t_out t"
proof -
  obtain ok b w where g: "getline_chars (nat maxlen) fd [] (t_in t, t_os t) = (Inr (l, ok), (b, w))"
    and t': "t' = t\<lparr>t_good := ok, t_in := b, t_os := w\<rparr>"
    using assms(2-4) by (auto simp: tcp_getline_def assertion_def split: sum.splits prod.splits)
  from getline_chars_account [OF assms(1) g] obtain m where m: "l = m" "newline_char \<notin> set m"
    "if ok then (length m < nat maxlen \<and> sock.in_account fd (c @ m @ [newline_char]) (b, w))
        \<or> (length m = nat maxlen \<and> sock.in_account fd (c @ m) (b, w))
     else length m < nat maxlen \<and> sock.in_account fd (c @ m) (b, w) \<and> received_on fd w = c @ m"
    by (cases ok) auto
  show ?thesis
  proof (cases "ok \<and> length m < nat maxlen \<and> sock.in_account fd (c @ m @ [newline_char]) (b, w)")
    case True
    then have "\<forall>r. getline maxlen (istream_of ((m @ [newline_char]) @ r), []) = (Inr (), istream_of r, m)"
      using getline_of [of m maxlen] m(2) by auto
    then show ?thesis using True m(1) t' by (intro exI [of _ "m @ [newline_char]"]) simp
  next
    case False
    then show ?thesis
      using m t' getline_full [of m maxlen] getline_eof [of m maxlen] assms(3)
      by (intro exI [of _ m]) (cases ok; auto)
  qed
qed

section \<open>Refinement\<close>

text \<open>Writing leaves the account of the input alone, and reading that of the output.\<close>

lemma in_account_write:
  "sock.in_account fd c (b, w) \<Longrightarrow> os_run (socket_write fd) ops (bad, ob, w) = (r, bad', ob', w') \<Longrightarrow>
     sock.in_account fd c (b, w')"
  using os_run_world [OF socket_keeps(4), of fd ops bad ob w r bad' ob' w'] by (simp add: sock.in_account_def)

lemma getline_chars_keeps:
  "read_keeps (socket_read fd) f \<Longrightarrow> getline_chars n fd acc s = (r, s') \<Longrightarrow> f (snd s') = f (snd s)"
proof (induction n arbitrary: acc s)
  case (Suc n)
  obtain x s1 where x: "sbumpc (socket_read fd) s = (x, s1)" by (rule prod.exhaust)
  show ?case
    using Suc x sbumpc_keeps [OF Suc.prems(1) x]
    by (auto simp: sbind_def split: sum.splits option.splits if_splits)
qed simp

lemma tcp_getline_keeps:
  "read_keeps (socket_read fd) f \<Longrightarrow> tcp_getline fd maxlen l t = (r, t') \<Longrightarrow> f (t_os t') = f (t_os t)"
  by (auto simp: tcp_getline_def dest!: getline_chars_keeps [where f = f] split: sum.splits prod.splits if_splits)

lemma stream_ok_sent: "sock.stream_ok fd acc (bad, b, w) \<Longrightarrow> sent_on fd w' = sent_on fd w \<Longrightarrow> sock.stream_ok fd acc (bad, b, w')"
  by (cases bad) (simp_all add: sock.stream_ok_def sock.account_def sock.failed_def)

lemma os_run_std: "sock.stream_ok fd acc s \<Longrightarrow> os_run (socket_write fd) ops s = (Inl e, s') \<Longrightarrow> \<not> is_std_exception e"
proof -
  assume "sock.stream_ok fd acc s" "os_run (socket_write fd) ops s = (Inl e, s')"
  from sock.os_run_safe [OF this] obtain d w w' where "socket_write fd d w = (Inl e, w')" by blast
  then show ?thesis by (auto dest: socket_write_Inl)
qed

text \<open>The loop over the socket does what the one over a finite text does: on the text that has been
  read, which it has consumed completely.\<close>

lemma tcp_serve_refines:
  assumes "0 < maxlen"
  shows "tcp_serve n i runs fd maxlen (responder fd h) status (t, e) = (r, (t', e')) \<Longrightarrow>
     (\<And>x. r = Inl x \<Longrightarrow> is_std_exception x) \<Longrightarrow> t_good t \<Longrightarrow>
     sock.in_account fd c (t_in t, t_os t) \<Longrightarrow> sock.stream_ok fd acc (t_bad t, t_out t, t_os t) \<Longrightarrow>
     \<exists>used out is'. sock.in_account fd (c @ used) (t_in t', t_os t')
       \<and> sock.stream_ok fd (acc @ out) (t_bad t', t_out t', t_os t')
       \<and> serve_lines n i runs maxlen (spec_handler h) status (istream_of used, (e, o1))
           = Some (r, (is', (e', o1 @ out)))
       \<and> ibuf is' = [] \<and> (t_good t' \<or> received_on fd (t_os t') = c @ used)"
proof (induction n arbitrary: i t e c acc o1)
  case (Suc n)
  show ?case
  proof (cases "runs i")
    case False
    then have "r = Inr ()" "t' = t" "e' = e"
      using Suc.prems(1) by (auto simp: tcp_handle_line_def sbind_def)
    then show ?thesis
      using Suc.prems(3-5) False
      by (intro exI [of _ "[]"] exI [of _ "istream_of []"]) (simp add: handle_line_def)
  next
    case run: True
    obtain x t1 where g: "tcp_getline fd maxlen [] t = (x, t1)" by (rule prod.exhaust)
    obtain l where l: "x = Inr l"
      using Suc.prems(1,2,3) g run assms getline_chars_error
      by (cases x) (auto simp: tcp_handle_line_def sbind_def tcp_getline_def assertion_def split: sum.splits prod.splits)
    from tcp_getline_refines [OF Suc.prems(4,3) assms g [unfolded l]] obtain used where
      u: "sock.in_account fd (c @ used) (t_in t1, t_os t1)"
        "if t_good t1 then \<forall>r. getline maxlen (istream_of (used @ r), []) = (Inr (), istream_of r, l)
         else received_on fd (t_os t1) = c @ used
           \<and> (\<exists>is'. getline maxlen (istream_of used, []) = (Inr (), is', l) \<and> failbit is' \<and> ibuf is' = [])"
        "t_bad t1 = t_bad t" "t_out t1 = t_out t" by blast
    have ok1: "sock.stream_ok fd acc (t_bad t1, t_out t1, t_os t1)"
      using stream_ok_sent [OF Suc.prems(5)] tcp_getline_keeps [OF socket_keeps(2) g] u(3,4) by simp
    show ?thesis
    proof (cases "t_good t1")
      case False
      then have "r = Inr ()" "t' = t1" "e' = e"
        using Suc.prems(1) run g l by (auto simp: tcp_handle_line_def sbind_def)
      then show ?thesis
        using u False ok1 run
        by (intro exI [of _ used] exI [of _ "[]"]) (auto simp: handle_line_def)
    next
      case ok: True
      then have full: "getline maxlen (istream_of (used @ r), []) = (Inr (), istream_of r, l)" for r
        using u(2) by simp
      obtain r1 ops e1 where h: "h l status e = (r1, ops, e1)" by (rule prod_cases3)
      obtain y bad b w where run1: "os_run (socket_write fd) ops (t_bad t1, t_out t1, t_os t1) = (y, bad, b, w)"
        by (rule prod_cases4)
      let ?t2 = "t1\<lparr>t_bad := bad, t_out := b, t_os := w\<rparr>"
      have step: "tcp_handle_line fd maxlen (responder fd h) status (runs i) (t, e)
        = (case y of Inl z \<Rightarrow> Inl z | Inr _ \<Rightarrow> r1, (?t2, e1))"
        using run g l ok h run1 by (simp add: tcp_handle_line_def responder_def)
      obtain v where v: "y = Inr v"
        using Suc.prems(1,2) step os_run_std [OF ok1] run1 by (cases y) (auto simp: sbind_def)
      have abs: "handle_line maxlen (spec_handler h) status (runs i) (istream_of (used @ r), (e, o1))
        = (r1, (istream_of r, (e1, o1 @ concat (map op_text ops))))" for r
        using run full [of r] h by (simp add: handle_line_def spec_handler_def istream_of_def)
      have a2: "sock.in_account fd (c @ used) (t_in ?t2, t_os ?t2)"
        using in_account_write [OF u(1) run1] by simp
      have ok2: "sock.stream_ok fd (acc @ concat (map op_text ops)) (t_bad ?t2, t_out ?t2, t_os ?t2)"
        using sock.os_run_ok [OF ok1 run1 [unfolded v]] by simp
      show ?thesis
      proof (cases "r1 = Inr True")
        case False
        then have "r = (case r1 of Inl z \<Rightarrow> Inl z | Inr _ \<Rightarrow> Inr ())" "t' = ?t2" "e' = e1"
          using Suc.prems(1) step v by (auto simp: sbind_def split: sum.splits)
        then show ?thesis
          using a2 ok2 ok abs [of "[]"] False
          by (intro exI [of _ used] exI [of _ "concat (map op_text ops)"] exI [of _ "istream_of []"])
            (auto split: sum.splits)
      next
        case True
        then have rest: "tcp_serve n (Suc i) runs fd maxlen (responder fd h) status (?t2, e1) = (r, (t', e'))"
          using Suc.prems(1) step v by (simp add: sbind_def)
        from Suc.IH [OF rest Suc.prems(2) _ a2 ok2, of "o1 @ concat (map op_text ops)"] ok
        obtain more out2 is' where
          2: "sock.in_account fd (c @ used @ more) (t_in t', t_os t')"
             "sock.stream_ok fd (acc @ concat (map op_text ops) @ out2) (t_bad t', t_out t', t_os t')"
             "serve_lines n (Suc i) runs maxlen (spec_handler h) status (istream_of more, (e1, o1 @ concat (map op_text ops)))
               = Some (r, (is', (e', o1 @ concat (map op_text ops) @ out2)))"
             "ibuf is' = []" "t_good t' \<or> received_on fd (t_os t') = c @ used @ more"
          by auto
        then show ?thesis
          using abs [of more] True
          by (intro exI [of _ "used @ more"] exI [of _ "concat (map op_text ops) @ out2"] exI [of _ is']) simp
      qed
    qed
  qed
next
  case 0
  from "0.prems"(2) [of Fuel] "0.prems"(1) show ?case by simp
qed

section \<open>The end of the loop\<close>

text \<open>Every turn reads a character or learns that there is none, and no write gives answers back.\<close>

definition fewer :: "os \<Rightarrow> os \<Rightarrow> bool" where
  "fewer w w' \<longleftrightarrow> length (answers w') \<le> length (answers w)"

lemma eintr_fewer: "eintr c w = (r, w') \<Longrightarrow> fewer w w'"
proof (induction "length (answers w)" arbitrary: w)
  case 0
  then show ?case by (subst (asm) eintr.simps) (auto simp: sys_def fewer_def)
next
  case (Suc n)
  then obtain a as where a: "answers w = a # as" by (cases "answers w") auto
  show ?case
  proof (cases "a = Fail E_INTR")
    case True
    let ?w = "w\<lparr>answers := as, trace := trace w @ [(c, Fail E_INTR)], errno := E_INTR\<rparr>"
    have "eintr c ?w = (r, w')" using Suc.prems a True by (simp add: eintr_interrupted)
    then show ?thesis using Suc.hyps(1) [of ?w] Suc.hyps(2) a by (simp add: fewer_def)
  next
    case False
    then show ?thesis using Suc.prems a by (auto simp: eintr_answer fewer_def)
  qed
qed

lemma socket_write_fewer: "moves_by (socket_write fd) fewer"
proof -
  have "fewer w (snd (socket_write fd d w))" for d w
  proof -
    obtain x w1 where x: "eintr (C_send_nosignal fd d) w = (x, w1)" by (rule prod.exhaust)
    then show ?thesis
      using eintr_fewer [OF x]
      by (auto simp: socket_write_def socketsend_def sbind_def slift_def split: sum.splits if_splits)
  qed
  then show ?thesis by (auto simp: moves_by_def fewer_def intro!: reflpI transpI)
qed

lemma progress_fewer: "((b, w1), s) \<in> progress \<Longrightarrow> fewer w1 w2 \<Longrightarrow> ((b, w2), s) \<in> progress"
  by (cases s) (auto simp: progress_def fewer_def)

lemma getline_chars_progress:
  "0 < n \<Longrightarrow> getline_chars n fd acc s = (Inr x, s') \<Longrightarrow> (s', s) \<in> progress"
proof (induction n arbitrary: acc s)
  case (Suc n)
  from Suc.prems(2) obtain oc s1 where oc: "sbumpc (socket_read fd) s = (Inr oc, s1)"
    "(case oc of None \<Rightarrow> sret (acc, False)
      | Some d \<Rightarrow> if d = newline_char then sret (acc, True) else getline_chars n fd (acc @ [d])) s1 = (Inr x, s')"
    by (auto elim: sbind_InrE)
  note p = sbumpc_progress [OF oc(1)]
  show ?case
    using oc(2) p Suc.IH [of "acc @ [the oc]" s1] progress_trans [OF _ p, of s']
    by (cases oc; cases n) (auto split: if_splits)
qed simp

lemma os_run_hangs: "sock.stream_ok fd acc s \<Longrightarrow> os_run (socket_write fd) ops s = (Inl e, s') \<Longrightarrow> e = Hang"
  using sock.os_run_safe [of fd acc s ops e s'] socket_write_Inl by blast

text \<open>The loop ends after some number of turns, and then any larger bound gives the same.\<close>

lemma tcp_serve_ends:
  assumes "0 < maxlen" "\<And>line st e. fst (h line st e) \<noteq> Inl Fuel"
  shows "sock.stream_ok fd acc (t_bad t, t_out t, t_os t) \<Longrightarrow>
    \<exists>n r s'. \<forall>m \<ge> n. tcp_serve m i runs fd maxlen (responder fd h) status (t, e) = (r, s') \<and> r \<noteq> Inl Fuel"
proof (induction "(t_in t, t_os t)" arbitrary: t e i acc rule: wf_induct_rule [OF progress_wf])
  case 1
  let ?H = "tcp_handle_line fd maxlen (responder fd h) status (runs i) (t, e)"
  let ?S = "\<lambda>m j. tcp_serve m j runs fd maxlen (responder fd h) status"
  have ends: ?case if "?H = (r, s1)" "r \<noteq> Inl Fuel" "r \<noteq> Inr True" for r s1
  proof -
    have "?S m i (t, e) = (case r of Inl x \<Rightarrow> Inl x | Inr _ \<Rightarrow> Inr (), s1)" if "m \<ge> 1" for m
      using \<open>?H = (r, s1)\<close> \<open>r \<noteq> Inr True\<close> that by (cases m) (auto simp: sbind_def split: sum.splits)
    then show ?thesis using that(2)
      by (intro exI [of _ 1] exI [of _ "case r of Inl x \<Rightarrow> Inl x | Inr _ \<Rightarrow> Inr ()"] exI [of _ s1]) (auto split: sum.splits)
  qed
  obtain x t1 where g: "tcp_getline fd maxlen [] t = (x, t1)" by (rule prod.exhaust)
  show ?case
  proof (cases "runs i \<and> is_ok x \<and> t_good t1")
    case False
    have nf: "x \<noteq> Inl Fuel"
      using g assms(1)
      by (auto simp: tcp_getline_def assertion_def dest: getline_chars_error split: sum.splits prod.splits if_splits)
    consider "\<not> runs i" | z where "runs i" "x = Inl z" | l where "runs i" "x = Inr l" "\<not> t_good t1"
      using False by (cases x) auto
    then show ?thesis
      using g nf ends [of "Inr False" "(t, e)"] ends [of x "(t1, e)" for x] by cases (auto simp: tcp_handle_line_def)
  next
    case True
    then obtain l where l: "x = Inr l" by (cases x) (auto simp: is_ok_def)
    obtain b w where c: "getline_chars (nat maxlen) fd [] (t_in t, t_os t) = (Inr (l, True), (b, w))"
      "t1 = t\<lparr>t_good := True, t_in := b, t_os := w\<rparr>"
      using g l True assms(1) by (auto simp: tcp_getline_def assertion_def split: sum.splits prod.splits if_splits)
    have p: "((b, w), (t_in t, t_os t)) \<in> progress"
      by (rule getline_chars_progress [OF _ c(1)]) (use assms(1) in simp)
    have ok1: "sock.stream_ok fd acc (t_bad t1, t_out t1, t_os t1)"
      using stream_ok_sent [OF "1.prems"] tcp_getline_keeps [OF socket_keeps(2) g] c(2) by simp
    obtain r1 ops e1 where h: "h l status e = (r1, ops, e1)" by (rule prod_cases3)
    obtain y bad o1 w1 where run: "os_run (socket_write fd) ops (t_bad t1, t_out t1, t_os t1) = (y, bad, o1, w1)"
      by (rule prod_cases4)
    let ?t2 = "t1\<lparr>t_bad := bad, t_out := o1, t_os := w1\<rparr>"
    have step: "?H = (case y of Inl z \<Rightarrow> Inl z | Inr _ \<Rightarrow> r1, (?t2, e1))"
      using True g l h run by (simp add: tcp_handle_line_def responder_def)
    show ?thesis
    proof (cases "is_ok y \<and> r1 = Inr True")
      case False
      have "y \<noteq> Inl Fuel" "r1 \<noteq> Inl Fuel"
        using run assms(2) [of l status e] h by (auto dest: os_run_hangs [OF ok1])
      then show ?thesis using False step ends [of "case y of Inl z \<Rightarrow> Inl z | Inr _ \<Rightarrow> r1" "(?t2, e1)"] by (cases y) auto
    next
      case go: True
      then obtain v where y: "y = Inr v" by (cases y) (auto simp: is_ok_def)
      have "fewer w w1" using os_run_moves [OF socket_write_fewer run] c(2) by simp
      then have "((t_in ?t2, t_os ?t2), (t_in t, t_os t)) \<in> progress"
        using progress_fewer [OF p] c(2) by simp
      moreover have "sock.stream_ok fd (acc @ concat (map op_text ops)) (t_bad ?t2, t_out ?t2, t_os ?t2)"
        using sock.os_run_ok [OF ok1 run [unfolded y]] by simp
      ultimately obtain n r s' where n: "\<forall>m \<ge> n. ?S m (Suc i) (?t2, e1) = (r, s') \<and> r \<noteq> Inl Fuel"
        using "1.hyps" by blast
      have "?S m i (t, e) = (r, s') \<and> r \<noteq> Inl Fuel" if "m \<ge> Suc n" for m
        using that step go y n by (cases m) (auto simp: sbind_def)
      then show ?thesis by blast
    qed
  qed
qed

lemma tcp_open_new: "tcp_open c w = Inr t \<longleftrightarrow> t = \<lparr>t_good = True,
    t_in = \<lparr>ib_size_pb = 4, ib_mem = replicate 1028 CHR 0x00, ib_eback = 4, ib_gptr = 4, ib_egptr = 4\<rparr>,
    t_bad = False, t_out = \<lparr>ob_rw = True, ob_size = 1024, ob_data = [], ob_live = True\<rparr>, t_os = w\<rparr>"
  by (auto simp: tcp_open_def new_instream new_onstream)

text \<open>A client that sends a line, and a handler that says goodbye.\<close>

definition sample_peer :: connection where
  "sample_peer = \<lparr>con_fd = 5, con_local = Addr AF_INET 1 [], con_peer = Addr AF_INET 2 []\<rparr>"

definition goodbye :: "string \<Rightarrow> server_status \<Rightarrow> unit \<Rightarrow> bool result \<times> os_op list \<times> unit" where
  "goodbye line status e = (Inr False, [Write ''bye'', Flush], e)"

lemma sample_serving:
  assumes "answers w = Data [CHR ''q'', newline_char] # Ret 3 # as" "tcp_open sample_peer w = Inr t" "5 < max_line_length p"
  shows "\<exists>t'. tcp_handle_connection 1 (\<lambda>_. True) 5 p (map_option (greeter 5) None) (responder 5 goodbye) status (t, ())
      = (Inr (), (t', ())) \<and> answers (t_os t') = as \<and> \<not> t_bad t' \<and> t_out t' = t_out t \<and> t_good t'"
proof -
  let ?b = "\<lambda>x g e. \<lparr>ib_size_pb = 4, ib_mem = x, ib_eback = 4, ib_gptr = g, ib_egptr = e\<rparr>"
  let ?o = "\<lparr>ob_rw = True, ob_size = 1024, ob_data = [], ob_live = True\<rparr>"
  have t: "t = \<lparr>t_good = True, t_in = ?b (replicate 1028 CHR 0x00) 4 4, t_bad = False, t_out = ?o, t_os = w\<rparr>"
    using assms(2) by (simp add: tcp_open_new)
  obtain m w1 where w1: "answers w1 = Ret 3 # as"
    "sbumpc (socket_read 5) (?b (replicate 1028 CHR 0x00) 4 4, w) = (Inr (Some CHR ''q''), ?b m 5 6, w1)"
    "\<And>v. sbumpc (socket_read 5) (?b m 5 6, v) = (Inr (Some newline_char), ?b m 6 6, v)"
    using read_two [OF assms(1), of 5] by blast
  obtain w2 where w2: "answers w2 = as" "os_run (socket_write 5) [Write ''bye'', Flush] (False, ?o, w1) = (Inr (), False, ?o, w2)"
    using request_step [of w1 "''bye''" as 5] w1(1) by auto
  define n where "n = nat (max_line_length p) - 2"
  have n: "nat (max_line_length p) = Suc (Suc n)" using assms(3) by (simp add: n_def)
  have "getline_chars (Suc (Suc n)) 5 [] (?b (replicate 1028 CHR 0x00) 4 4, w) = (Inr (''q'', True), ?b m 6 6, w1)"
    using w1(2,3) by (simp add: sbind_def)
  then show ?thesis
    using t assms(3) w2 n
    by (simp add: tcp_handle_connection_def tcp_handle_line_def tcp_getline_def assertion_def responder_def goodbye_def sbind_def)
qed

section \<open>Properties\<close>

text \<open>C10: A connection over TCP refines one over a finite text. On a new connection, whatever the system does
  with the calls, if serving it returns or throws an exception, the loop over the abstract streams does
  the same on some text: it returns or throws the same, leaves the same state of the handler, and has
  read all of the text. The text and the characters left in the input buffer are what has been received.
  The answers that the abstract loop gives are what has been sent, followed by what is in the output
  buffer; if writing has failed, what has been sent is a beginning of them. If the input has ended, the
  text is everything that was received.\<close>

theorem tcp_connection_refines_streams:
  assumes "tcp_open c w = Inr t" "received_on (con_fd c) w = []" "0 < max_line_length p"
    and "tcp_handle_connection n runs (con_fd c) p (map_option (greeter (con_fd c)) g) (responder (con_fd c) h) status (t, e)
      = (r, (t', e'))"
    and "\<And>x. r = Inl x \<Longrightarrow> is_std_exception x"
  shows "\<exists>used out is'.
      handle_connection n runs p (map_option spec_greeter g) (spec_handler h) status (istream_of used, (e, []))
        = Some (r, (is', (e', out))) \<and> ibuf is' = []
      \<and> received_on (con_fd c) (t_os t') = used @ unread (t_in t')
      \<and> (\<not> t_good t' \<longrightarrow> received_on (con_fd c) (t_os t') = used)
      \<and> (if t_bad t' then \<exists>rest. sent_on (con_fd c) w @ out = sent_on (con_fd c) (t_os t') @ rest
         else sent_on (con_fd c) (t_os t') @ ob_data (t_out t') = sent_on (con_fd c) w @ out)"
proof -
  let ?fd = "con_fd c" and ?tr = "\<lambda>t. (t_bad t, t_out t, t_os t)" and ?ops = "case g of None \<Rightarrow> [] | Some f \<Rightarrow> f status"
  have start: "t_good t" "sock.in_account ?fd [] (t_in t, t_os t)" "sock.stream_ok ?fd (sent_on ?fd w) (?tr t)"
    using assms(1,2) by (simp_all add: tcp_open_new sock.in_account_def ib_inv_def unread_def sock.stream_ok_def sock.account_def)
  obtain y bad b w1 where run: "os_run (socket_write ?fd) ?ops (?tr t) = (y, bad, b, w1)" by (rule prod_cases4)
  let ?t1 = "t\<lparr>t_bad := bad, t_out := b, t_os := w1\<rparr>"
  have "(case map_option (greeter ?fd) g of None \<Rightarrow> sret () | Some v \<Rightarrow> v status) (t, e) = (y, (?t1, e))"
    using run by (cases g) (auto simp: greeter_def)
  then have y: "y = Inr ()" and rest: "tcp_serve n 0 runs ?fd (max_line_length p) (responder ?fd h) status (?t1, e) = (r, (t', e'))"
    using assms(4,5) os_run_std [OF start(3)] run by (cases y; auto simp: tcp_handle_connection_def sbind_def)+
  have "sock.in_account ?fd [] (t_in ?t1, t_os ?t1)" "sock.stream_ok ?fd (sent_on ?fd w @ concat (map op_text ?ops)) (?tr ?t1)"
    using in_account_write [OF start(2) run] sock.os_run_ok [OF start(3) run [unfolded y]] by simp_all
  from tcp_serve_refines [OF assms(3) rest assms(5) _ this, of "concat (map op_text ?ops)"] start(1)
  obtain used out is' where u: "sock.in_account ?fd used (t_in t', t_os t')"
    "sock.stream_ok ?fd (sent_on ?fd w @ concat (map op_text ?ops) @ out) (?tr t')"
    "serve_lines n 0 runs (max_line_length p) (spec_handler h) status (istream_of used, (e, concat (map op_text ?ops)))
      = Some (r, (is', (e', concat (map op_text ?ops) @ out)))"
    "ibuf is' = []" "t_good t' \<or> received_on ?fd (t_os t') = used"
    by auto
  have "write_welcome (map_option spec_greeter g) status (istream_of used, (e, []))
      = (Inr (), (istream_of used, (e, concat (map op_text ?ops))))"
    by (cases g) (simp_all add: write_welcome_def spec_greeter_def)
  then show ?thesis
    using u by (intro exI [of _ used] exI [of _ "concat (map op_text ?ops) @ out"] exI [of _ is'])
      (auto simp: handle_connection_def sock.in_account_def sock.stream_ok_def sock.account_def sock.failed_def)
qed

lemma tcp_connection_refines_streams_witness:
  "\<exists>t t'. tcp_open sample_peer (sample_os [Data [CHR ''q'', newline_char], Ret 3]) = Inr t
     \<and> tcp_handle_connection 1 (\<lambda>_. True) (con_fd sample_peer) default_parameters (map_option (greeter (con_fd sample_peer)) None)
         (responder (con_fd sample_peer) goodbye) (new_status default_parameters) (t, ()) = (Inr (), (t', ()))
     \<and> (\<exists>used is'. handle_connection 1 (\<lambda>_. True) default_parameters (map_option spec_greeter None) (spec_handler goodbye)
           (new_status default_parameters) (istream_of used, ((), [])) = Some (Inr (), (is', ((), sent_on 5 (t_os t')))))"
proof -
  let ?w = "sample_os [Data [CHR ''q'', newline_char], Ret 3]"
  have fd: "con_fd sample_peer = 5" by (simp add: sample_peer_def)
  obtain t where t: "tcp_open sample_peer ?w = Inr t" by (simp add: tcp_open_new)
  have p: "5 < max_line_length default_parameters" by (simp add: default_parameters_def)
  obtain t' where t': "tcp_handle_connection 1 (\<lambda>_. True) (con_fd sample_peer) default_parameters
      (map_option (greeter (con_fd sample_peer)) None) (responder (con_fd sample_peer) goodbye)
      (new_status default_parameters) (t, ()) = (Inr (), (t', ()))" "\<not> t_bad t'" "t_out t' = t_out t"
    using sample_serving [OF _ t p] unfolding fd by (fastforce simp: sample_os_def)
  have w: "received_on (con_fd sample_peer) ?w = []" "sent_on 5 ?w = []"
    by (simp_all add: received_on_def sent_on_def sample_os_def)
  have "ob_data (t_out t') = []" using t t'(3) by (simp add: tcp_open_new)
  then show ?thesis
    using tcp_connection_refines_streams [OF t w(1) _ t'(1)] t t' p w(2) unfolding fd by force
qed

text \<open>C15: Serving a connection ends. Whatever the system does, for every welcome function and handler that
  write and every running flag, some number of turns of the loop is enough; with any larger bound the
  result and the state are the same. The loop ends because every turn takes a character from the
  buffer or an answer from the system; if the system has no answer left, a call hangs.\<close>

theorem tcp_connection_ends:
  assumes "tcp_open c w = Inr t" "0 < max_line_length p" "\<And>line st e. fst (h line st e) \<noteq> Inl Fuel"
  shows "\<exists>n r s'. \<forall>m \<ge> n.
    tcp_handle_connection m runs (con_fd c) p (map_option (greeter (con_fd c)) g) (responder (con_fd c) h) status (t, e)
      = (r, s') \<and> r \<noteq> Inl Fuel"
proof -
  let ?fd = "con_fd c" and ?tr = "\<lambda>t. (t_bad t, t_out t, t_os t)" and ?ops = "case g of None \<Rightarrow> [] | Some f \<Rightarrow> f status"
  let ?S = "\<lambda>m. tcp_serve m 0 runs ?fd (max_line_length p) (responder ?fd h) status"
  have start: "sock.stream_ok ?fd (sent_on ?fd w) (?tr t)"
    using assms(1) by (simp add: tcp_open_new sock.stream_ok_def sock.account_def)
  obtain y bad b w1 where run: "os_run (socket_write ?fd) ?ops (?tr t) = (y, bad, b, w1)" by (rule prod_cases4)
  let ?t1 = "t\<lparr>t_bad := bad, t_out := b, t_os := w1\<rparr>"
  have w: "(case map_option (greeter ?fd) g of None \<Rightarrow> sret () | Some v \<Rightarrow> v status) (t, e) = (y, (?t1, e))"
    using run by (cases g) (auto simp: greeter_def)
  show ?thesis
  proof (cases y)
    case (Inl x)
    then have "x = Hang" using os_run_hangs [OF start] run by blast
    then show ?thesis using w Inl by (auto simp: tcp_handle_connection_def sbind_def)
  next
    case (Inr u)
    have "sock.stream_ok ?fd (sent_on ?fd w @ concat (map op_text ?ops)) (?tr ?t1)"
      using sock.os_run_ok [OF start run [unfolded Inr]] by simp
    from tcp_serve_ends [of "max_line_length p" h, OF assms(2,3) this, of 0 runs status e]
    obtain n r s' where "\<forall>m \<ge> n. ?S m (?t1, e) = (r, s') \<and> r \<noteq> Inl Fuel" by blast
    then show ?thesis
      using w Inr by (intro exI [of _ n] exI [of _ r] exI [of _ s']) (simp add: tcp_handle_connection_def sbind_def)
  qed
qed

lemma tcp_connection_ends_witness:
  "\<exists>t n r s'. tcp_open sample_peer (sample_os [Data [CHR ''q'', newline_char], Ret 3]) = Inr t
     \<and> (\<forall>m \<ge> n. tcp_handle_connection m (\<lambda>_. True) (con_fd sample_peer) default_parameters
          (map_option (greeter (con_fd sample_peer)) None) (responder (con_fd sample_peer) goodbye)
          (new_status default_parameters) (t, ()) = (r, s') \<and> r \<noteq> Inl Fuel)"
proof -
  obtain t where t: "tcp_open sample_peer (sample_os [Data [CHR ''q'', newline_char], Ret 3]) = Inr t"
    by (simp add: tcp_open_new)
  have "\<And>line st e. fst (goodbye line st e) \<noteq> Inl Fuel" "0 < max_line_length default_parameters"
    by (simp_all add: goodbye_def default_parameters_def)
  from tcp_connection_ends [where g = None and runs = "\<lambda>_. True" and status = "new_status default_parameters" and e = "()",
      OF t this(2,1)] t
  show ?thesis by (intro exI [of _ t]) simp
qed

end
