(* ===== verification/Conn_Thread.thy ===== *)
theory Conn_Thread
  imports Conn_Server
begin

text \<open>
  The thread of a connection (\<^verbatim>\<open>connection_thread::operator()\<close> of \<^verbatim>\<open>src/sys/server.cpp\<close>) over the TCP
  streams of theory Conn_Server: both exception handlers, the log and the destructors, which shut the
  connection down.
\<close>

section \<open>The thread\<close>

record 'e tcp_thread_state =
  tt_tcp :: tcp
  tt_env :: 'e
  tt_run :: bool
  tt_log :: slog

definition on_tcp :: "(tcp \<times> 'e, 'a) sx \<Rightarrow> ('e tcp_thread_state, 'a) sx" where
  "on_tcp m s =
     (case m (tt_tcp s, tt_env s) of (r, (t, e)) \<Rightarrow> (r, s\<lparr>tt_tcp := t, tt_env := e\<rparr>))"

definition tt_say :: "(slog \<Rightarrow> slog) \<Rightarrow> ('e tcp_thread_state, unit) sx" where
  "tt_say f = smod (\<lambda>s. s\<lparr>tt_log := f (tt_log s)\<rparr>)"

text \<open>\<^verbatim>\<open>sl << before << c->peer() << after << std::endl\<close>.\<close>

definition tt_say_peer :: "connection \<Rightarrow> prio \<Rightarrow> string \<Rightarrow> string \<Rightarrow> ('e tcp_thread_state, unit) sx" where
  "tt_say_peer c p before after =
     sbind (tt_say (lg_begin p before)) (\<lambda>_.
     sbind (on_tcp (\<lambda>(t, e). case addr_to_string SOCK_STREAM (con_peer c) (t_os t) of (r, w) \<Rightarrow> (r, (t\<lparr>t_os := w\<rparr>, e)))) (\<lambda>a.
     tt_say (lg_end (a @ after))))"

text \<open>\<^verbatim>\<open>while (is.get(c)) {}\<close>.\<close>

function drain :: "int \<Rightarrow> (ibuffer \<times> os, unit) sx" where
  "drain fd s =
     (case sbumpc (socket_read fd) s of
        (Inl e, s') \<Rightarrow> (Inl e, s')
      | (Inr None, s') \<Rightarrow> (Inr (), s')
      | (Inr (Some c), s') \<Rightarrow> drain fd s')"
  by pat_completeness auto
termination
  by (relation "inv_image progress snd") (auto dest: sbumpc_progress [OF sym])

declare drain.simps [simp del]

definition wait_for_close :: "int \<Rightarrow> (tcp, unit) sx" where
  "wait_for_close fd t =
     (if \<not> t_good t then (Inr (), t)
      else (case drain fd (t_in t, t_os t) of (r, (b, w)) \<Rightarrow> (r, t\<lparr>t_good := False, t_in := b, t_os := w\<rparr>)))"

definition tt_body ::
  "nat \<Rightarrow> (nat \<Rightarrow> bool) \<Rightarrow> server_parameters \<Rightarrow> 'e tcp_writer option \<Rightarrow> 'e tcp_handler \<Rightarrow> server_status \<Rightarrow> connection
     \<Rightarrow> ('e tcp_thread_state, unit) sx" where
  "tt_body n runs p welcome handler status c =
     sbind (if log_connections p
            then tt_say_peer c NOTICE ''New connection from ''
              (''; currently '' @ int_to_string (connections_current status) @ ''/total ''
               @ int_to_string (connections_total status) @ '' connection(s)'')
            else sskip) (\<lambda>_.
     sbind (on_tcp (tcp_handle_connection n runs (con_fd c) p welcome handler status)) (\<lambda>_.
     if log_connections p then tt_say_peer c NOTICE ''Connection closing: '' [] else sskip))"

definition tt_inner_catch :: "server_parameters \<Rightarrow> connection \<Rightarrow> exc \<Rightarrow> ('e tcp_thread_state, unit) sx" where
  "tt_inner_catch p c e =
     (case e of
        Shutdown_exception _ \<Rightarrow>
          sbind (smod (\<lambda>s. s\<lparr>tt_run := False\<rparr>)) (\<lambda>_.
          sbind (tt_say_peer c NOTICE ''Shutdown requested in connection from: '' []) (\<lambda>_.
          if shutdown_wait_for_client_close p
          then sbind (tt_say (lg_entry NOTICE ''Waiting for client to close the connection...'')) (\<lambda>_.
               sbind (on_tcp (\<lambda>(t, env). case wait_for_close (con_fd c) t of (r, t') \<Rightarrow> (r, (t', env)))) (\<lambda>_.
               tt_say (lg_entry NOTICE ''Client closed connection, ready for shutdown'')))
          else sskip))
      | _ \<Rightarrow> tt_say_peer c ERR ''In connection from '' ('': '' @ what e))"

definition tt_outer_catch :: "connection \<Rightarrow> exc \<Rightarrow> ('e tcp_thread_state, unit) sx" where
  "tt_outer_catch c e =
     tt_say_peer c CRIT ''WTF: Communication couldn't be set up in connection from '' ('': '' @ what e)"

text \<open>\<open>operator()\<close>, for a running flag that is set when the thread starts; the state before the streams are
  made has those of no connection.\<close>

definition tcp_thread ::
  "nat \<Rightarrow> (nat \<Rightarrow> bool) \<Rightarrow> server_parameters \<Rightarrow> 'e tcp_writer option \<Rightarrow> 'e tcp_handler \<Rightarrow> server_status \<Rightarrow> connection
     \<Rightarrow> ('e tcp_thread_state, unit) sx" where
  "tcp_thread n runs p welcome handler status c s =
     (if \<not> tt_run s then (Inr (), s)
      else
        scatch
          (sbind (\<lambda>s. case tcp_open c (t_os (tt_tcp s)) of
                        Inl e \<Rightarrow> (Inl e, s)
                      | Inr t \<Rightarrow> (Inr (), s\<lparr>tt_tcp := t\<rparr>)) (\<lambda>_.
           sfinally (scatch (tt_body n runs p welcome handler status c) (tt_inner_catch p c))
             (on_tcp (\<lambda>(t, e). case tcp_close c t of (r, t') \<Rightarrow> (r, (t', e))))))
          (tt_outer_catch c) (s\<lparr>tt_log := new_slog\<rparr>))"

section \<open>What the thread leaves alone\<close>

text \<open>Operations that keep a condition, whether they return or throw.\<close>

definition saves :: "('s \<Rightarrow> bool) \<Rightarrow> ('s, 'a) sx \<Rightarrow> bool" where
  "saves J m \<longleftrightarrow> (\<forall>s. J s \<longrightarrow> J (snd (m s)))"

named_theorems saves_intros \<open>operations that keep a condition\<close>

lemma savesD: "saves J m \<Longrightarrow> m s = (r, s') \<Longrightarrow> J s \<Longrightarrow> J s'"
  unfolding saves_def by (metis snd_conv)

lemma savesI: "(\<And>s r s'. m s = (r, s') \<Longrightarrow> J s \<Longrightarrow> J s') \<Longrightarrow> saves J m"
  unfolding saves_def by (metis prod.collapse)

lemma saves_bind [saves_intros]: "saves J m \<Longrightarrow> (\<And>x. saves J (k x)) \<Longrightarrow> saves J (sbind m k)"
  by (rule savesI) (auto simp: sbind_def dest: savesD split: prod.splits sum.splits)

lemma saves_catch [saves_intros]: "saves J m \<Longrightarrow> (\<And>e. saves J (h e)) \<Longrightarrow> saves J (scatch m h)"
  by (rule savesI) (auto simp: scatch_def dest: savesD split: prod.splits sum.splits if_splits)

lemma saves_basic [saves_intros]: "saves J (sret x)" "saves J (sthrow e)" "saves J sskip"
  by (simp_all add: saves_def)

lemma saves_if [saves_intros]: "saves J m \<Longrightarrow> saves J k \<Longrightarrow> saves J (if b then m else k)"
  by simp

lemma saves_exc:
  "(\<And>x. saves J (m x)) \<Longrightarrow> saves J k \<Longrightarrow> saves J (case e of Shutdown_exception x \<Rightarrow> m x | _ \<Rightarrow> k)"
  by (cases e) simp_all

text \<open>An observation \<open>f\<close> of the system has the value \<open>k\<close>, and the output buffer has the connection.\<close>

definition attached :: "(os \<Rightarrow> 'v) \<Rightarrow> 'v \<Rightarrow> tcp \<Rightarrow> bool" where
  "attached f k t \<longleftrightarrow> f (t_os t) = k \<and> ob_rw (t_out t) \<and> ob_live (t_out t)"

text \<open>What the calls on the socket \<open>fd\<close> but \<^verbatim>\<open>shutdown\<close> leave alone.\<close>

definition still :: "int \<Rightarrow> (os \<Rightarrow> 'v) \<Rightarrow> bool" where
  "still fd f \<longleftrightarrow> read_keeps (socket_read fd) f \<and> kept_by (socket_write fd) f
     \<and> (\<forall>a w. f (snd (addr_to_string SOCK_STREAM a w)) = f w)"

lemma os_run_attached: "os_run wr xs (bad, b, w) = (r, bad', b', w') \<Longrightarrow> ob_live b' = ob_live b \<and> ob_rw b' = ob_rw b"
proof (induction xs arbitrary: bad b w)
  case (Cons x xs)
  obtain y bad1 b1 w1 where y: "os_do wr x (bad, b, w) = (y, bad1, b1, w1)" by (rule prod_cases4)
  show ?case using Cons.IH [of bad1 b1 w1] Cons.prems y os_do_frame [OF y] by (cases y) (auto simp: sbind_def)
qed simp

lemma write_attached:
  assumes "still fd f" "os_run (socket_write fd) ops (t_bad t, t_out t, t_os t) = (x, bad, b, w)" "attached f k t"
  shows "attached f k (t\<lparr>t_bad := bad, t_out := b, t_os := w\<rparr>)"
  using os_run_attached [OF assms(2)] os_run_world [OF _ assms(2), of f] assms(1,3)
  by (simp add: attached_def still_def)

lemma saves_handlers [saves_intros]:
  assumes "still fd f"
  shows "saves (\<lambda>s. attached f k (fst s)) (responder fd h line status)"
    and "saves (\<lambda>s. attached f k (fst s)) (greeter fd g status)"
  using write_attached [OF assms]
  by (auto intro!: savesI simp: responder_def greeter_def split: prod.splits)

lemma getline_attached:
  assumes "still fd f" "tcp_getline fd n l t = (r, t')" "attached f k t"
  shows "attached f k t'"
proof -
  have "t_out t' = t_out t"
    using assms(2) by (auto simp: tcp_getline_def split: sum.splits prod.splits if_splits)
  then show ?thesis
    using tcp_getline_keeps [OF _ assms(2), of f] assms(1,3) by (simp add: attached_def still_def)
qed

lemma saves_handle_line [saves_intros]:
  assumes "still fd f" "\<And>line. saves (\<lambda>s. attached f k (fst s)) (handler line status)"
  shows "saves (\<lambda>s. attached f k (fst s)) (tcp_handle_line fd maxlen handler status run)"
proof (rule savesI)
  fix s r s'
  assume h: "tcp_handle_line fd maxlen handler status run s = (r, s')" and a: "attached f k (fst s)"
  obtain x t where g: "tcp_getline fd maxlen [] (fst s) = (x, t)" by (rule prod.exhaust)
  from getline_attached [OF assms(1) g a] have t: "attached f k t" .
  show "attached f k (fst s')"
    using h a g t savesD [OF assms(2)]
    by (auto simp: tcp_handle_line_def split: sum.splits if_splits)
qed

lemma saves_serve [saves_intros]:
  assumes "still fd f" "\<And>line. saves (\<lambda>s. attached f k (fst s)) (handler line status)"
  shows "saves (\<lambda>s. attached f k (fst s)) (tcp_serve n i runs fd maxlen handler status)"
proof (induction n arbitrary: i)
  case (Suc n)
  then show ?case unfolding tcp_serve.simps using assms by (intro saves_intros) auto
qed (simp add: saves_intros)

lemma saves_handle_connection [saves_intros]:
  assumes "still fd f"
  shows "saves (\<lambda>s. attached f k (fst s))
    (tcp_handle_connection n runs fd p (map_option (greeter fd) g) (responder fd h) status)"
  unfolding tcp_handle_connection_def
  by (intro saves_intros assms) (cases g; simp add: saves_intros assms)

text \<open>The operations of the thread.\<close>

lemma saves_on_tcp [saves_intros]:
  assumes "saves (\<lambda>s. attached f k (fst s)) m"
  shows "saves (\<lambda>s. attached f k (tt_tcp s)) (on_tcp m)"
  by (rule savesI) (auto simp: on_tcp_def dest: savesD [OF assms] split: prod.splits)

lemma saves_say [saves_intros]:
  "saves (\<lambda>s. attached f k (tt_tcp s)) (tt_say e)"
  "saves (\<lambda>s. attached f k (tt_tcp s)) (smod (\<lambda>s. s\<lparr>tt_run := False\<rparr>))"
  by (simp_all add: saves_def tt_say_def)

lemma saves_peer [saves_intros]:
  assumes "still fd f"
  shows "saves (\<lambda>s. attached f k (tt_tcp s)) (tt_say_peer c q before after)"
proof -
  have "attached f k (t\<lparr>t_os := w\<rparr>)"
    if "addr_to_string SOCK_STREAM (con_peer c) (t_os t) = (r, w)" "attached f k t" for t r w
    using assms that unfolding still_def attached_def by (metis snd_conv tcp.select_convs(4) tcp.select_convs(5)
      tcp.update_convs(5) tcp.surjective)
  then have "saves (\<lambda>s. attached f k (fst s))
      (\<lambda>(t, e). case addr_to_string SOCK_STREAM (con_peer c) (t_os t) of (r, w) \<Rightarrow> (r, (t\<lparr>t_os := w\<rparr>, e)))"
    by (auto intro!: savesI split: prod.splits)
  then show ?thesis unfolding tt_say_peer_def by (intro saves_intros)
qed

lemma drain_keeps: "read_keeps (socket_read fd) f \<Longrightarrow> drain fd s = (r, s') \<Longrightarrow> f (snd s') = f (snd s)"
proof (induction fd s rule: drain.induct)
  case (1 fd s)
  obtain x s1 where x: "sbumpc (socket_read fd) s = (x, s1)" by (rule prod.exhaust)
  have "f (snd s1) = f (snd s)" by (rule sbumpc_keeps [OF "1.prems"(1) x])
  then show ?case
    using "1.IH" [OF x [symmetric]] "1.prems" x by (subst (asm) drain.simps) (auto split: sum.splits option.splits)
qed

lemma saves_wait [saves_intros]:
  assumes "still fd f"
  shows "saves (\<lambda>s. attached f k (fst s)) (\<lambda>(t, e). case wait_for_close fd t of (r, t') \<Rightarrow> (r, (t', e)))"
  using assms drain_keeps [of fd f]
  by (auto intro!: savesI simp: wait_for_close_def attached_def still_def split: prod.splits if_splits)

lemma saves_thread [saves_intros]:
  assumes "still (con_fd c) f"
  shows "saves (\<lambda>s. attached f k (tt_tcp s)) (tt_body n runs p (map_option (greeter (con_fd c)) g) (responder (con_fd c) h) status c)"
    and "saves (\<lambda>s. attached f k (tt_tcp s)) (tt_inner_catch p c e)"
    and "saves (\<lambda>s. attached f k (tt_tcp s)) (tt_outer_catch c e)"
proof -
  note ops = saves_bind saves_basic saves_if saves_on_tcp saves_say saves_peer [OF assms]
    saves_handle_connection [OF assms] saves_wait [OF assms]
  show "saves (\<lambda>s. attached f k (tt_tcp s)) (tt_body n runs p (map_option (greeter (con_fd c)) g) (responder (con_fd c) h) status c)"
    unfolding tt_body_def by (intro ops)
  show "saves (\<lambda>s. attached f k (tt_tcp s)) (tt_inner_catch p c e)"
    unfolding tt_inner_catch_def by (intro saves_exc ops)
  show "saves (\<lambda>s. attached f k (tt_tcp s)) (tt_outer_catch c e)"
    unfolding tt_outer_catch_def by (intro ops)
qed

section \<open>The end of a connection\<close>

text \<open>How often one direction of a socket has been shut down.\<close>

definition shut_downs :: "int \<Rightarrow> bool \<Rightarrow> os \<Rightarrow> nat" where
  "shut_downs fd wr w = length (filter (\<lambda>x. fst x = C_shutdown fd wr) (trace w))"

lemma shut_downs_calls:
  assumes "trace w' = trace w @ xs" "\<forall>x \<in> set xs. fst x = cl" "cl \<noteq> C_shutdown fd wr"
  shows "shut_downs fd wr w' = shut_downs fd wr w"
proof -
  have "filter (\<lambda>x. fst x = C_shutdown fd wr) xs = []" using assms(2,3) by (auto simp: filter_empty_conv)
  then show ?thesis by (simp add: shut_downs_def assms(1))
qed

lemma getnameinfo_shuts: "my_getnameinfo type a n u q w = (r, w') \<Longrightarrow> shut_downs fd wr w' = shut_downs fd wr w"
  by (auto simp: my_getnameinfo_def sbind_def sys_def shut_downs_def split: list.splits if_splits)

lemma to_string_shuts: "addr_to_string type a w = (r, w') \<Longrightarrow> shut_downs fd wr w' = shut_downs fd wr w"
  by (auto simp: addr_to_string_def addr_host_def addr_port_def sbind_def slift_def
      dest!: getnameinfo_shuts [where fd = fd and wr = wr] split: sum.splits prod.splits)

lemma still_shuts: "still fd (shut_downs fd' wr)"
proof -
  have "shut_downs fd' wr w' = shut_downs fd' wr w" if "socket_read fd n w = (r, w')" for n w r w'
    using socket_read_calls [OF that] by (auto intro: shut_downs_calls)
  moreover have "shut_downs fd' wr w' = shut_downs fd' wr w" if "socket_write fd d w = (r, w')" for d w r w'
    using socket_write_calls [OF that] by (auto intro: shut_downs_calls)
  ultimately show ?thesis
    unfolding still_def read_keeps_def
    by (metis kept_byI prod.collapse to_string_shuts)
qed

lemma still_balance: "still fd (balance f)"
  unfolding still_def using socket_keeps(1,3) quiet_to_string by (auto simp: quiet_def)

lemma shutdown_shuts:
  "socket_shutdown_write fd w = (Inr u, w') \<Longrightarrow> shut_downs fd wr w' = shut_downs fd wr w + (if wr then 1 else 0)"
  "socket_shutdown_read fd w = (Inr u, w') \<Longrightarrow> shut_downs fd wr w' = shut_downs fd wr w + (if wr then 0 else 1)"
  by (auto simp: socket_shutdown_write_def socket_shutdown_read_def sys_def sbind_def shut_downs_def split: list.splits)

text \<open>The destructors of the two streams.\<close>

lemma tcp_close_shuts:
  assumes "tcp_close c t = (Inr u, t')" "ob_rw (t_out t)" "ob_live (t_out t)"
  shows "shut_downs (con_fd c) wr (t_os t') = Suc (shut_downs (con_fd c) wr (t_os t))"
    and "balance f (t_os t') = balance f (t_os t)" and "t_out t' = t_out t"
proof -
  let ?fd = "con_fd c"
  obtain w1 where 1: "destroy_onstream c (t_out t) (t_os t) = (Inr (), w1)"
    and 2: "socket_shutdown_read ?fd w1 = (Inr (), t_os t')" and t': "t' = t\<lparr>t_os := t_os t'\<rparr>"
    using assms(1) by (auto simp: tcp_close_def is_destroy_def connection_shutdown_read_def elim!: sbind_InrE split: prod.splits)
  obtain x b w0 where 0: "ob_flush (socket_write ?fd) (t_out t, t_os t) = (Inr x, b, w0)"
    and 3: "socket_shutdown_write ?fd w0 = (Inr (), w1)"
    using 1 assms(2,3)
    by (auto simp: destroy_onstream_def ob_destroy_def ob_sync_def connection_shutdown_write_def elim!: sbind_InrE
        split: prod.splits)
  have "shut_downs ?fd wr w0 = shut_downs ?fd wr (t_os t)"
    using ob_flush_world [OF _ 0] still_shuts by (auto simp: still_def)
  then show "shut_downs ?fd wr (t_os t') = Suc (shut_downs ?fd wr (t_os t))"
    using shutdown_shuts(1) [OF 3, of wr] shutdown_shuts(2) [OF 2, of wr] by simp
  have "balance f w0 = balance f (t_os t)"
    using ob_flush_world [OF _ 0] still_balance by (auto simp: still_def)
  then show "balance f (t_os t') = balance f (t_os t)"
    using shutdown_keeps(1) [OF disjI2 [OF 3]] shutdown_keeps(1) [OF disjI1 [OF 2]] by simp
  show "t_out t' = t_out t" by (subst t') simp
qed

lemma tcp_close_error: "tcp_close c t = (Inl e, t') \<Longrightarrow> \<not> is_std_exception e"
  by (auto simp: tcp_close_def is_destroy_def connection_shutdown_read_def connection_shutdown_write_def
      destroy_onstream_def ob_destroy_def ob_sync_def ob_flush_def c_assert_def Let_def sys_def sbind_def
      socket_shutdown_read_def socket_shutdown_write_def dest!: socket_write_Inl
      split: prod.splits sum.splits list.splits if_splits)

text \<open>If the thread returns, the socket has been shut down once more in each direction, whatever the client
  sent, the welcome function and the handler wrote, returned or threw and whether writing failed; and it
  has opened and closed no descriptor.\<close>

lemma connection_thread_keeps:
  assumes "tcp_thread n runs p (map_option (greeter (con_fd c)) g) (responder (con_fd c) h) status c s = (Inr (), s')"
    and "tt_run s"
  shows "shut_downs (con_fd c) wr (t_os (tt_tcp s')) = Suc (shut_downs (con_fd c) wr (t_os (tt_tcp s)))
    \<and> balance f (t_os (tt_tcp s')) = balance f (t_os (tt_tcp s))"
proof -
  let ?fd = "con_fd c" and ?B = "scatch (tt_body n runs p (map_option (greeter (con_fd c)) g) (responder (con_fd c) h) status c) (tt_inner_catch p c)"
  let ?C = "on_tcp (\<lambda>(t, e). case tcp_close c t of (r, t') \<Rightarrow> (r, (t', e))) :: ('a tcp_thread_state, unit) sx"
  let ?shuts = "shut_downs ?fd wr" and ?w = "t_os (tt_tcp s)"
  define look where "look w = (shut_downs (con_fd c) wr w, balance f w)" for w
  have st: "still ?fd look"
    using still_shuts [of ?fd ?fd wr] still_balance [of ?fd f]
    by (simp add: still_def read_keeps_def kept_by_def look_def)
  obtain t where t: "tcp_open c ?w = Inr t" "attached look (look ?w) t"
    by (simp add: tcp_open_new attached_def)
  define s1 where "s1 = s\<lparr>tt_log := new_slog, tt_tcp := t\<rparr>"
  obtain r1 s2 where b: "?B s1 = (r1, s2)" by (rule prod.exhaust)
  have s2: "attached look (look ?w) (tt_tcp s2)"
    using savesD [OF saves_catch [OF saves_thread(1,2) [OF st]] b] t(2) by (simp add: s1_def)
  obtain x t3 where x: "tcp_close c (tt_tcp s2) = (x, t3)" by (rule prod.exhaust)
  have c: "?C s2 = (x, s2\<lparr>tt_tcp := t3\<rparr>)" by (simp add: on_tcp_def x)
  have run: "scatch (sfinally ?B ?C) (tt_outer_catch c) s1 = (Inr (), s')"
    using assms t(1) by (simp add: tcp_thread_def scatch_def sbind_def s1_def)
  have ok: "x = Inr ()" "\<And>e. r1 = Inl e \<Longrightarrow> is_std_exception e"
    using run b c tcp_close_error x
    by (cases x; cases r1; force simp: scatch_def sfinally_def sbind_def split: if_splits)+
  have t3: "attached look (Suc (?shuts ?w), balance f ?w) t3"
    using tcp_close_shuts [OF x [unfolded ok(1)]] s2 by (simp add: attached_def look_def)
  have "attached look (Suc (?shuts ?w), balance f ?w) (tt_tcp s')"
  proof (cases r1)
    case (Inl e)
    then have "tt_outer_catch c e (s2\<lparr>tt_tcp := t3\<rparr>) = (Inr (), s')"
      using run b c ok by (simp add: scatch_def sfinally_def sbind_def)
    then show ?thesis using savesD [OF saves_thread(3) [OF st]] t3 by fastforce
  next
    case (Inr u)
    then have "s' = s2\<lparr>tt_tcp := t3\<rparr>" using run b c ok by (simp add: scatch_def sfinally_def sbind_def)
    then show ?thesis using t3 by simp
  qed
  then show ?thesis by (simp add: attached_def look_def)
qed

text \<open>A run of the thread of theory Conn_Server's client.\<close>

definition quiet_parameters :: server_parameters where
  "quiet_parameters = default_parameters\<lparr>log_connections := False, accept_timeout := Fin (- 1), sp_timeout := Fin 0\<rparr>"

lemma sample_thread:
  assumes "answers (t_os (tt_tcp s)) = Data [CHR ''q'', newline_char] # Ret 3 # Ret 0 # Ret 0 # as" "tt_run s"
  shows "\<exists>s'. tcp_thread 1 (\<lambda>_. True) quiet_parameters (map_option (greeter (con_fd sample_peer)) None)
      (responder (con_fd sample_peer) goodbye) st sample_peer s = (Inr (), s') \<and> answers (t_os (tt_tcp s')) = as"
proof -
  have fd: "con_fd sample_peer = 5" by (simp add: sample_peer_def)
  obtain t where t: "tcp_open sample_peer (t_os (tt_tcp s)) = Inr t" by (simp add: tcp_open_new)
  have p: "5 < max_line_length quiet_parameters" by (simp add: quiet_parameters_def default_parameters_def)
  have e: "tt_env s = ()" by simp
  obtain t' where t': "tcp_handle_connection 1 (\<lambda>_. True) 5 quiet_parameters (map_option (greeter 5) None) (responder 5 goodbye) st (t, ())
      = (Inr (), (t', ()))" "answers (t_os t') = Ret 0 # Ret 0 # as" "t_out t' = t_out t"
    using sample_serving [OF assms(1) t p] by fastforce
  obtain w1 where w1: "socket_shutdown_write 5 (t_os t') = (Inr (), w1)" "answers w1 = Ret 0 # as"
    using answer_step(1) [OF t'(2), of "C_shutdown 5 True"] by (auto simp: socket_shutdown_write_def sbind_def)
  obtain w2 where w2: "socket_shutdown_read 5 w1 = (Inr (), w2)" "answers w2 = as"
    using answer_step(1) [OF w1(2), of "C_shutdown 5 False"] by (auto simp: socket_shutdown_read_def sbind_def)
  have cl: "tcp_close sample_peer t' = (Inr (), t'\<lparr>t_os := w2\<rparr>)"
    using t t'(3) w1 w2(1)
    by (simp add: tcp_open_new tcp_close_def destroy_onstream_def ob_destroy_def ob_sync_def ob_flush_def sbind_def
        is_destroy_def connection_shutdown_read_def connection_shutdown_write_def fd)
  have "\<not> log_connections quiet_parameters" by (simp add: quiet_parameters_def)
  then show ?thesis
    using t t'(1) cl assms(2) w2(2)
    by (simp add: tcp_thread_def scatch_def sfinally_def sbind_def tt_body_def on_tcp_def fd)
qed

end
