(* ===== verification/Listener.thy ===== *)
theory Listener
  imports Server_Run Conn_Thread
begin

text \<open>
  The listening thread (\<^verbatim>\<open>server_thread::operator()\<close> of \<^verbatim>\<open>src/sys/server.cpp\<close>) over the sockets of theory
  Net, and the life of a connection from the call of \<^verbatim>\<open>accept\<close> to its destructor. What the thread does
  between two tests of the running flag is one operation here; each is a step of the relation of theory
  Server_Run, which has the other threads.
\<close>

section \<open>The listening thread\<close>

text \<open>The local variables of the function, the running flag, and the connections that have been given to
  threads of their own.\<close>

record lthread =
  lt_run :: bool
  lt_status :: server_status
  lt_rates :: connection_rates
  lt_log :: slog
  lt_started :: "connection list"
  lt_os :: os

definition on_lt_os :: "(os, 'a) sx \<Rightarrow> (lthread, 'a) sx" where
  "on_lt_os m s = (case m (lt_os s) of (r, w) \<Rightarrow> (r, s\<lparr>lt_os := w\<rparr>))"

definition lt_say :: "(slog \<Rightarrow> slog) \<Rightarrow> (lthread, unit) sx" where
  "lt_say f = smod (\<lambda>s. s\<lparr>lt_log := f (lt_log s)\<rparr>)"

text \<open>Destructors are \<^verbatim>\<open>noexcept\<close>: an exception that leaves one terminates the program.\<close>

definition nothrow :: "('s, 'a) sx \<Rightarrow> ('s, 'a) sx" where
  "nothrow m s =
     (case m s of
        (Inl e, s') \<Rightarrow> (Inl (if is_std_exception e then Abort ''terminate'' else e), s')
      | (Inr x, s') \<Rightarrow> (Inr x, s'))"

text \<open>The beginning, up to the loop: the log, the status and the estimators.\<close>

definition listen_start :: "server_parameters \<Rightarrow> acceptor \<Rightarrow> (lthread, unit) sx" where
  "listen_start p a =
     sbind (smod (\<lambda>s. s\<lparr>lt_log := log_params p True new_slog\<rparr>)) (\<lambda>_.
     sbind (lt_say (lg_begin NOTICE ''Listening for incoming connections on '')) (\<lambda>_.
     sbind (on_lt_os (addr_to_string SOCK_STREAM (acc_local a))) (\<lambda>l.
     sbind (lt_say (lg_end l)) (\<lambda>_.
     sbind (smod (\<lambda>s. s\<lparr>lt_status := new_status p\<rparr>)) (\<lambda>_.
     sbind (slift (new_rates p)) (\<lambda>r. smod (\<lambda>s. s\<lparr>lt_rates := r\<rparr>)))))))"

text \<open>The counter sentry, and the estimators with the status.\<close>

definition add_current :: "int \<Rightarrow> (lthread, unit) sx" where
  "add_current d = smod (\<lambda>s. s\<lparr>lt_status := (lt_status s)\<lparr>connections_current := connections_current (lt_status s) + d\<rparr>\<rparr>)"

definition count_accepted :: "double \<Rightarrow> (lthread, unit) sx" where
  "count_accepted now =
     smod (\<lambda>s. let r = update_rates now (lt_rates s); st = update_status r (lt_status s)
               in s\<lparr>lt_rates := r, lt_status := st\<lparr>connections_total := connections_total st + 1\<rparr>\<rparr>)"

text \<open>The \<^verbatim>\<open>try\<close> block; \<open>now\<close> is the time of the clock, \<open>started\<close> what starting a thread gives or throws. An
  exception destroys what has been constructed, the sentry before the connection.\<close>

definition listen_try :: "server_parameters \<Rightarrow> acceptor \<Rightarrow> double \<Rightarrow> unit result \<Rightarrow> (lthread, unit) sx" where
  "listen_try p a now started =
     sbind (on_lt_os (accept_connection a (accept_timeout p))) (\<lambda>c.
     on_exception
       (sbind (on_lt_os (set_timeout c (sp_timeout p))) (\<lambda>_.
        sbind (count_accepted now) (\<lambda>_.
        sbind (add_current 1) (\<lambda>_.
        sbind (on_exception (slift started) (add_current (- 1))) (\<lambda>_.
        smod (\<lambda>s. s\<lparr>lt_started := lt_started s @ [c]\<rparr>))))))
       (nothrow (on_lt_os (socket_destroy (con_fd c)))))"

text \<open>One turn of the loop with both handlers. An exception of \<open>sleep\<close> leaves the function.\<close>

definition listen_turn :: "server_parameters \<Rightarrow> acceptor \<Rightarrow> double \<Rightarrow> unit result \<Rightarrow> (lthread, unit) sx" where
  "listen_turn p a now started =
     scatch (listen_try p a now started)
       (\<lambda>e. case e of
              Timeout_exception _ \<Rightarrow> sret ()
            | _ \<Rightarrow> sbind (lt_say (lg_error ''Failed to handle incoming connection'' (what e))) (\<lambda>_.
                   on_lt_os (sleep (Fin 1))))"

text \<open>The end of the loop, and the \<open>n\<close>th turn of the one that waits for the connections: whether it goes on.\<close>

definition listen_end :: "(lthread, unit) sx" where
  "listen_end = lt_say (lg_entry NOTICE ''Service loop terminated and shutdown initiated...'')"

definition drain_turn :: "nat \<Rightarrow> (lthread, bool) sx" where
  "drain_turn n s =
     (let count = connections_current (lt_status s)
      in if 0 = count then sbind (lt_say (lg_entry NOTICE ''Service shutdown complete'')) (\<lambda>_. sret False) s
         else
           sbind (if 0 = n mod 10
                  then lt_say (lg_entry NOTICE (''Waiting for '' @ int_to_string count
                         @ '' connection(s) to exit: Time [s]: '' @ nat_to_string n))
                  else sskip) (\<lambda>_.
           sbind (on_lt_os (sleep (Fin 1))) (\<lambda>_. sret True)) s)"

text \<open>The function. What it meets in the \<open>i\<close>th turn of a loop: the running flag, how many connections have
  ended since the turn before, the time, and what starting a thread gives. The bounds are on the turns.\<close>

record turn =
  tu_runs :: bool
  tu_ended :: nat
  tu_now :: double
  tu_started :: "unit result"

fun accept_loop :: "nat \<Rightarrow> nat \<Rightarrow> (nat \<Rightarrow> turn) \<Rightarrow> server_parameters \<Rightarrow> acceptor \<Rightarrow> (lthread, unit) sx" where
  "accept_loop 0 i env p a = sthrow Fuel"
| "accept_loop (Suc n) i env p a =
     sbind (add_current (- int (tu_ended (env i)))) (\<lambda>_.
     if \<not> tu_runs (env i) then sret ()
     else sbind (listen_turn p a (tu_now (env i)) (tu_started (env i))) (\<lambda>_. accept_loop n (Suc i) env p a))"

fun drain_loop :: "nat \<Rightarrow> nat \<Rightarrow> (nat \<Rightarrow> turn) \<Rightarrow> (lthread, unit) sx" where
  "drain_loop 0 i env = sthrow Fuel"
| "drain_loop (Suc n) i env =
     sbind (add_current (- int (tu_ended (env i)))) (\<lambda>_.
     sbind (drain_turn i) (\<lambda>go. if go then drain_loop n (Suc i) env else sret ()))"

definition server_operator ::
  "nat \<Rightarrow> nat \<Rightarrow> (nat \<Rightarrow> turn) \<Rightarrow> (nat \<Rightarrow> turn) \<Rightarrow> server_parameters \<Rightarrow> acceptor \<Rightarrow> (lthread, unit) sx" where
  "server_operator n m env denv p a =
     sbind (listen_start p a) (\<lambda>_.
     sbind (accept_loop n 0 env p a) (\<lambda>_.
     sbind listen_end (\<lambda>_. drain_loop m 0 denv)))"

section \<open>The life of a connection\<close>

text \<open>The function of the thread and then its members, the connection among them.\<close>

definition connection_life ::
  "nat \<Rightarrow> (nat \<Rightarrow> bool) \<Rightarrow> server_parameters \<Rightarrow> 'e tcp_writer option \<Rightarrow> 'e tcp_handler \<Rightarrow> server_status \<Rightarrow> connection
     \<Rightarrow> ('e tcp_thread_state, unit) sx" where
  "connection_life n runs p welcome handler st c =
     sbind (tcp_thread n runs p welcome handler st c) (\<lambda>_.
     on_tcp (\<lambda>(t, e). case nothrow (socket_destroy (con_fd c)) (t_os t) of (r, w) \<Rightarrow> (r, (t\<lparr>t_os := w\<rparr>, e))))"

section \<open>Steps of the server\<close>

text \<open>The state of the server with the threads \<open>cs\<close> and the listening thread at \<open>ph\<close>.\<close>

definition server_of :: "lphase \<Rightarrow> 'e conn list \<Rightarrow> lthread \<Rightarrow> 'e server" where
  "server_of ph cs s =
     \<lparr>running = lt_run s, status = lt_status s, rates = lt_rates s, listener = ph, llog = lt_log s, conns = cs\<rparr>"

lemma server_of_same:
  "lt_run s' = lt_run s \<Longrightarrow> lt_status s' = lt_status s \<Longrightarrow> lt_rates s' = lt_rates s \<Longrightarrow> lt_log s' = lt_log s \<Longrightarrow>
     server_of ph cs s' = server_of ph cs s"
  by (simp add: server_of_def)

lemma on_lt_os_sel:
  "on_lt_os m s = (r, s') \<Longrightarrow> lt_run s' = lt_run s \<and> lt_status s' = lt_status s \<and> lt_rates s' = lt_rates s
     \<and> lt_log s' = lt_log s \<and> lt_started s' = lt_started s \<and> m (lt_os s) = (r, lt_os s')"
  by (auto simp: on_lt_os_def split: prod.splits)

text \<open>What the \<^verbatim>\<open>try\<close> block does to the state of the server: it accepts a connection, or it counts one or not
  and throws.\<close>

lemma listen_try_step:
  assumes "listen_try p a now started s = (r, s')" "\<And>e. r = Inl e \<Longrightarrow> is_std_exception e"
    and "\<And>m. started \<noteq> Inl (Timeout_exception m)"
  shows "case r of
      Inr _ \<Rightarrow> \<exists>c. lt_started s' = lt_started s @ [c]
        \<and> server_of Checking (cs @ [k]) s' = l_accept now k (server_of Accepting cs s)
    | Inl e \<Rightarrow> lt_started s' = lt_started s
        \<and> (server_of Accepting cs s' = server_of Accepting cs s
           \<or> server_of Accepting cs s' = count_connection now (server_of Accepting cs s) \<and> untimed e)"
proof -
  obtain x s1 where a: "on_lt_os (accept_connection a (accept_timeout p)) s = (x, s1)" by (rule prod.exhaust)
  note a1 = on_lt_os_sel [OF a]
  show ?thesis
  proof (cases x)
    case (Inl e)
    then show ?thesis using assms a a1 by (auto simp: listen_try_def sbind_def server_of_def)
  next
    case (Inr c)
    obtain y s2 where b: "on_lt_os (set_timeout c (sp_timeout p)) s1 = (y, s2)" by (rule prod.exhaust)
    note b1 = on_lt_os_sel [OF b]
    obtain z w where d: "socket_destroy (con_fd c) (lt_os s2) = (z, w)" by (rule prod.exhaust)
    note run = assms(1) [unfolded listen_try_def sbind_def a Inr, simplified]
    show ?thesis
    proof (cases y)
      case e: (Inl e)
      have "is_std_exception e"
        using run b e assms(2) by (auto simp: on_exception_def sbind_def split: if_splits)
      then show ?thesis
        using run b d e a1 b1
        by (auto simp: on_exception_def sbind_def on_lt_os_def server_of_def nothrow_def split: sum.splits)
    next
      case (Inr u)
      show ?thesis
        using run b d Inr a1 b1 assms(2,3)
        by (cases started; cases z)
          (auto simp: on_exception_def sbind_def on_lt_os_def server_of_def count_accepted_def add_current_def nothrow_def untimed_def
            slift_def l_accept_def count_connection_def Let_def split: if_splits)
    qed
  qed
qed

text \<open>The other operations of the thread.\<close>

lemma entry_in_parts: "lg_end l (lg_begin q t g) = lg_entry q (t @ l) g"
  by (simp add: lg_entry_def lg_begin_def lg_end_def)

lemma listen_start_new:
  assumes "listen_start p a s = (Inr u, s')" "lt_run s"
  shows "\<exists>l. new_server p l = Inr (server_of Checking [] s')"
proof -
  let ?s1 = "s\<lparr>lt_log := lg_begin NOTICE ''Listening for incoming connections on '' (log_params p True new_slog)\<rparr>"
  obtain l s2 r where s2: "on_lt_os (addr_to_string SOCK_STREAM (acc_local a)) ?s1 = (Inr l, s2)" and r: "new_rates p = Inr r"
    and s': "s' = s2\<lparr>lt_log := lg_end l (lt_log s2), lt_status := new_status p, lt_rates := r\<rparr>"
    using assms(1)
    by (cases "new_rates p") (auto simp: listen_start_def lt_say_def slift_def elim!: sbind_InrE)
  have "new_server p l = Inr (server_of Checking [] s')"
    using on_lt_os_sel [OF s2] r assms(2)
    by (simp add: new_server_def server_of_def s' entry_in_parts del: append.simps)
  then show ?thesis by blast
qed

lemma listen_end_step:
  assumes "listen_end s = (r, s')" "\<not> lt_run s" "list_all (\<lambda>c. phase c \<noteq> Terminated) cs"
  shows "r = Inr () \<and> sstep p wel h (server_of Checking cs s) (server_of (Draining 0) cs s')"
proof -
  have "program_runs (server_of Checking cs s)" "listener (server_of Checking cs s) = Checking"
    using assms(3) by (simp_all add: program_runs_def server_of_def list_all_iff)
  from s_check [OF this, of p wel h] show ?thesis
    using assms(1,2) by (auto simp: listen_end_def lt_say_def l_check_def server_of_def)
qed

lemma drain_turn_step:
  assumes "drain_turn n s = (r, s')" "\<And>e. r = Inl e \<Longrightarrow> is_std_exception e" "list_all (\<lambda>c. phase c \<noteq> Terminated) cs"
  shows "sstep p wel h (server_of (Draining n) cs s)
    (server_of (case r of Inl _ \<Rightarrow> Escaped | Inr go \<Rightarrow> if go then Draining (Suc n) else Stopped) cs s')"
proof -
  let ?S = "server_of (Draining n) cs s"
  have runs: "program_runs ?S" "listener ?S = Draining n"
    using assms(3) by (simp_all add: program_runs_def server_of_def list_all_iff)
  let ?s1 = "if 0 = n mod 10
    then s\<lparr>lt_log := lg_entry NOTICE (''Waiting for '' @ int_to_string (connections_current (lt_status s))
      @ '' connection(s) to exit: Time [s]: '' @ nat_to_string n) (lt_log s)\<rparr> else s"
  obtain x s2 where sl: "on_lt_os (sleep (Fin 1)) ?s1 = (x, s2)" by (rule prod.exhaust)
  have "server_of (case r of Inl _ \<Rightarrow> Escaped | Inr go \<Rightarrow> if go then Draining (Suc n) else Stopped) cs s'
    = l_drain n (is_ok x) ?S"
    using assms(1) sl on_lt_os_sel [OF sl]
    by (cases "connections_current (lt_status s) = 0"; cases "n mod 10 = 0"; cases x)
      (auto simp: drain_turn_def lt_say_def l_drain_def server_of_def sbind_def Let_def)
  then show ?thesis using s_drain [OF runs, of p wel h "is_ok x"] by simp
qed

section \<open>Counting\<close>

text \<open>How many of the connections given to threads have ended, as the counter has it.\<close>

definition ended :: "lthread \<Rightarrow> int" where
  "ended s = int (length (lt_started s)) - connections_current (lt_status s)"

lemma add_current_ended: "add_current (- d) s = (r, s') \<Longrightarrow> r = Inr () \<and> ended s' = ended s + d
    \<and> connections_total (lt_status s') = connections_total (lt_status s) \<and> lt_started s' = lt_started s"
  by (auto simp: add_current_def ended_def)

lemma current_of_steps [simp]:
  "connections_current (status (l_accept now k S)) = connections_current (status S) + 1"
  "connections_current (status (count_connection now S)) = connections_current (status S)"
  "connections_total (status (l_accept now k S)) = connections_total (status S) + 1"
  "connections_total (status (count_connection now S)) = connections_total (status S) + 1"
  by (simp_all add: l_accept_def count_connection_def update_status_def Let_def)

lemma server_of_status: "status (server_of ph cs s) = lt_status s"
  by (simp add: server_of_def)

lemma listen_try_ended:
  assumes "listen_try p a now started s = (r, s')" "\<And>e. r = Inl e \<Longrightarrow> is_std_exception e"
    and "\<And>m. started \<noteq> Inl (Timeout_exception m)"
  shows "ended s' = ended s \<and> connections_total (lt_status s') - int (length (lt_started s'))
    \<ge> connections_total (lt_status s) - int (length (lt_started s))"
proof -
  note step = listen_try_step [OF assms, of "[]" "undefined :: unit conn"]
  show ?thesis
  proof (cases r)
    case (Inr u)
    then obtain c where c: "lt_started s' = lt_started s @ [c]"
      "server_of Checking [undefined] s' = l_accept now (undefined :: unit conn) (server_of Accepting [] s)"
      using step by auto
    have "connections_current (lt_status s') = connections_current (lt_status s) + 1"
      "connections_total (lt_status s') = connections_total (lt_status s) + 1"
      using arg_cong [OF c(2), of "\<lambda>S. connections_current (status S)"]
        arg_cong [OF c(2), of "\<lambda>S. connections_total (status S)"] by (simp_all add: server_of_status)
    then show ?thesis using c(1) by (simp add: ended_def)
  next
    case (Inl e)
    let ?S = "server_of Accepting ([] :: unit conn list)"
    have "lt_started s' = lt_started s" "?S s' = ?S s \<or> ?S s' = count_connection now (?S s)"
      using step Inl by auto
    then show ?thesis
      by (auto simp: ended_def server_of_status dest!: arg_cong [where f = status])
  qed
qed

lemma listen_turn_ended:
  assumes "listen_turn p a now started s = (Inr u, s')" "\<And>m. started \<noteq> Inl (Timeout_exception m)"
  shows "ended s' = ended s \<and> connections_total (lt_status s') - int (length (lt_started s'))
    \<ge> connections_total (lt_status s) - int (length (lt_started s))"
proof -
  obtain x s1 where t: "listen_try p a now started s = (x, s1)" by (rule prod.exhaust)
  have std: "is_std_exception e" if "x = Inl e" for e
    using assms(1) t that by (auto simp: listen_turn_def scatch_def split: if_splits)
  have "lt_status s' = lt_status s1 \<and> lt_started s' = lt_started s1"
  proof (cases x)
    case (Inr v)
    then show ?thesis using assms(1) t by (simp add: listen_turn_def scatch_def)
  next
    case (Inl e)
    then show ?thesis
      using assms(1) t std [OF Inl]
      by (cases e) (auto simp: listen_turn_def scatch_def sbind_def lt_say_def dest!: on_lt_os_sel)
  qed
  then show ?thesis using listen_try_ended [OF t std assms(2)] by (simp add: ended_def)
qed

lemma accept_loop_ended:
  assumes "\<And>i m. tu_started (env i) \<noteq> Inl (Timeout_exception m)"
  shows "accept_loop n i env p a s = (Inr u, s') \<Longrightarrow>
    \<exists>k \<ge> i. \<not> tu_runs (env k) \<and> (\<forall>j. i \<le> j \<and> j < k \<longrightarrow> tu_runs (env j))
      \<and> ended s' = ended s + int (\<Sum>j = i..k. tu_ended (env j))
      \<and> connections_total (lt_status s') - int (length (lt_started s'))
        \<ge> connections_total (lt_status s) - int (length (lt_started s))"
proof (induction n arbitrary: i s)
  case (Suc n)
  obtain r1 s1 where 1: "add_current (- int (tu_ended (env i))) s = (r1, s1)" by (rule prod.exhaust)
  note e1 = add_current_ended [OF 1]
  show ?case
  proof (cases "tu_runs (env i)")
    case False
    then have "s' = s1" using Suc.prems 1 e1 by (simp add: sbind_def)
    then show ?thesis using e1 False by (intro exI [of _ i]) auto
  next
    case True
    obtain v s2 where 2: "listen_turn p a (tu_now (env i)) (tu_started (env i)) s1 = (Inr v, s2)"
      "accept_loop n (Suc i) env p a s2 = (Inr u, s')"
      using Suc.prems 1 e1 True by (auto simp: sbind_def split: prod.splits sum.splits)
    from Suc.IH [OF 2(2)] obtain k where k: "Suc i \<le> k" "\<not> tu_runs (env k)"
      "\<forall>j. Suc i \<le> j \<and> j < k \<longrightarrow> tu_runs (env j)" "ended s' = ended s2 + int (\<Sum>j = Suc i..k. tu_ended (env j))"
      "connections_total (lt_status s') - int (length (lt_started s'))
        \<ge> connections_total (lt_status s2) - int (length (lt_started s2))" by blast
    have "\<forall>j. i \<le> j \<and> j < k \<longrightarrow> tu_runs (env j)" using k(3) True by (metis Suc_leI le_neq_implies_less)
    moreover have "(\<Sum>j = i..k. tu_ended (env j)) = tu_ended (env i) + (\<Sum>j = Suc i..k. tu_ended (env j))"
      using k(1) by (intro sum.atLeast_Suc_atMost) simp
    ultimately show ?thesis
      using k listen_turn_ended [OF 2(1) assms] e1 by (intro exI [of _ k]) simp
  qed
qed simp

lemma drain_loop_ended:
  "drain_loop n i env s = (Inr u, s') \<Longrightarrow>
     \<exists>k \<ge> i. ended s' = ended s + int (\<Sum>j = i..k. tu_ended (env j)) \<and> connections_current (lt_status s') = 0
       \<and> lt_started s' = lt_started s \<and> connections_total (lt_status s') = connections_total (lt_status s)"
proof (induction n arbitrary: i s)
  case (Suc n)
  obtain r1 s1 where 1: "add_current (- int (tu_ended (env i))) s = (r1, s1)" by (rule prod.exhaust)
  note e1 = add_current_ended [OF 1]
  obtain go s2 where 2: "drain_turn i s1 = (Inr go, s2)"
    "(if go then drain_loop n (Suc i) env else sret ()) s2 = (Inr u, s')"
    using Suc.prems 1 e1 by (auto simp: sbind_def split: prod.splits sum.splits)
  have s2: "lt_status s2 = lt_status s1" "lt_started s2 = lt_started s1" "\<not> go \<Longrightarrow> connections_current (lt_status s1) = 0"
    using 2(1)
    by (auto simp: drain_turn_def lt_say_def Let_def elim!: sbind_InrE dest!: on_lt_os_sel split: if_splits)
  show ?case
  proof (cases go)
    case False
    then have "s' = s2" using 2(2) by simp
    then show ?thesis using s2 False e1 by (intro exI [of _ i]) (auto simp: ended_def)
  next
    case True
    then have "drain_loop n (Suc i) env s2 = (Inr u, s')" using 2(2) by simp
    from Suc.IH [OF this] obtain k where k: "Suc i \<le> k" "ended s' = ended s2 + int (\<Sum>j = Suc i..k. tu_ended (env j))"
      "connections_current (lt_status s') = 0" "lt_started s' = lt_started s2"
      "connections_total (lt_status s') = connections_total (lt_status s2)" by blast
    have "(\<Sum>j = i..k. tu_ended (env j)) = tu_ended (env i) + (\<Sum>j = Suc i..k. tu_ended (env j))"
      using k(1) by (intro sum.atLeast_Suc_atMost) simp
    then show ?thesis using k e1 s2 by (intro exI [of _ k]) (auto simp: ended_def)
  qed
qed simp

text \<open>The bounds of the loops. If the flag is found cleared in the \<open>d\<close>th turn, no number above \<open>d\<close> makes a
  difference; if the connections that are left end within \<open>d\<close> turns, the last loop does not reach its
  bound.\<close>

lemma accept_loop_bound:
  "\<not> tu_runs (env (i + d)) \<Longrightarrow> d < n \<Longrightarrow> accept_loop n i env p a s = accept_loop (Suc d) i env p a s"
proof (induction d arbitrary: n i s)
  case 0
  then show ?case by (cases n) (auto simp: sbind_def add_current_def)
next
  case (Suc d)
  then obtain m where m: "n = Suc m" "d < m" by (cases n) auto
  have eq: "accept_loop m (Suc i) env p a = accept_loop (Suc d) (Suc i) env p a"
    by (rule ext, rule Suc.IH) (use Suc.prems m in simp_all)
  show ?case unfolding m(1) accept_loop.simps(2) [of m] accept_loop.simps(2) [of "Suc d"] eq by (rule refl)
qed

lemma to_long_error: "to_long x = Inl e \<Longrightarrow> e \<noteq> Fuel"
  by (cases x) (auto split: if_splits)

lemma sleep_hangs: "sleep t w = (Inl e, w') \<Longrightarrow> e \<noteq> Fuel"
  by (auto simp: sleep_def to_timespec_def to_fractional_def assertion_def c_assert_def rbind_def slift_def sys_def
      strerror_exception_def Let_def dest: to_long_error elim!: sbind_InlE split: if_splits list.splits sum.splits)

lemma drain_loop_ends:
  "connections_current (lt_status s) = int (\<Sum>j = i..i + d. tu_ended (env j)) \<Longrightarrow> d < n \<Longrightarrow>
     drain_loop n i env s = (r, s') \<Longrightarrow> r \<noteq> Inl Fuel"
proof (induction d arbitrary: n i s)
  case 0
  then obtain m where "n = Suc m" by (cases n) auto
  then show ?case using 0 by (auto simp: sbind_def add_current_def drain_turn_def lt_say_def)
next
  case (Suc d)
  then obtain m where m: "n = Suc m" "d < m" by (cases n) auto
  obtain u s1 where 1: "add_current (- int (tu_ended (env i))) s = (u, s1)" by (rule prod.exhaust)
  have sum: "(\<Sum>j = i..i + Suc d. tu_ended (env j)) = tu_ended (env i) + (\<Sum>j = Suc i..Suc i + d. tu_ended (env j))"
    by (subst sum.atLeast_Suc_atMost) auto
  have s1: "u = Inr ()" "connections_current (lt_status s1) = int (\<Sum>j = Suc i..Suc i + d. tu_ended (env j))"
    using 1 Suc.prems(1) unfolding sum by (auto simp: add_current_def)
  obtain x s2 where 2: "drain_turn i s1 = (x, s2)" by (rule prod.exhaust)
  have x: "x \<noteq> Inl Fuel" "x = Inr True \<longrightarrow> lt_status s2 = lt_status s1"
    using 2 sleep_hangs
    by (auto simp: drain_turn_def lt_say_def Let_def elim!: sbind_InrE sbind_InlE dest!: on_lt_os_sel split: if_splits)
  show ?case
  proof (cases "x = Inr True")
    case True
    then have "drain_loop m (Suc i) env s2 = (r, s')" using Suc.prems(3) m(1) 1 2 s1(1) by (simp add: sbind_def)
    then show ?thesis using Suc.IH [of s2 "Suc i" m] s1(2) x(2) True m(2) by simp
  next
    case False
    then show ?thesis using Suc.prems(3) m(1) 1 2 s1(1) x(1) by (auto simp: sbind_def split: sum.splits if_splits)
  qed
qed

section \<open>Descriptors\<close>

lemma accept_balance:
  assumes "accept_connection a t w = (Inr c, w')"
  shows "balance f w' = balance f w + (if f = con_fd c then 1 else 0)" "socket_valid (con_fd c)"
proof -
  obtain fd w1 where 1: "my_accept_timeout (acc_fd a) t w = (Inr fd, w1)" and 2: "socket_valid fd" "connection_of fd w1 = (Inr c, w')"
    using assms
    by (auto simp: accept_connection_def socket_adopt_def socket_setup_def throw_socket_error_def strerror_exception_def
        elim!: sbind_InrE split: if_splits)
  have acc: "balance f v' = balance f v + (if f = x then 1 else 0)" if m: "my_accept l v = (Inr x, v')" "socket_valid x" for l x v v'
  proof -
    obtain b where b: "eintr (C_accept l) v = (Inr b, v')" "x = ret_of b"
      using m(1)
      by (auto simp: my_accept_def throw_socket_error_def strerror_exception_def elim!: sbind_InrE split: if_splits)
    show ?thesis using balance_eintr [OF b(1), of f] b(2) m(2) by (simp add: socket_valid_def invalid_socket_def)
  qed
  have k: "quiet (sbind (my_getsockname fd) (\<lambda>l. sbind (my_getpeername fd) (\<lambda>p. sret \<lparr>con_fd = fd, con_local = l, con_peer = p\<rparr>)))"
    by (intro quiet_intros)
  have c: "sbind (my_getsockname fd) (\<lambda>l. sbind (my_getpeername fd) (\<lambda>p. sret \<lparr>con_fd = fd, con_local = l, con_peer = p\<rparr>)) w1
      = (Inr c, w')"
    using 2(2) by (auto simp: connection_of_def on_exception_def sbind_def split: prod.splits sum.splits if_splits)
  then have "con_fd c = fd" by (elim sbind_InrE) auto
  moreover have "balance f w1 = balance f w + (if f = fd then 1 else 0)"
  proof (cases "dless t (Fin 0)")
    case True
    then show ?thesis using 1 acc 2(1) by (simp add: my_accept_timeout_def)
  next
    case False
    then obtain v1 v2 v3 r where v: "bool_fcntl_option (acc_fd a) O_NONBLOCK ''Enabling nonblocking mode'' True w = (Inr (), v1)"
      "poll_one (acc_fd a) True t ''accepting connections'' v1 = (Inr r, v2)" "my_accept (acc_fd a) v2 = (Inr fd, v3)"
      "bool_fcntl_option fd O_NONBLOCK ''Disabling nonblocking mode'' False v3 = (Inr (), w1)"
      using 1 by (auto simp: my_accept_timeout_def slift_def throw_timeout_exception_def elim!: sbind_InrE split: if_splits)
    show ?thesis
      using quietD [OF quiet_net(1) v(1)] quietD [OF quiet_poll v(2)] acc [OF v(3) 2(1)] quietD [OF quiet_net(1) v(4)] by simp
  qed
  ultimately show "balance f w' = balance f w + (if f = con_fd c then 1 else 0)" "socket_valid (con_fd c)"
    using quietD [OF k c, of f] 2(1) by simp_all
qed

lemma quiet_timeout: "quiet (set_timeout c t)"
  unfolding set_timeout_def send_timeout_def receive_timeout_def by (intro quiet_intros)

lemma destroy_closes: "socket_valid fd \<Longrightarrow> socket_destroy fd w = (Inr u, w') \<Longrightarrow> fst (last (trace w')) = C_close fd"
  by (auto simp: socket_destroy_def socket_dispose_def sys_def on_log_def elim!: sbind_InrE
      split: list.splits if_splits prod.splits)

lemma destroy_shuts: "socket_destroy fd w = (Inr u, w') \<Longrightarrow> shut_downs fd' wr w' = shut_downs fd' wr w"
  by (auto simp: socket_destroy_def socket_dispose_def sys_def on_log_def shut_downs_def elim!: sbind_InrE
      split: list.splits if_splits prod.splits)

lemma tcp_thread_idle: "\<not> tt_run s \<Longrightarrow> tcp_thread n runs p welcome h st c s = (Inr (), s)"
  by (simp add: tcp_thread_def)

text \<open>A client that is accepted, with the timeouts of its connection.\<close>

definition sample_acceptor :: acceptor where
  "sample_acceptor = \<lparr>acc_fd = 3, acc_local = Addr AF_INET 80 []\<rparr>"

definition accept_answers :: "answer list" where
  "accept_answers = [Ret 5, Name (Addr AF_INET 1 []), Name (Addr AF_INET 2 []), Ret 0, Ret 0]"

lemma sample_accepted:
  assumes "answers w = accept_answers @ as"
  shows "\<exists>w1 w2. accept_connection sample_acceptor (Fin (- 1)) w = (Inr sample_peer, w1)
     \<and> set_timeout sample_peer (Fin 0) w1 = (Inr (), w2) \<and> answers w2 = as"
proof -
  have w: "answers w = Ret 5 # Name (Addr AF_INET 1 []) # Name (Addr AF_INET 2 []) # Ret 0 # Ret 0 # as"
    using assms by (simp add: accept_answers_def)
  obtain w1 where w1: "accept_connection sample_acceptor (Fin (- 1)) w = (Inr sample_peer, w1)" "answers w1 = Ret 0 # Ret 0 # as"
    using w
    by (simp add: accept_connection_def my_accept_timeout_def my_accept_def socket_adopt_def socket_setup_def socket_valid_def
        invalid_socket_def connection_of_def my_getsockname_def my_getpeername_def on_exception_def eintr_answer sys_def sbind_def
        sample_peer_def sample_acceptor_def)
  moreover obtain w2 where "set_timeout sample_peer (Fin 0) w1 = (Inr (), w2)" "answers w2 = as"
    using w1(2)
    by (simp add: set_timeout_def send_timeout_def receive_timeout_def time_sockopt_def enable_sockopt_def to_timeval_0
        sbind_def c_assert_def slift_def sys_def SO_SNDTIMEO_def SO_RCVTIMEO_def)
  ultimately show ?thesis by blast
qed

text \<open>The turn in which it is accepted.\<close>

lemma sample_turn:
  assumes "answers (lt_os s) = accept_answers @ as" "accept_timeout p = Fin (- 1)" "sp_timeout p = Fin 0"
  shows "\<exists>s'. listen_turn p sample_acceptor now (Inr ()) s = (Inr (), s') \<and> lt_started s' = lt_started s @ [sample_peer]
    \<and> connections_current (lt_status s') = connections_current (lt_status s) + 1"
proof -
  obtain w1 w2 where "accept_connection sample_acceptor (Fin (- 1)) (lt_os s) = (Inr sample_peer, w1)"
    "set_timeout sample_peer (Fin 0) w1 = (Inr (), w2)"
    using sample_accepted [OF assms(1)] by blast
  then show ?thesis
    using assms(2,3)
    by (simp add: listen_turn_def scatch_def listen_try_def sbind_def on_lt_os_def on_exception_def
        count_accepted_def add_current_def slift_def update_status_def Let_def)
qed

definition sample_listening :: server_parameters where
  "sample_listening = sample_parameters\<lparr>accept_timeout := Fin (- 1), sp_timeout := Fin 0\<rparr>"

lemma sample_rates: "\<exists>r. new_rates sample_parameters = Inr r" "\<exists>r. new_rates sample_listening = Inr r"
  by (simp_all add: new_rates_def sample_listening_def sample_parameters_def new_rate_estimator_def
      new_moving_average_def assertion_def)

lemma sample_start:
  assumes "answers (lt_os s) = Host h # Host k # as"
  shows "\<exists>s'. listen_start sample_listening sample_acceptor s = (Inr (), s') \<and> lt_started s' = lt_started s
    \<and> lt_status s' = new_status sample_listening \<and> answers (lt_os s') = as"
proof -
  obtain r where "new_rates sample_listening = Inr r" using sample_rates(2) by blast
  then show ?thesis
    using assms
    by (simp add: listen_start_def lt_say_def slift_def sbind_def on_lt_os_def addr_to_string_def addr_host_def addr_port_def
        my_getnameinfo_def sys_def sample_acceptor_def check_family_def assertion_def)
qed

section \<open>Properties\<close>

text \<open>C12: The listening thread over the sockets takes the steps of the server. From a state of the server in
  which the thread is inside the loop, a turn that returns or throws an exception either has given one
  more connection to a thread, and is the step that accepts it, or is one of the steps of a timeout or
  of a failure; it leaves the loop only by an exception of \<^verbatim>\<open>sleep\<close>. This holds for every answer of the
  system and every failure of starting a thread.\<close>

theorem listen_turn_is_a_step:
  assumes "listen_turn p a now started s = (r, s')" "\<And>e. r = Inl e \<Longrightarrow> is_std_exception e"
    and "\<And>m. started \<noteq> Inl (Timeout_exception m)" "list_all (\<lambda>c. phase c \<noteq> Terminated) cs"
  shows "(\<exists>c. r = Inr () \<and> lt_started s' = lt_started s @ [c]
      \<and> sstep p wel h (server_of Accepting cs s) (server_of Checking (cs @ [new_conn is e pr]) s'))
    \<or> (lt_started s' = lt_started s
      \<and> sstep p wel h (server_of Accepting cs s) (server_of (if is_ok r then Checking else Escaped) cs s'))"
proof -
  let ?S = "server_of Accepting cs s"
  have runs: "program_runs ?S" "listener ?S = Accepting"
    using assms(4) by (simp_all add: program_runs_def server_of_def list_all_iff)
  obtain x s1 where t: "listen_try p a now started s = (x, s1)" by (rule prod.exhaust)
  have std: "is_std_exception e1" if "x = Inl e1" for e1
    using assms(1,2) t that by (auto simp: listen_turn_def scatch_def split: if_splits)
  note try1 = listen_try_step [OF t std assms(3), of cs "new_conn is e pr"]
  show ?thesis
  proof (cases x)
    case (Inr u)
    then have "r = Inr ()" "s' = s1" using assms(1) t by (auto simp: listen_turn_def scatch_def)
    then show ?thesis using try1 Inr s_accept [OF runs] by auto
  next
    case (Inl e1)
    show ?thesis
    proof (cases "untimed e1")
      case False
      then have "r = Inr ()" "s' = s1"
        using assms(1) t Inl std [OF Inl] by (auto simp: listen_turn_def scatch_def untimed_def)
      then show ?thesis
        using try1 Inl False s_timeout [OF runs, of p wel h]
        by (auto simp: l_timeout_def server_of_def)
    next
      case True
      let ?s2 = "s1\<lparr>lt_log := lg_error ''Failed to handle incoming connection'' (what e1) (lt_log s1)\<rparr>"
      have sl: "on_lt_os (sleep (Fin 1)) ?s2 = (r, s')"
        using assms(1) t Inl std [OF Inl] True
        by (cases e1) (auto simp: listen_turn_def scatch_def sbind_def lt_say_def untimed_def)
      have "server_of (if is_ok r then Checking else Escaped) cs s'
        = l_failure (what e1) (is_ok r) (server_of Accepting cs s1)"
        using on_lt_os_sel [OF sl] by (simp add: server_of_def l_failure_def)
      then show ?thesis
        using try1 Inl on_lt_os_sel [OF sl] s_failure [OF runs, of p wel h "what e1" "is_ok r"]
          s_failure_late [OF runs, of p wel h "what e1" "is_ok r" now] by auto
    qed
  qed
qed

text \<open>C14: The listening thread waits for its connections. When its function returns, the flag has been found
  cleared, as many connections have ended as it has given to threads, counted from the first turn to
  the last, and the counter of current connections is zero; the counter of all connections is at least
  the number of those with a thread. This holds for every sequence of answers of the system, whenever
  the connections end and whichever threads cannot be started.\<close>

theorem server_waits_for_its_connections:
  assumes "server_operator n m env denv p a s = (Inr (), s')" "lt_started s = []"
    and "\<And>i m. tu_started (env i) \<noteq> Inl (Timeout_exception m)"
  shows "\<exists>k l. \<not> tu_runs (env k) \<and> (\<forall>j < k. tu_runs (env j))
    \<and> length (lt_started s') = (\<Sum>j \<le> k. tu_ended (env j)) + (\<Sum>j \<le> l. tu_ended (denv j))
    \<and> connections_current (lt_status s') = 0 \<and> int (length (lt_started s')) \<le> connections_total (lt_status s')"
proof -
  obtain s1 s2 s3 where 1: "listen_start p a s = (Inr (), s1)" and 2: "accept_loop n 0 env p a s1 = (Inr (), s2)"
    and 3: "listen_end s2 = (Inr (), s3)" and 4: "drain_loop m 0 denv s3 = (Inr (), s')"
    using assms(1) by (auto simp: server_operator_def elim!: sbind_InrE)
  have s1: "lt_started s1 = []" "lt_status s1 = new_status p"
    using 1 assms(2) by (auto simp: listen_start_def lt_say_def slift_def elim!: sbind_InrE dest!: on_lt_os_sel split: sum.splits)
  then have e1: "ended s1 = 0" "connections_total (lt_status s1) = 0" by (simp_all add: ended_def new_status_def)
  from accept_loop_ended [OF assms(3) 2] obtain k where k: "\<not> tu_runs (env k)" "\<forall>j<k. tu_runs (env j)"
    "ended s2 = int (\<Sum>j = 0..k. tu_ended (env j))" "connections_total (lt_status s2) \<ge> int (length (lt_started s2))"
    using e1 s1(1) by auto
  have s3: "lt_status s3 = lt_status s2" "lt_started s3 = lt_started s2" using 3 by (auto simp: listen_end_def lt_say_def)
  from drain_loop_ended [OF 4] obtain l where l: "ended s' = ended s3 + int (\<Sum>j = 0..l. tu_ended (denv j))"
    "connections_current (lt_status s') = 0" "lt_started s' = lt_started s3"
    "connections_total (lt_status s') = connections_total (lt_status s3)" by blast
  have "int (length (lt_started s')) = int ((\<Sum>j \<le> k. tu_ended (env j)) + (\<Sum>j \<le> l. tu_ended (denv j)))"
    using k(3) l(1,2) s3 by (simp add: ended_def atLeast0AtMost)
  then have "length (lt_started s') = (\<Sum>j \<le> k. tu_ended (env j)) + (\<Sum>j \<le> l. tu_ended (denv j))" by linarith
  then show ?thesis using k(1,2,4) l(2-4) s3 by (intro exI [of _ k] exI [of _ l]) simp
qed

lemma server_waits_for_its_connections_witness:
  "\<exists>s s' k l. server_operator 2 1 (\<lambda>i. \<lparr>tu_runs = i = 0, tu_ended = 0, tu_now = Fin 0, tu_started = Inr ()\<rparr>)
      (\<lambda>i. \<lparr>tu_runs = False, tu_ended = 1, tu_now = Fin 0, tu_started = Inr ()\<rparr>) sample_listening sample_acceptor s = (Inr (), s')
    \<and> lt_started s' = [sample_peer] \<and> length (lt_started s') = (\<Sum>j \<le> (k::nat). 0) + (\<Sum>j \<le> (l::nat). 1)"
proof -
  let ?env = "\<lambda>i::nat. \<lparr>tu_runs = i = 0, tu_ended = 0, tu_now = Fin 0, tu_started = Inr ()\<rparr>"
  let ?denv = "\<lambda>i::nat. \<lparr>tu_runs = False, tu_ended = 1, tu_now = Fin 0, tu_started = Inr ()\<rparr>"
  obtain r0 where "new_rates sample_parameters = Inr r0" using sample_rates(1) by blast
  define s where "s = \<lparr>lt_run = True, lt_status = new_status sample_listening, lt_rates = r0, lt_log = new_slog,
    lt_started = [], lt_os = sample_os (Host ''a'' # Host ''b'' # accept_answers @ [])\<rparr>"
  have "answers (lt_os s) = Host ''a'' # Host ''b'' # accept_answers @ []" by (simp add: s_def sample_os_def)
  from sample_start [OF this] obtain s1 where s1: "listen_start sample_listening sample_acceptor s = (Inr (), s1)"
    "lt_started s1 = []" "lt_status s1 = new_status sample_listening" "answers (lt_os s1) = accept_answers @ []"
    by (auto simp: s_def)
  define s1' where "s1' = s1\<lparr>lt_status := (lt_status s1)\<lparr>connections_current := connections_current (lt_status s1) + (- 0)\<rparr>\<rparr>"
  obtain s2 where s2: "listen_turn sample_listening sample_acceptor (Fin 0) (Inr ()) s1' = (Inr (), s2)"
    "lt_started s2 = [sample_peer]" "connections_current (lt_status s2) = 1"
    using sample_turn [of s1' "[]" sample_listening "Fin 0"] s1
    by (auto simp: s1'_def sample_listening_def new_status_def)
  obtain s' where s': "server_operator 2 1 ?env ?denv sample_listening sample_acceptor s = (Inr (), s')" "lt_started s' = [sample_peer]"
    using s1(1) s2
    by (simp add: server_operator_def sbind_def numeral_2_eq_2 add_current_def s1'_def listen_end_def lt_say_def drain_turn_def Let_def)
  from server_waits_for_its_connections [OF s'(1)] obtain k l where
    "length (lt_started s') = (\<Sum>j \<le> k. tu_ended (?env j)) + (\<Sum>j \<le> l. tu_ended (?denv j))"
    by (auto simp: s_def)
  then have "length (lt_started s') = (\<Sum>j \<le> (k::nat). 0) + (\<Sum>j \<le> (l::nat). 1)" by simp
  then show ?thesis using s' by blast
qed

text \<open>C13: The life of an accepted connection. Once a connection has been accepted and has its timeouts, and its
  thread and the destructor of the connection have returned, every descriptor has been opened as often as
  it has been closed since before the call of \<^verbatim>\<open>accept\<close>; the last thing done was to close the socket. If the
  server was running when the thread started, each direction of the socket has been shut down once in
  the life of the thread. All this whatever the client sends and the handler writes, returns or throws.\<close>

theorem accepted_connection_is_closed:
  assumes "accept_connection a d w = (Inr c, w1)" "set_timeout c d1 w1 = (Inr (), t_os (tt_tcp s))"
    and "connection_life n runs p (map_option (greeter (con_fd c)) g) (responder (con_fd c) h) st c s = (Inr (), s')"
  shows "balance f (t_os (tt_tcp s')) = balance f w
    \<and> fst (last (trace (t_os (tt_tcp s')))) = C_close (con_fd c)
    \<and> (tt_run s \<longrightarrow> shut_downs (con_fd c) wr (t_os (tt_tcp s')) = Suc (shut_downs (con_fd c) wr (t_os (tt_tcp s))))"
proof -
  let ?fd = "con_fd c"
  obtain s1 where 1: "tcp_thread n runs p (map_option (greeter ?fd) g) (responder ?fd h) st c s = (Inr (), s1)"
    and 2: "socket_destroy ?fd (t_os (tt_tcp s1)) = (Inr (), t_os (tt_tcp s'))"
    using assms(3)
    by (auto simp: connection_life_def on_tcp_def nothrow_def elim!: sbind_InrE split: prod.splits sum.splits)
  note a = accept_balance [OF assms(1)]
  have "balance f (t_os (tt_tcp s1)) = balance f (t_os (tt_tcp s))
      \<and> (tt_run s \<longrightarrow> shut_downs ?fd wr (t_os (tt_tcp s1)) = Suc (shut_downs ?fd wr (t_os (tt_tcp s))))"
    using connection_thread_keeps [OF 1] tcp_thread_idle [of s] 1 by (cases "tt_run s") auto
  moreover have "balance f (t_os (tt_tcp s)) = balance f w1" by (rule quietD [OF quiet_timeout assms(2)])
  moreover have "balance f (t_os (tt_tcp s')) = balance f (t_os (tt_tcp s1)) - (if f = ?fd then 1 else 0)"
    using destroy_balance [OF a(2) 2] by simp
  moreover have "shut_downs ?fd wr (t_os (tt_tcp s')) = shut_downs ?fd wr (t_os (tt_tcp s1))"
    by (rule destroy_shuts [OF 2])
  ultimately show ?thesis using a(1) [of f] destroy_closes [OF a(2) 2] by simp
qed

lemma accepted_connection_is_closed_witness:
  "\<exists>w w1 (s :: unit tcp_thread_state) s'. accept_connection sample_acceptor (Fin (- 1)) w = (Inr sample_peer, w1)
     \<and> set_timeout sample_peer (Fin 0) w1 = (Inr (), t_os (tt_tcp s))
     \<and> connection_life 1 (\<lambda>_. True) quiet_parameters (map_option (greeter (con_fd sample_peer)) None)
         (responder (con_fd sample_peer) goodbye) (new_status default_parameters) sample_peer s = (Inr (), s')
     \<and> balance 5 (t_os (tt_tcp s')) = balance 5 w"
proof -
  let ?rest = "[Data [CHR ''q'', newline_char], Ret 3, Ret 0, Ret 0, Ret 0]"
  obtain w1 w2 where w1: "accept_connection sample_acceptor (Fin (- 1)) (sample_os (accept_answers @ ?rest)) = (Inr sample_peer, w1)"
    and w2: "set_timeout sample_peer (Fin 0) w1 = (Inr (), w2)" "answers w2 = ?rest"
    using sample_accepted [of "sample_os (accept_answers @ ?rest)" ?rest] by (auto simp: sample_os_def)
  obtain t where t: "tcp_open sample_peer w2 = Inr t" by (simp add: tcp_open_new)
  define s where "s = \<lparr>tt_tcp = t, tt_env = (), tt_run = True, tt_log = new_slog\<rparr>"
  have s: "t_os (tt_tcp s) = w2" "tt_run s" using t by (simp_all add: s_def tcp_open_new)
  obtain s1 where s1: "tcp_thread 1 (\<lambda>_. True) quiet_parameters (map_option (greeter (con_fd sample_peer)) None)
      (responder (con_fd sample_peer) goodbye) (new_status default_parameters) sample_peer s = (Inr (), s1)"
    "answers (t_os (tt_tcp s1)) = [Ret 0]"
    using sample_thread [of s "[Ret 0]"] s w2(2) by auto
  obtain w3 where w3: "socket_destroy (con_fd sample_peer) (t_os (tt_tcp s1)) = (Inr (), w3)"
    using answer_step(1) [OF s1(2), of "C_close 5"]
    by (auto simp: sample_peer_def socket_destroy_def socket_dispose_def socket_valid_def invalid_socket_def sbind_def)
  obtain s' where s': "connection_life 1 (\<lambda>_. True) quiet_parameters (map_option (greeter (con_fd sample_peer)) None)
         (responder (con_fd sample_peer) goodbye) (new_status default_parameters) sample_peer s = (Inr (), s')"
    using s1(1) w3 by (simp add: connection_life_def sbind_def on_tcp_def nothrow_def)
  show ?thesis
    using accepted_connection_is_closed [OF w1 w2(1) [folded s(1)] s', of 5] w1 w2(1) s(1) s' by blast
qed

lemma listen_turn_is_a_step_witness:
  "\<exists>s s'. listen_turn quiet_parameters sample_acceptor (Fin 0) (Inr ()) s = (Inr (), s')
     \<and> lt_started s' = lt_started s @ [sample_peer]
     \<and> sstep quiet_parameters None sample_handler (server_of Accepting [] s)
         (server_of Checking ([] @ [new_conn (istream_of []) [] (\<lambda>_. Inr [])]) s')"
proof -
  obtain r0 where "new_rates sample_parameters = Inr r0" using sample_rates by blast
  define s where "s = \<lparr>lt_run = True, lt_status = new_status quiet_parameters, lt_rates = r0, lt_log = new_slog,
    lt_started = [], lt_os = sample_os (accept_answers @ [])\<rparr>"
  obtain s' where s': "listen_turn quiet_parameters sample_acceptor (Fin 0) (Inr ()) s = (Inr (), s')"
    "lt_started s' = lt_started s @ [sample_peer]"
    using sample_turn [of s "[]" quiet_parameters "Fin 0"] by (auto simp: s_def sample_os_def quiet_parameters_def)
  then show ?thesis
    using listen_turn_is_a_step [of quiet_parameters sample_acceptor "Fin 0" "Inr ()" s "Inr ()" s' "[]" None sample_handler
        "istream_of []" "[]" "\<lambda>_. Inr []"] by auto
qed

end
