(* ===== verification/Http.thy ===== *)
theory Http
  imports Sockets Util "HOL-Library.Sublist"
begin

text \<open>
  The HTTP helpers of \<^verbatim>\<open>nanonet/http.h\<close> and \<^verbatim>\<open>src/http.cpp\<close>: the response headers, the parser of
  URLs and the parser of GET requests. A lgo is an operation that writes an entry of a priority on
  some state, as \<open>log_line\<close> of theory Syslogger is; \<open>format_datetime\<close> and boost's \<^verbatim>\<open>split\<close> are
  parameters.
\<close>

section \<open>Response headers\<close>

definition http_endl :: string where "http_endl = [CHR 0x0D, newline_char]"

definition default_server_identification :: string where
  "default_server_identification = ''KISS/CPL httpd/0.9.1 (Linux)''"

definition puts :: "(string \<Rightarrow> ('w, int) sx) \<Rightarrow> string list \<Rightarrow> ('w ostream, unit) sx" where
  "puts wr xs = os_run wr (map Write xs)"

definition write_content_type :: "(string \<Rightarrow> ('w, int) sx) \<Rightarrow> string \<Rightarrow> string \<Rightarrow> ('w ostream, unit) sx" where
  "write_content_type wr ct cs = puts wr [''Content-Type: '', ct, ''; charset='', cs, http_endl]"

definition write_content_type_json :: "(string \<Rightarrow> ('w, int) sx) \<Rightarrow> string \<Rightarrow> ('w ostream, unit) sx" where
  "write_content_type_json wr cs = write_content_type wr ''application/json'' cs"

definition write_content_type_text :: "(string \<Rightarrow> ('w, int) sx) \<Rightarrow> string \<Rightarrow> ('w ostream, unit) sx" where
  "write_content_type_text wr cs = write_content_type wr ''text/plain'' cs"

definition write_content_type_csv :: "(string \<Rightarrow> ('w, int) sx) \<Rightarrow> string \<Rightarrow> ('w ostream, unit) sx" where
  "write_content_type_csv wr cs = write_content_type wr ''text/csv'' cs"

definition content_type_from_file_name :: "string \<Rightarrow> string" where
  "content_type_from_file_name nm =
     (if suffix ''.html'' nm then ''text/html''
      else if suffix ''.txt'' nm then ''text/plain''
      else ''application/octet-stream'')"

text \<open>\<open>utc\<close> is the time of the clock.\<close>

definition write_date ::
  "(string \<Rightarrow> ('w, int) sx) \<Rightarrow> (double \<Rightarrow> string result) \<Rightarrow> double \<Rightarrow> double \<Rightarrow> ('w ostream, unit) sx" where
  "write_date wr fmt utc now =
     (let t = (if dless now (Fin 0) then utc else now)
      in sbind (puts wr [''Date: '']) (\<lambda>_. sbind (slift (fmt t)) (\<lambda>d. puts wr [d, http_endl])))"

definition write_connection :: "(string \<Rightarrow> ('w, int) sx) \<Rightarrow> string \<Rightarrow> ('w ostream, unit) sx" where
  "write_connection wr w = puts wr [''Connection: '', w, http_endl]"

definition write_server :: "(string \<Rightarrow> ('w, int) sx) \<Rightarrow> string \<Rightarrow> ('w ostream, unit) sx" where
  "write_server wr server = puts wr [''Server: '', server, http_endl]"

definition write_http_header_200 ::
  "(string \<Rightarrow> ('w, int) sx) \<Rightarrow> (double \<Rightarrow> string result) \<Rightarrow> double \<Rightarrow> string \<Rightarrow> double \<Rightarrow> string
     \<Rightarrow> ('w ostream, unit) sx" where
  "write_http_header_200 wr fmt utc ct now server_id =
     sbind (puts wr [''HTTP/1.1 200 OK'', http_endl]) (\<lambda>_.
     sbind (write_date wr fmt utc now) (\<lambda>_.
     sbind (write_server wr server_id) (\<lambda>_.
     sbind (write_connection wr ''close'') (\<lambda>_.
     sbind (write_content_type wr ct ''utf-8'') (\<lambda>_. puts wr [http_endl])))))"

definition write_http_header_404 ::
  "(string \<Rightarrow> ('w, int) sx) \<Rightarrow> (double \<Rightarrow> string result) \<Rightarrow> double \<Rightarrow> string \<Rightarrow> double \<Rightarrow> string
     \<Rightarrow> ('w ostream, unit) sx" where
  "write_http_header_404 wr fmt utc reason now server_id =
     sbind (puts wr [''HTTP/1.1 404 Not Found ('', reason, '')'', http_endl]) (\<lambda>_.
     sbind (write_date wr fmt utc now) (\<lambda>_.
     sbind (write_server wr server_id) (\<lambda>_.
     sbind (write_connection wr ''close'') (\<lambda>_. puts wr [http_endl]))))"

section \<open>Fetching a URL\<close>

definition default_user_agent :: string where
  "default_user_agent = ''KISS CPL/0.9.1 httpclient/0.9.1 (EXPERIMENTAL)''"

definition whitespace :: string where "whitespace = [CHR 0x09, newline_char, CHR 0x0D, CHR '' '']"

definition blank :: "string \<Rightarrow> bool" where
  "blank s \<longleftrightarrow> find_first_not_of s whitespace = None"

text \<open>The parts of a URL that \<open>wget\<close> passes on: path, host and port. Taking \<^verbatim>\<open>substr(0, npos)\<close> takes all.\<close>

definition parse_url :: "string \<Rightarrow> (string \<times> string \<times> string) result" where
  "parse_url url0 =
     (if ''http://'' \<noteq> take 7 url0 then Inl (Runtime_error ''URL must start with http://'')
      else
        let url = drop 7 url0; slash = find_first_of url ''/''
        in if slash = Some 0 then Inl (Runtime_error ''bad URL format: No host[:port] parsed'')
           else
             (case slash of
                None \<Rightarrow> Inl (Runtime_error ''bad URL format: No slash after host[:port]'')
              | Some sl \<Rightarrow>
                  (let path = drop sl url; hostport = take sl url; colon = find_first_of hostport '':''
                   in if colon = Some (length hostport - 1)
                      then Inl (Runtime_error ''bad URL format: colon after hostname, but no port'')
                      else if colon = Some 0
                      then Inl (Runtime_error ''bad URL format: no hostname before colon'')
                      else
                        (let port = (case colon of None \<Rightarrow> ''80'' | Some c \<Rightarrow> drop (c + 1) hostport);
                             host = (case colon of None \<Rightarrow> hostport | Some c \<Rightarrow> take c hostport)
                         in rbind (c_assert (host \<noteq> []) ''host.size()'') (\<lambda>_.
                            rbind (c_assert (port \<noteq> []) ''port.size()'') (\<lambda>_. Inr (path, host, port)))))))"

text \<open>The request that \<open>wget1\<close> sends.\<close>

definition wget_request :: "string \<Rightarrow> string \<Rightarrow> string \<Rightarrow> string \<Rightarrow> string \<Rightarrow> string" where
  "wget_request path host port sender user_agent =
     ''GET '' @ path @ '' HTTP/1.0'' @ http_endl @ ''From: '' @ sender @ http_endl
     @ ''Host: '' @ host @ '':'' @ port @ http_endl @ ''User-Agent: '' @ user_agent @ http_endl @ http_endl"

section \<open>Reading lines and words\<close>

text \<open>\<^verbatim>\<open>std::getline(is, line)\<close>: \<open>None\<close> when the stream has failed.\<close>

definition std_getline :: "istream \<Rightarrow> string option \<times> istream" where
  "std_getline is =
     (if \<not> good is then (None, is\<lparr>failbit := True\<rparr>)
      else
        let l = takeWhile (\<lambda>c. c \<noteq> newline_char) (ibuf is)
        in case dropWhile (\<lambda>c. c \<noteq> newline_char) (ibuf is) of
             [] \<Rightarrow> (if l = [] then None else Some l, is\<lparr>ibuf := [], eofbit := True, failbit := (l = [])\<rparr>)
           | _ # r \<Rightarrow> (Some l, is\<lparr>ibuf := r\<rparr>))"

text \<open>\<^verbatim>\<open>iss >> w\<close> for a string: leading white space is skipped; \<open>None\<close> when no word is left.\<close>

definition next_word :: "string \<Rightarrow> (string \<times> string) option" where
  "next_word s =
     (let t = dropWhile isspace s
      in if t = [] then None else Some (takeWhile (\<lambda>c. \<not> isspace c) t, dropWhile (\<lambda>c. \<not> isspace c) t))"

text \<open>A line without its end, followed by something or not.\<close>

lemma std_getline_of:
  "newline_char \<notin> set l \<Longrightarrow> std_getline (istream_of (l @ newline_char # r)) = (Some l, istream_of r)"
proof -
  assume n: "newline_char \<notin> set l"
  have "takeWhile (\<lambda>c. c \<noteq> newline_char) (l @ newline_char # r) = l"
    "dropWhile (\<lambda>c. c \<noteq> newline_char) (l @ newline_char # r) = newline_char # r"
    using n by (induction l) auto
  then show ?thesis by (simp add: std_getline_def Let_def)
qed

lemma std_getline_last:
  assumes "newline_char \<notin> set s"
  shows "std_getline (istream_of s) = (if s = [] then None else Some s, \<lparr>ibuf = [], eofbit = True, failbit = (s = [])\<rparr>)"
proof -
  have w: "takeWhile (\<lambda>c. c \<noteq> newline_char) s = s" "dropWhile (\<lambda>c. c \<noteq> newline_char) s = []"
    using assms by (induction s) auto
  show ?thesis
    unfolding std_getline_def Let_def istream_of_sel(1) w by (simp add: istream_of_def good_def)
qed

lemma std_getline_less:
  assumes "std_getline is = (Some l, is')"
  shows "length (ibuf is') < length (ibuf is)"
proof -
  have g: "good is" using assms by (cases "good is") (simp_all add: std_getline_def)
  then obtain s where st: "is = istream_of s" using good_eq_istream_of by blast
  show ?thesis
  proof (cases "newline_char \<in> set s")
    case True
    then obtain a b where "s = a @ newline_char # b" "newline_char \<notin> set a" by (meson split_list_first)
    then show ?thesis using assms st by (auto simp: std_getline_of)
  next
    case False
    then show ?thesis using assms st by (auto simp: std_getline_last split: if_splits)
  qed
qed

section \<open>GET requests\<close>

type_synonym 'l logger = "prio \<Rightarrow> string \<Rightarrow> ('l, unit) sx"

record get_request =
  gr_version :: string
  gr_host :: string
  abs_path :: string
  user_agent :: string
  accept :: string

definition throw_get_parse_error :: "string \<Rightarrow> 'a result" where
  "throw_get_parse_error w = throw_error (''CPL HTTP GET request parser: '' @ w)"

text \<open>The headers of \<^verbatim>\<open>wget1\<close>'s response: each is logged, up to a blank line.\<close>

function response_headers :: "'l logger \<Rightarrow> istream \<times> 'l \<Rightarrow> unit result \<times> (istream \<times> 'l)" where
  "response_headers lg (is, l) =
     (case std_getline is of
        (None, is') \<Rightarrow> (Inr (), (is', l))
      | (Some line, is') \<Rightarrow>
          if blank line then (Inr (), (is', l))
          else (case lg INFO (''Server HTTP header: '' @ line) l of
                  (Inl e, l') \<Rightarrow> (Inl e, (is', l'))
                | (Inr _, l') \<Rightarrow> response_headers lg (is', l')))"
  by pat_completeness auto
termination
  by (relation "measure (\<lambda>(lg, is, l). length (ibuf is))") (auto dest: std_getline_less [OF sym])

text \<open>The rest of a response is copied.\<close>

definition wget_response :: "'l logger \<Rightarrow> string \<Rightarrow> istream \<times> 'l \<Rightarrow> string result \<times> (istream \<times> 'l)" where
  "wget_response lg os s =
     (case response_headers lg s of
        (Inl e, s') \<Rightarrow> (Inl e, s')
      | (Inr _, (is', l')) \<Rightarrow> (case stream_copy is' os of (is'', os') \<Rightarrow> (Inr os', (is'', l'))))"

text \<open>The fields of the request that are kept.\<close>

definition set_header :: "get_request \<Rightarrow> string \<Rightarrow> string \<Rightarrow> get_request option" where
  "set_header req k v =
     (if ''User-Agent'' = k then Some (req\<lparr>user_agent := v\<rparr>)
      else if ''Host'' = k then Some (req\<lparr>gr_host := v\<rparr>)
      else if ''Accept'' = k then Some (req\<lparr>accept := v\<rparr>)
      else None)"

function parse_headers ::
  "'l logger option \<Rightarrow> get_request \<Rightarrow> istream \<times> 'l \<Rightarrow> get_request result \<times> (istream \<times> 'l)" where
  "parse_headers lgo req (is, l) =
     (case std_getline is of
        (None, is') \<Rightarrow> (Inr req, (is', l))
      | (Some raw, is') \<Rightarrow>
          let line = trim raw
          in if line = [] then (Inr req, (is', l))
             else
               (case split_colon_blank line of
                  Inl e \<Rightarrow> (Inl e, (is', l))
                | Inr (k, v) \<Rightarrow>
                    (case set_header req k v of
                       Some req' \<Rightarrow> parse_headers lgo req' (is', l)
                     | None \<Rightarrow>
                         (case lgo of
                            None \<Rightarrow> parse_headers lgo req (is', l)
                          | Some lg \<Rightarrow>
                              (case lg WARNING (''Ignoring HTTP header: '' @ line) l of
                                 (Inl e, l') \<Rightarrow> (Inl e, (is', l'))
                               | (Inr _, l') \<Rightarrow> parse_headers lgo req (is', l'))))))"
  by pat_completeness auto
termination
  by (relation "measure (\<lambda>(lgo, req, is, l). length (ibuf is))") (auto dest: std_getline_less [OF sym])

declare response_headers.simps [simp del] parse_headers.simps [simp del]

text \<open>The first line: path and version.\<close>

definition parse_request_line :: "(string \<Rightarrow> string \<Rightarrow> string list) \<Rightarrow> string \<Rightarrow> (string \<times> string) result" where
  "parse_request_line bsplit line =
     (case next_word line of
        None \<Rightarrow> throw_get_parse_error (''Malformed request: '' @ line)
      | Some (get, r1) \<Rightarrow>
          (case next_word r1 of
             None \<Rightarrow> throw_get_parse_error (''Malformed request: '' @ line)
           | Some (path, r2) \<Rightarrow>
               (case next_word r2 of
                  None \<Rightarrow> throw_get_parse_error (''Malformed request: '' @ line)
                | Some (ver, _) \<Rightarrow>
                    if ''GET'' \<noteq> get then throw_get_parse_error (''Not a GET request: '' @ line)
                    else
                      (let ver1 = bsplit ver ''/''
                       in if 2 \<noteq> length ver1 \<or> ''HTTP'' \<noteq> ver1 ! 0
                          then throw_get_parse_error (''Bad version: '' @ ver)
                          else Inr (path, ver1 ! 1)))))"

definition parse_get_request ::
  "(string \<Rightarrow> string \<Rightarrow> string list) \<Rightarrow> 'l logger option \<Rightarrow> string
     \<Rightarrow> istream \<times> 'l \<Rightarrow> get_request result \<times> (istream \<times> 'l)" where
  "parse_get_request bsplit lgo first_line s =
     (case parse_request_line bsplit (trim first_line) of
        Inl e \<Rightarrow> (Inl e, s)
      | Inr (path, ver) \<Rightarrow>
          parse_headers lgo \<lparr>gr_version = ver, gr_host = [], abs_path = path, user_agent = [], accept = []\<rparr> s)"

section \<open>Facts\<close>

text \<open>Words.\<close>

lemma next_word_blank: "next_word (CHR '' '' # s) = next_word s"
  by (simp add: next_word_def isspace_def)

lemma next_word_of:
  assumes "w \<noteq> []" "list_all (\<lambda>c. \<not> isspace c) w" "r = [] \<or> isspace (hd r)"
  shows "next_word (w @ r) = Some (w, r)"
proof -
  have "dropWhile isspace (w @ r) = w @ r" using assms by (cases w) auto
  moreover have "takeWhile (\<lambda>c. \<not> isspace c) (w @ r) = w" "dropWhile (\<lambda>c. \<not> isspace c) (w @ r) = r"
    using assms(2,3) by (induction w; cases r; auto)+
  ultimately show ?thesis using assms(1) by (simp add: next_word_def Let_def)
qed

lemma parse_request_line_of:
  assumes b: "\<And>s. bsplit s ''/'' = split s CHR ''/''"
    and p: "path \<noteq> []" "list_all (\<lambda>c. \<not> isspace c) path"
    and v: "list_all (\<lambda>c. \<not> isspace c \<and> c \<noteq> CHR ''/'') ver"
    and t: "t = [] \<or> isspace (hd t)"
  shows "parse_request_line bsplit (''GET '' @ path @ '' HTTP/'' @ ver @ t) = Inr (path, ver)"
proof -
  let ?ver = "''HTTP/'' @ ver"
  have v': "list_all (\<lambda>c. \<not> isspace c) ver" "CHR ''/'' \<notin> set ver" using v by (auto simp: list_all_iff)
  have "next_word (''GET'' @ CHR '' '' # path @ '' HTTP/'' @ ver @ t) = Some (''GET'', CHR '' '' # path @ '' HTTP/'' @ ver @ t)"
    by (rule next_word_of) (simp_all add: char_simps)
  then have w1: "next_word (''GET '' @ path @ '' HTTP/'' @ ver @ t) = Some (''GET'', CHR '' '' # path @ '' HTTP/'' @ ver @ t)"
    by simp
  have "next_word (path @ CHR '' '' # ''HTTP/'' @ ver @ t) = Some (path, CHR '' '' # ''HTTP/'' @ ver @ t)"
    by (rule next_word_of) (use p in \<open>simp_all add: char_simps\<close>)
  then have w2: "next_word (CHR '' '' # path @ '' HTTP/'' @ ver @ t) = Some (path, CHR '' '' # ''HTTP/'' @ ver @ t)"
    by (simp add: next_word_blank)
  have "next_word (?ver @ t) = Some (?ver, t)"
    by (rule next_word_of) (use v' t in \<open>simp_all add: char_simps\<close>)
  then have w3: "next_word (CHR '' '' # ''HTTP/'' @ ver @ t) = Some (?ver, t)"
    by (simp add: next_word_blank)
  have "split (''HTTP'' @ CHR ''/'' # ver) CHR ''/'' = ''HTTP'' # split ver CHR ''/''"
    by (rule split_simps(2)) simp
  also have "split ver CHR ''/'' = [ver]" using v'(2) by (rule split_simps(1))
  finally have "bsplit ?ver ''/'' = [''HTTP'', ver]" by (simp add: b)
  then show ?thesis
    unfolding parse_request_line_def w1 by (simp only: option.case prod.case w2 w3) simp
qed

text \<open>Header lines that end with \<open>t\<close> and a newline.\<close>

definition render_headers :: "string \<Rightarrow> (string \<times> string) list \<Rightarrow> string" where
  "render_headers t hs = concat (map (\<lambda>(k, v). k @ '': '' @ v @ t @ [newline_char]) hs)"

definition header_ok :: "string \<times> string \<Rightarrow> bool" where
  "header_ok h \<longleftrightarrow> CHR '':'' \<notin> set (fst h) \<and> newline_char \<notin> set (fst h) \<and> newline_char \<notin> set (snd h)
     \<and> (snd h = [] \<or> hd (snd h) \<notin> {CHR '' '', CHR 0x09})"

definition keep_header :: "string \<Rightarrow> get_request \<Rightarrow> string \<times> string \<Rightarrow> get_request" where
  "keep_header t req h = (case set_header req (fst h) (snd h @ t) of None \<Rightarrow> req | Some req' \<Rightarrow> req')"

lemma split_colon_blank_of:
  assumes "CHR '':'' \<notin> set k" "v = [] \<or> hd v \<notin> {CHR '' '', CHR 0x09}"
  shows "split_colon_blank (k @ '': '' @ v) = Inr (k, v)"
proof -
  have "str_find (k @ '': '' @ v) CHR '':'' = Some (length k)"
    using find_index_append [of k "\<lambda>x. x = CHR '':''" "CHR '':'' # CHR '' '' # v"] assms(1)
    by (auto simp: str_find_def)
  moreover have "dropWhile (\<lambda>c. c = CHR '' '' \<or> c = CHR 0x09) v = v" using assms(2) by (cases v) auto
  ultimately show ?thesis by (simp add: split_colon_blank_def)
qed

lemma parse_headers_of:
  assumes "t = [] \<or> t = [CHR 0x0D]"
  shows "list_all header_ok hs \<Longrightarrow>
    parse_headers None req (istream_of (render_headers t hs @ tail), l)
      = parse_headers None (foldl (keep_header t) req hs) (istream_of tail, l)"
proof (induction hs arbitrary: req)
  case Nil
  then show ?case by (simp add: render_headers_def)
next
  case (Cons h hs)
  obtain k v where h: "h = (k, v)" by fastforce
  let ?line = "k @ '': '' @ v @ t"
  let ?tl = "render_headers t hs @ tail"
  have ok: "header_ok (k, v)" "list_all header_ok hs" using Cons.prems h by simp_all
  have n: "newline_char \<notin> set ?line" using ok(1) assms by (auto simp: header_ok_def)
  have "render_headers t (h # hs) @ tail = ?line @ newline_char # ?tl"
    by (simp add: render_headers_def h)
  then have g: "std_getline (istream_of (render_headers t (h # hs) @ tail)) = (Some ?line, istream_of ?tl)"
    using std_getline_of [OF n] by simp
  have "split_colon_blank (k @ '': '' @ v @ t) = Inr (k, v @ t)"
    by (rule split_colon_blank_of) (use ok(1) assms in \<open>auto simp: header_ok_def hd_append\<close>)
  then have s: "split_colon_blank (trim ?line) = Inr (k, v @ t)" by (simp add: trim_def)
  have "parse_headers None req (istream_of (render_headers t (h # hs) @ tail), l)
    = parse_headers None (keep_header t req h) (istream_of ?tl, l)"
    unfolding parse_headers.simps [of None req "istream_of (render_headers t (h # hs) @ tail)"] g
    using s by (simp add: Let_def keep_header_def h trim_def split: option.splits)
  then show ?case using Cons.IH [OF ok(2)] by simp
qed

text \<open>The last value given for a field.\<close>

definition last_value :: "string \<Rightarrow> (string \<times> string) list \<Rightarrow> string" where
  "last_value k hs = foldl (\<lambda>v h. if fst h = k then snd h else v) [] hs"

lemma keep_headers:
  "foldl (keep_header []) \<lparr>gr_version = ver, gr_host = a, abs_path = path, user_agent = b, accept = c\<rparr> hs
     = \<lparr>gr_version = ver, gr_host = foldl (\<lambda>v h. if fst h = ''Host'' then snd h else v) a hs, abs_path = path,
        user_agent = foldl (\<lambda>v h. if fst h = ''User-Agent'' then snd h else v) b hs,
        accept = foldl (\<lambda>v h. if fst h = ''Accept'' then snd h else v) c hs\<rparr>"
  by (induction hs arbitrary: a b c) (simp_all add: keep_header_def set_header_def)

text \<open>URLs.\<close>

lemma find_char:
  "c \<notin> set a \<Longrightarrow> find_first_of (a @ c # b) [c] = Some (length a)"
  "c \<notin> set s \<Longrightarrow> find_first_of s [c] = None"
  using find_index_append [of a "\<lambda>x. x \<in> set [c]" "c # b"] by (auto simp: find_first_of_def)

lemma parse_url_port:
  assumes "CHR '':'' \<notin> set h" "CHR ''/'' \<notin> set (h @ CHR '':'' # q)"
  shows "parse_url (''http://'' @ (h @ CHR '':'' # q) @ CHR ''/'' # b) =
    (if q = [] then Inl (Runtime_error ''bad URL format: colon after hostname, but no port'')
     else if h = [] then Inl (Runtime_error ''bad URL format: no hostname before colon'')
     else Inr (CHR ''/'' # b, h, q))"
proof -
  have f: "find_first_of ((h @ CHR '':'' # q) @ CHR ''/'' # b) ''/'' = Some (length (h @ CHR '':'' # q))"
    "find_first_of (h @ CHR '':'' # q) '':'' = Some (length h)"
    using find_char(1) [OF assms(2)] find_char(1) [OF assms(1)] by simp_all
  have t: "take 7 (''http://'' @ (h @ CHR '':'' # q) @ CHR ''/'' # b) = ''http://''"
    "drop 7 (''http://'' @ (h @ CHR '':'' # q) @ CHR ''/'' # b) = (h @ CHR '':'' # q) @ CHR ''/'' # b"
    "take (length (h @ CHR '':'' # q)) ((h @ CHR '':'' # q) @ CHR ''/'' # b) = h @ CHR '':'' # q"
    "drop (length (h @ CHR '':'' # q)) ((h @ CHR '':'' # q) @ CHR ''/'' # b) = CHR ''/'' # b"
    by simp_all
  show ?thesis
    unfolding parse_url_def Let_def t f option.case using assms by (auto simp: c_assert_def)
qed

lemma parse_url_no_port:
  assumes "CHR '':'' \<notin> set a" "CHR ''/'' \<notin> set a"
  shows "parse_url (''http://'' @ a @ CHR ''/'' # b) =
    (if a = [] then Inl (Runtime_error ''bad URL format: No host[:port] parsed'') else Inr (CHR ''/'' # b, a, ''80''))"
proof -
  have f: "find_first_of (a @ CHR ''/'' # b) ''/'' = Some (length a)" "find_first_of a '':'' = None"
    using find_char(1) [OF assms(2)] find_char(2) [OF assms(1)] by simp_all
  have t: "take 7 (''http://'' @ a @ CHR ''/'' # b) = ''http://''"
    "drop 7 (''http://'' @ a @ CHR ''/'' # b) = a @ CHR ''/'' # b"
    "take (length a) (a @ CHR ''/'' # b) = a" "drop (length a) (a @ CHR ''/'' # b) = CHR ''/'' # b"
    by simp_all
  show ?thesis
    unfolding parse_url_def Let_def t f option.case by (simp add: f(2))
qed

lemma parse_url_Inr:
  assumes "parse_url u = Inr r"
  obtains a b where "u = ''http://'' @ a @ CHR ''/'' # b" "CHR ''/'' \<notin> set a"
proof -
  have h: "take 7 u = ''http://''" using assms by (cases "take 7 u = ''http://''") (simp_all add: parse_url_def)
  have "CHR ''/'' \<in> set (drop 7 u)"
  proof (rule ccontr)
    assume "CHR ''/'' \<notin> set (drop 7 u)"
    then have "find_first_of (drop 7 u) ''/'' = None" by (rule find_char(2))
    then show False using assms h by (simp add: parse_url_def Let_def)
  qed
  then obtain a b where "drop 7 u = a @ CHR ''/'' # b" "CHR ''/'' \<notin> set a" by (meson split_list_first)
  moreover have "u = take 7 u @ drop 7 u" by simp
  ultimately show ?thesis using that h by metis
qed

text \<open>Headers as sequences of writes.\<close>

lemma os_run_append: "os_run wr (xs @ ys) = sbind (os_run wr xs) (\<lambda>_. os_run wr ys)"
proof (induction xs)
  case Nil
  show ?case by (rule ext) (simp only: os_run.simps append_Nil sbind_apply)
next
  case (Cons x xs)
  show ?case by (simp only: append_Cons os_run.simps sbind_assoc Cons.IH)
qed

lemma os_run_flush: "os_run wr [Flush] = os_flush wr"
proof
  fix s
  obtain r s' where "os_flush wr s = (r, s')" by (rule prod.exhaust)
  then show "os_run wr [Flush] s = os_flush wr s" by (cases r) (simp_all add: sbind_def)
qed

lemma puts_append: "sbind (puts wr xs) (\<lambda>_. puts wr ys) = puts wr (xs @ ys)"
  by (simp add: puts_def os_run_append)

definition header_200_text :: "string \<Rightarrow> string \<Rightarrow> string \<Rightarrow> string list" where
  "header_200_text d ct server_id =
     [''HTTP/1.1 200 OK'', http_endl, ''Date: '', d, http_endl, ''Server: '', server_id, http_endl,
      ''Connection: '', ''close'', http_endl, ''Content-Type: '', ct, ''; charset='', ''utf-8'', http_endl, http_endl]"

lemma write_date_eq:
  assumes "fmt (if dless now (Fin 0) then utc else now) = Inr d"
  shows "write_date wr fmt utc now = puts wr [''Date: '', d, http_endl]"
proof -
  have "sbind (slift (Inr d)) (\<lambda>d. puts wr [d, http_endl]) = puts wr [d, http_endl]"
    by (simp add: fun_eq_iff)
  then show ?thesis unfolding write_date_def Let_def assms by (simp add: puts_append)
qed

lemma header_200_eq:
  assumes "fmt (if dless now (Fin 0) then utc else now) = Inr d"
  shows "write_http_header_200 wr fmt utc ct now server_id = puts wr (header_200_text d ct server_id)"
  unfolding write_http_header_200_def write_date_eq [of fmt, OF assms] write_server_def write_connection_def
    write_content_type_def puts_append header_200_text_def by simp

section \<open>Properties\<close>

text \<open>C26: A GET request whose lines end with a newline alone is parsed: the path and the version are those of
  the first line, each of the three known fields has the last value given for it, other fields are
  ignored, and the stream is left right behind the empty line.\<close>

theorem get_request_parsed:
  assumes "\<And>s. bsplit s ''/'' = split s CHR ''/''"
    and "path \<noteq> []" "list_all (\<lambda>c. \<not> isspace c) path"
    and "list_all (\<lambda>c. \<not> isspace c \<and> c \<noteq> CHR ''/'') ver" "t = [] \<or> isspace (hd t)"
    and "list_all header_ok hs"
  shows "parse_get_request bsplit None (''GET '' @ path @ '' HTTP/'' @ ver @ t)
      (istream_of (render_headers [] hs @ [newline_char] @ rest), l)
    = (Inr \<lparr>gr_version = ver, gr_host = last_value ''Host'' hs, abs_path = path,
         user_agent = last_value ''User-Agent'' hs, accept = last_value ''Accept'' hs\<rparr>, (istream_of rest, l))"
proof -
  have "std_getline (istream_of ([] @ newline_char # rest)) = (Some [], istream_of rest)"
    by (rule std_getline_of) simp
  then have g: "std_getline (istream_of ([newline_char] @ rest)) = (Some [], istream_of rest)" by simp
  have e: "parse_headers None req (istream_of ([newline_char] @ rest), l) = (Inr req, (istream_of rest, l))" for req
    unfolding parse_headers.simps [of None req "istream_of ([newline_char] @ rest)"] g by (simp add: trim_def)
  have r: "parse_request_line bsplit (trim (''GET '' @ path @ '' HTTP/'' @ ver @ t)) = Inr (path, ver)"
    unfolding trim_def Let_def by (rule parse_request_line_of) (use assms in auto)
  have "parse_headers None req (istream_of (render_headers [] hs @ [newline_char] @ rest), l)
    = (Inr (foldl (keep_header []) req hs), (istream_of rest, l))" for req
    unfolding e [symmetric] by (rule parse_headers_of [OF _ assms(6)]) simp
  then show ?thesis
    unfolding parse_get_request_def r by (simp only: sum.case prod.case keep_headers last_value_def)
qed

definition sample_split :: "string \<Rightarrow> string \<Rightarrow> string list" where
  "sample_split s seps = split s (hd seps)"

lemma get_request_parsed_witness:
  "fst (parse_get_request sample_split None (''GET /x HTTP/1.0'' @ [CHR 0x0D])
      (istream_of (render_headers [] [(''Host'', ''a''), (''X'', ''b'')] @ [newline_char] @ []), ()))
    = Inr \<lparr>gr_version = ''1.0'', gr_host = ''a'', abs_path = ''/x'', user_agent = [], accept = []\<rparr>"
  using get_request_parsed [of sample_split "''/x''" "''1.0''" "[CHR 0x0D]" "[(''Host'', ''a''), (''X'', ''b'')]" "[]" "()"]
  by (simp add: sample_split_def char_simps header_ok_def last_value_def)

text \<open>C28: But the end-of-line marker of HTTP is CR LF, and no such request is accepted: \<open>trim\<close> gives its
  argument back unchanged, so that the line that ends the header is not empty, and the parser throws
  because it has no colon.\<close>

theorem crlf_requests_are_rejected:
  assumes "parse_request_line bsplit first_line = Inr pv" "list_all header_ok hs"
  shows "fst (parse_get_request bsplit None first_line
      (istream_of (render_headers [CHR 0x0D] hs @ [CHR 0x0D, newline_char] @ rest), l))
    = Inl (Runtime_error (''split_colon_blank(): No colon found: '' @ [CHR 0x0D]))"
proof -
  obtain path ver where pv: "pv = (path, ver)" by fastforce
  have "std_getline (istream_of ([CHR 0x0D] @ newline_char # rest)) = (Some [CHR 0x0D], istream_of rest)"
    by (rule std_getline_of) simp
  then have g: "std_getline (istream_of ([CHR 0x0D, newline_char] @ rest)) = (Some [CHR 0x0D], istream_of rest)" by simp
  have s: "split_colon_blank [CHR 0x0D] = Inl (Runtime_error (''split_colon_blank(): No colon found: '' @ [CHR 0x0D]))"
    by (simp add: split_colon_blank_def str_find_def)
  have e: "fst (parse_headers None req (istream_of ([CHR 0x0D, newline_char] @ rest), l))
    = Inl (Runtime_error (''split_colon_blank(): No colon found: '' @ [CHR 0x0D]))" for req
    unfolding parse_headers.simps [of None req "istream_of ([CHR 0x0D, newline_char] @ rest)"] g
    using s by (simp add: trim_def Let_def)
  have "fst (parse_headers None req (istream_of (render_headers [CHR 0x0D] hs @ [CHR 0x0D, newline_char] @ rest), l))
    = Inl (Runtime_error (''split_colon_blank(): No colon found: '' @ [CHR 0x0D]))" for req
    unfolding e [of "foldl (keep_header [CHR 0x0D]) req hs", symmetric]
    by (rule arg_cong [where f = fst], rule parse_headers_of [OF _ assms(2)]) simp
  then show ?thesis
    unfolding parse_get_request_def trim_def Let_def assms(1) pv by (simp only: sum.case prod.case)
qed

lemma crlf_requests_are_rejected_witness:
  "fst (parse_get_request sample_split None (''GET /x HTTP/1.0'' @ [CHR 0x0D])
      (istream_of (render_headers [CHR 0x0D] [(''Host'', ''a'')] @ [CHR 0x0D, newline_char] @ []), ()))
    = Inl (Runtime_error (''split_colon_blank(): No colon found: '' @ [CHR 0x0D]))"
proof (rule crlf_requests_are_rejected)
  show "parse_request_line sample_split (''GET /x HTTP/1.0'' @ [CHR 0x0D]) = Inr (''/x'', ''1.0'')"
    using parse_request_line_of [of sample_split "''/x''" "''1.0''" "[CHR 0x0D]"]
    by (simp add: sample_split_def char_simps)
  show "list_all header_ok [(''Host'', ''a'')]" by (simp add: header_ok_def)
qed

text \<open>C27: A URL is taken apart by \<open>wget\<close> exactly if it is \<^verbatim>\<open>http://\<close>, a host without colon and slash, an
  optional colon and port, and a path that begins with a slash; the port is 80 if none is given.\<close>

theorem parse_url_spec:
  "parse_url u = Inr (path, host, port) \<longleftrightarrow>
     host \<noteq> [] \<and> CHR ''/'' \<notin> set host \<and> CHR '':'' \<notin> set host \<and> port \<noteq> [] \<and> CHR ''/'' \<notin> set port
     \<and> path \<noteq> [] \<and> hd path = CHR ''/''
     \<and> (u = ''http://'' @ host @ '':'' @ port @ path \<or> (port = ''80'' \<and> u = ''http://'' @ host @ path))"
  (is "?L \<longleftrightarrow> ?R")
proof
  assume l: ?L
  then obtain a b where u: "u = ''http://'' @ a @ CHR ''/'' # b" "CHR ''/'' \<notin> set a"
    by (rule parse_url_Inr)
  show ?R
  proof (cases "CHR '':'' \<in> set a")
    case True
    then obtain h q where a: "a = h @ CHR '':'' # q" "CHR '':'' \<notin> set h" by (meson split_list_first)
    from l parse_url_port [OF a(2), of q b] u a(1) have "h \<noteq> []" "q \<noteq> []" "path = CHR ''/'' # b" "host = h" "port = q"
      by (auto split: if_splits)
    then show ?thesis using u a by auto
  next
    case False
    from l parse_url_no_port [OF False u(2), of b] u(1) have "a \<noteq> []" "path = CHR ''/'' # b" "host = a" "port = ''80''"
      by (auto split: if_splits)
    then show ?thesis using u False by auto
  qed
next
  assume r: ?R
  then obtain b where b: "path = CHR ''/'' # b" by (cases path) auto
  show ?L
  proof (cases "u = ''http://'' @ host @ '':'' @ port @ path")
    case True
    then show ?thesis using r b parse_url_port [of host port b] by simp
  next
    case False
    then show ?thesis using r b parse_url_no_port [of host b] by simp
  qed
qed

text \<open>The header of a positive answer on a connection: after it has been written to a fresh TCP output
  stream and flushed without an error, what has been sent on the socket is exactly the status line,
  the four fields and the empty line, each ended by CR LF.\<close>

theorem header_200_sent:
  assumes "new_ostreambuf True n = Inr b" "fmt (if dless now (Fin 0) then utc else now) = Inr d"
    and "sbind (write_http_header_200 (socket_write fd) fmt utc ct now server_id)
      (\<lambda>_. os_flush (socket_write fd)) (False, b, w) = (Inr u, False, b', w')"
  shows "sent_on fd w' = sent_on fd w @ ''HTTP/1.1 200 OK'' @ http_endl @ ''Date: '' @ d @ http_endl
    @ ''Server: '' @ server_id @ http_endl @ ''Connection: close'' @ http_endl
    @ ''Content-Type: '' @ ct @ ''; charset=utf-8'' @ http_endl @ http_endl"
proof -
  let ?xs = "map Write (header_200_text d ct server_id)"
  have "os_run (socket_write fd) (?xs @ [Flush]) (False, b, w) = (Inr (), False, b', w')"
    using assms(3) unfolding header_200_eq [of fmt, OF assms(2)] puts_def os_run_append os_run_flush by simp
  from sock.os_run_flushed [OF sock.new_stream_ok [OF assms(1)] this]
  show ?thesis by (simp add: header_200_text_def comp_def)
qed

lemma header_200_sent_witness:
  "\<exists>b' w'. sbind (write_http_header_200 (socket_write 5) (\<lambda>_. Inr ''now'') (Fin 1) ''text/plain'' (Fin (- 1)) ''me'')
      (\<lambda>_. os_flush (socket_write 5)) (False, fresh_buf [], sample_os [Ret 102]) = (Inr (), False, b', w')
    \<and> sent_on 5 w' = concat (header_200_text ''now'' ''text/plain'' ''me'')"
proof -
  let ?w = "sample_os [Ret 102]"
  let ?t = "header_200_text ''now'' ''text/plain'' ''me''"
  have n: "new_ostreambuf True 1024 = Inr (fresh_buf [])"
    by (simp add: new_ostreambuf_def fresh_buf_def)
  have l: "length (concat ?t) = 102" by (simp add: header_200_text_def http_endl_def)
  have puts: "puts (socket_write 5) xs (False, fresh_buf d, ?w) = (Inr (), False, fresh_buf (d @ concat xs), ?w)"
    if "length (d @ concat xs) < 1024" for xs d
    using that
  proof (induction xs arbitrary: d)
    case Nil
    then show ?case by (simp add: puts_def)
  next
    case (Cons x xs)
    have "xsputn (socket_write 5) x (fresh_buf d, ?w)
      = (Inr (length x), (fresh_buf d)\<lparr>ob_data := ob_data (fresh_buf d) @ x\<rparr>, ?w)"
      by (rule xsputn_fits) (use Cons.prems in simp)
    then have "os_write (socket_write 5) x (False, fresh_buf d, ?w) = (Inr (), False, fresh_buf (d @ x), ?w)"
      by (simp add: os_write_def fresh_buf_def)
    then show ?case using Cons.IH [of "d @ x"] Cons.prems by (simp add: puts_def sbind_def)
  qed
  obtain w' where "socket_write 5 (concat ?t) ?w = (Inr 102, w')"
    using l by (simp add: socket_write_def socketsend_def sbind_def eintr_answer sample_os_def)
  then have "ob_flush (socket_write 5) (fresh_buf (concat ?t), ?w) = (Inr True, fresh_buf [], w')"
    using l by (subst ob_flush_ok) (auto simp: header_200_text_def)
  then have f: "os_flush (socket_write 5) (False, fresh_buf (concat ?t), ?w) = (Inr (), False, fresh_buf [], w')"
    by (simp add: os_flush_def ob_sync_def sbind_def)
  have "write_http_header_200 (socket_write 5) (\<lambda>_. Inr ''now'') (Fin 1) ''text/plain'' (Fin (- 1)) ''me''
    = puts (socket_write 5) ?t"
    by (rule header_200_eq) simp
  then have r: "sbind (write_http_header_200 (socket_write 5) (\<lambda>_. Inr ''now'') (Fin 1) ''text/plain'' (Fin (- 1)) ''me'')
      (\<lambda>_. os_flush (socket_write 5)) (False, fresh_buf [], ?w) = (Inr (), False, fresh_buf [], w')"
    using puts [of "[]" ?t] l f by (simp add: sbind_def)
  have "sent_on 5 ?w = []" by (simp add: sent_on_def sample_os_def)
  then have "sent_on 5 w' = concat ?t"
    using header_200_sent [OF n _ r, of "''now''"] by (simp add: header_200_text_def)
  with r show ?thesis by blast
qed

end
