(* ===== verification/Wget.thy ===== *)
theory Wget
  imports Conn_Facts Http
begin

text \<open>
  \<open>wget1\<close> of \<^verbatim>\<open>src/http.cpp\<close> as one operation: the connection and its timeouts, the request through the
  output stream, the response through the input stream, and the destructors. The state is the
  system and that of the log. The pure functions on the whole response are in theory Http; here the
  response is read character by character through the buffer, and its end is what the peer makes it.
\<close>

section \<open>Reading a line through the buffer\<close>

text \<open>\<^verbatim>\<open>std::getline\<close> on the input stream: the characters up to a line feed, or to the end of the input; the
  flag says which. A stream that is not good reads nothing.\<close>

function getline_buf :: "int \<Rightarrow> string \<Rightarrow> (ibuffer \<times> os, string \<times> bool) sx" where
  "getline_buf fd acc s =
     (case sbumpc (socket_read fd) s of
        (Inl e, s') \<Rightarrow> (Inl e, s')
      | (Inr None, s') \<Rightarrow> (Inr (acc, False), s')
      | (Inr (Some c), s') \<Rightarrow>
          if c = newline_char then (Inr (acc, True), s') else getline_buf fd (acc @ [c]) s')"
  by pat_completeness auto
termination
  by (relation "inv_image progress (\<lambda>(fd, acc, s). s)") (auto dest: sbumpc_progress [OF sym])

declare getline_buf.simps [simp del]

definition in_getline :: "int \<Rightarrow> (bool \<times> ibuffer \<times> os, string option) sx" where
  "in_getline fd s =
     (case s of (gd, bw) \<Rightarrow>
        if \<not> gd then (Inr None, (False, bw))
        else (case getline_buf fd [] bw of
                (Inl e, bw') \<Rightarrow> (Inl e, (gd, bw'))
              | (Inr (l, nl), bw') \<Rightarrow> (Inr (if nl \<or> l \<noteq> [] then Some l else None), (nl, bw'))))"

lemma getline_buf_progress: "getline_buf fd acc s = (Inr r, s') \<Longrightarrow> (s', s) \<in> progress"
proof (induction fd acc s rule: getline_buf.induct)
  case (1 fd acc s)
  obtain x s1 where b: "sbumpc (socket_read fd) s = (x, s1)" by (rule prod.exhaust)
  show ?case
  proof (cases x)
    case (Inr o1)
    then have p: "(s1, s) \<in> progress" using b sbumpc_progress by blast
    show ?thesis
    proof (cases o1)
      case None
      then show ?thesis using 1 p b Inr by (simp add: getline_buf.simps [of fd acc s])
    next
      case (Some c)
      show ?thesis
      proof (cases "c = newline_char")
        case True
        then show ?thesis using 1 p b Inr Some by (simp add: getline_buf.simps [of fd acc s])
      next
        case False
        then have "(s', s1) \<in> progress"
          using 1 b Inr Some by (cases s1) (simp add: getline_buf.simps [of fd acc s])
        then show ?thesis using p by (rule progress_trans)
      qed
    qed
  qed (use 1 b in \<open>simp add: getline_buf.simps [of fd acc s]\<close>)
qed

lemma in_getline_progress: "in_getline fd (gd, s) = (Inr (Some l), (gd', s')) \<Longrightarrow> (s', s) \<in> progress"
  by (auto simp: in_getline_def split: if_splits prod.splits sum.splits dest: getline_buf_progress)

text \<open>The loop over the header lines, and the loop that copies the rest.\<close>

function in_headers :: "'l logger \<Rightarrow> int \<Rightarrow> ((bool \<times> ibuffer \<times> os) \<times> 'l, unit) sx" where
  "in_headers lg fd (s, l) =
     (case in_getline fd s of
        (Inl e, s') \<Rightarrow> (Inl e, (s', l))
      | (Inr None, s') \<Rightarrow> (Inr (), (s', l))
      | (Inr (Some line), s') \<Rightarrow>
          if blank line then (Inr (), (s', l))
          else (case lg INFO (''Server HTTP header: '' @ line) l of
                  (Inl e, l') \<Rightarrow> (Inl e, (s', l'))
                | (Inr _, l') \<Rightarrow> in_headers lg fd (s', l')))"
  by pat_completeness auto
termination
  by (relation "inv_image progress (\<lambda>(lg, fd, (gd, s), l). s)") (auto dest: in_getline_progress [OF sym])

declare in_headers.simps [simp del]

function in_copy :: "int \<Rightarrow> string \<Rightarrow> (ibuffer \<times> os, string) sx" where
  "in_copy fd out s =
     (case sbumpc (socket_read fd) s of
        (Inl e, s') \<Rightarrow> (Inl e, s')
      | (Inr None, s') \<Rightarrow> (Inr out, s')
      | (Inr (Some c), s') \<Rightarrow> in_copy fd (out @ [c]) s')"
  by pat_completeness auto
termination
  by (relation "inv_image progress (\<lambda>(fd, out, s). s)") (auto dest: sbumpc_progress [OF sym])

declare in_copy.simps [simp del]

section \<open>Fetching\<close>

text \<open>The operations of the log on the state of both; those of the system are \<open>on_sys\<close>.\<close>

definition on_logger :: "('l, 'a) sx \<Rightarrow> (os \<times> 'l, 'a) sx" where
  "on_logger m s = (case m (snd s) of (r, l) \<Rightarrow> (r, (fst s, l)))"

text \<open>From \<^verbatim>\<open>instream ins(c)\<close> to the end of its life. \<open>out\<close> is what the stream \<^verbatim>\<open>os\<close> has been given. The copying
  reads from the buffer, whatever the flags of the stream say.\<close>

definition response_loop :: "'l logger \<Rightarrow> int \<Rightarrow> ibuffer \<Rightarrow> string \<Rightarrow> (os \<times> 'l, string) sx" where
  "response_loop lg fd b out s =
     (case in_headers lg fd ((True, b, fst s), snd s) of
        (Inl e, ((gd, b', w'), l')) \<Rightarrow> (Inl e, (w', l'))
      | (Inr _, ((gd, b', w'), l')) \<Rightarrow> (case in_copy fd out (b', w') of (r, (b'', w'')) \<Rightarrow> (r, (w'', l'))))"

definition read_response :: "'l logger \<Rightarrow> connection \<Rightarrow> string \<Rightarrow> (os \<times> 'l, string) sx" where
  "read_response lg c out =
     sbind (slift (make_instream c)) (\<lambda>ins.
     sfinally (response_loop lg (con_fd c) (is_buf (oi_buf ins)) out)
       (on_sys (is_destroy (connection_shutdown_read c) (oi_buf ins))))"

text \<open>From \<^verbatim>\<open>onstream ons(c)\<close> to the end of its life: its buffer is destroyed after that of \<^verbatim>\<open>ins\<close>.\<close>

definition exchange :: "'l logger \<Rightarrow> connection \<Rightarrow> string \<Rightarrow> string \<Rightarrow> (os \<times> 'l, string) sx" where
  "exchange lg c req out s =
     (case make_onstream c of
        Inl e \<Rightarrow> (Inl e, s)
      | Inr ons \<Rightarrow>
          (case os_run (socket_write (con_fd c)) [Write req, Flush] (own_bad ons, own_buf ons, fst s) of
             (r, bad, b, w) \<Rightarrow>
               sfinally (sbind (slift r) (\<lambda>_. read_response lg c out)) (on_sys (destroy_onstream c b)) (w, snd s)))"

definition wget1 ::
  "'l logger \<Rightarrow> string \<Rightarrow> string \<Rightarrow> double \<Rightarrow> string \<Rightarrow> string \<Rightarrow> string \<Rightarrow> string \<Rightarrow> (os \<times> 'l, string) sx" where
  "wget1 lg out path timeout host port sender agent =
     sbind (on_sys (new_connection_name host port (Fin (- 1)))) (\<lambda>c.
     sfinally
       (sbind (on_sys (set_timeout c timeout)) (\<lambda>_.
        sbind (on_logger (lg INFO (''Requesting '' @ path @ '' from '' @ host))) (\<lambda>_.
        exchange lg c (wget_request path host port sender agent) out)))
       (on_sys (socket_destroy (con_fd c))))"

definition wget :: "'l logger \<Rightarrow> string \<Rightarrow> string \<Rightarrow> double \<Rightarrow> (os \<times> 'l, string) sx" where
  "wget lg out url timeout =
     sbind (slift (parse_url url)) (\<lambda>(path, host, port).
     wget1 lg out path timeout host port ''ano@nymous.com'' default_user_agent)"

section \<open>Facts\<close>

text \<open>A line: its characters are consumed, and its line feed if it has one.\<close>

lemma getline_buf_account:
  "sock.in_account fd consumed s \<Longrightarrow> getline_buf fd acc s = (Inr (l, nl), s') \<Longrightarrow>
     \<exists>m. l = acc @ m \<and> newline_char \<notin> set m
       \<and> (if nl then sock.in_account fd (consumed @ m @ [newline_char]) s'
          else sock.in_account fd (consumed @ m) s' \<and> received_on fd (snd s') = consumed @ m)"
proof (induction fd acc s arbitrary: consumed rule: getline_buf.induct)
  case (1 fd acc s)
  obtain x s1 where b: "sbumpc (socket_read fd) s = (x, s1)" by (rule prod.exhaust)
  show ?case
  proof (cases x)
    case (Inr o1)
    note a = sock.sbumpc_account [OF "1.prems"(1) b [unfolded Inr]]
    show ?thesis
    proof (cases o1)
      case None
      then show ?thesis using "1.prems"(2) a b Inr by (simp add: getline_buf.simps [of fd acc s])
    next
      case (Some c)
      show ?thesis
      proof (cases "c = newline_char")
        case True
        then show ?thesis using "1.prems"(2) a b Inr Some by (simp add: getline_buf.simps [of fd acc s])
      next
        case False
        have "getline_buf fd (acc @ [c]) s1 = (Inr (l, nl), s')"
          using "1.prems"(2) b Inr Some False by (simp add: getline_buf.simps [of fd acc s])
        from "1.IH" [OF b [symmetric] Inr Some False _ this, of "consumed @ [c]"] a Some obtain m where
          "l = acc @ c # m" "newline_char \<notin> set m"
          "if nl then sock.in_account fd (consumed @ (c # m) @ [newline_char]) s'
           else sock.in_account fd (consumed @ c # m) s' \<and> received_on fd (snd s') = consumed @ c # m"
          by (cases nl) auto
        then show ?thesis using False by (intro exI [of _ "c # m"]) auto
      qed
    qed
  qed (use "1.prems" b in \<open>simp add: getline_buf.simps [of fd acc s]\<close>)
qed

lemma in_getline_account:
  assumes "sock.in_account fd consumed s" "in_getline fd (True, s) = (Inr ol, (gd, s'))"
  shows "\<exists>m. newline_char \<notin> set m
    \<and> (if gd then ol = Some m \<and> sock.in_account fd (consumed @ m @ [newline_char]) s'
       else ol = (if m = [] then None else Some m) \<and> sock.in_account fd (consumed @ m) s'
         \<and> received_on fd (snd s') = consumed @ m)"
proof -
  obtain l where "getline_buf fd [] s = (Inr (l, gd), s')" "ol = (if gd \<or> l \<noteq> [] then Some l else None)"
    using assms(2) by (auto simp: in_getline_def split: prod.splits sum.splits)
  with getline_buf_account [OF assms(1) this(1)] show ?thesis by (cases gd) auto
qed

lemma in_headers_failed: "in_headers lg fd ((False, s), l) = (Inr (), ((False, s), l))"
  by (simp add: in_headers.simps in_getline_def)

lemma response_headers_failed: "failbit is \<or> eofbit is \<Longrightarrow> \<exists>is'. response_headers lg (is, l) = (Inr (), (is', l)) \<and> ibuf is' = ibuf is"
  by (auto simp: response_headers.simps [of lg "is"] std_getline_def good_def)

text \<open>The header that is read through the buffer is the one that the function on the whole text sees.
  If the loop ends on a blank line, whatever follows it is left; else the input has ended.\<close>

lemma in_headers_account:
  "fst s \<Longrightarrow> sock.in_account fd consumed (snd s) \<Longrightarrow> in_headers lg fd (s, l) = (Inr u, (s', l')) \<Longrightarrow>
     \<exists>hdr. sock.in_account fd (consumed @ hdr) (snd s')
       \<and> (if fst s' then \<forall>body. response_headers lg (istream_of (hdr @ body), l) = (Inr (), (istream_of body, l'))
          else received_on fd (snd (snd s')) = consumed @ hdr
            \<and> (\<exists>is'. response_headers lg (istream_of hdr, l) = (Inr (), (is', l')) \<and> ibuf is' = []))"
proof (induction lg fd "(s, l)" arbitrary: s l consumed rule: in_headers.induct)
  case (1 lg fd s l)
  obtain b where s: "s = (True, b)" using "1.prems"(1) by (cases s) auto
  obtain x gd b1 where g: "in_getline fd s = (x, (gd, b1))" by (rule prod_cases3)
  obtain ol where x: "x = Inr ol"
    using "1.prems"(3) g by (cases x) (auto simp: in_headers.simps [of lg fd s])
  from in_getline_account [OF _ g [unfolded s x]] "1.prems"(2) s obtain m where m: "newline_char \<notin> set m"
    "if gd then ol = Some m \<and> sock.in_account fd (consumed @ m @ [newline_char]) b1
     else ol = (if m = [] then None else Some m) \<and> sock.in_account fd (consumed @ m) b1 \<and> received_on fd (snd b1) = consumed @ m"
    by auto
  note full = response_headers.simps [of lg "istream_of (m @ newline_char # r)" for r, unfolded std_getline_of [OF m(1)]]
  note last = response_headers.simps [of lg "istream_of m", unfolded std_getline_last [OF m(1)]]
  show ?case
  proof (cases ol)
    case None
    then have "s' = (gd, b1)" "l' = l" "\<not> gd" "m = []"
      using "1.prems"(3) g x m(2) by (auto simp: in_headers.simps [of lg fd s] split: if_splits)
    then show ?thesis using m(2) last by (intro exI [of _ "[]"]) simp
  next
    case (Some line)
    then have line: "line = m" "\<not> gd \<Longrightarrow> m \<noteq> []" using m(2) by (auto split: if_splits)
    show ?thesis
    proof (cases "blank line")
      case True
      then have s': "s' = (gd, b1)" "l' = l"
        using "1.prems"(3) g x Some by (auto simp: in_headers.simps [of lg fd s])
      show ?thesis
      proof (cases gd)
        case gd: True
        then show ?thesis using m(2) s' full True line
          by (intro exI [of _ "m @ [newline_char]"]) simp
      next
        case False
        then show ?thesis using m(2) s' last True line
          by (intro exI [of _ m]) (simp add: istream_of_def)
      qed
    next
      case False
      obtain y l1 where y: "lg INFO (''Server HTTP header: '' @ line) l = (y, l1)" by (rule prod.exhaust)
      then obtain u1 where u1: "y = Inr u1"
        using "1.prems"(3) g x Some False by (cases y) (auto simp: in_headers.simps [of lg fd s])
      have r: "in_headers lg fd ((gd, b1), l1) = (Inr u, (s', l'))"
        using "1.prems"(3) g x Some False y u1 by (simp add: in_headers.simps [of lg fd s])
      show ?thesis
      proof (cases gd)
        case True
        from "1.hyps"(1) [OF g [symmetric] x Some False y [symmetric] u1 _ _ r, of "consumed @ m @ [newline_char]"] True m(2)
        obtain hdr where h: "sock.in_account fd (consumed @ m @ newline_char # hdr) (snd s')"
          "if fst s' then \<forall>body. response_headers lg (istream_of (hdr @ body), l1) = (Inr (), (istream_of body, l'))
          else received_on fd (snd (snd s')) = consumed @ m @ newline_char # hdr
            \<and> (\<exists>is'. response_headers lg (istream_of hdr, l1) = (Inr (), (is', l')) \<and> ibuf is' = [])"
          by auto
        have e: "response_headers lg (istream_of (m @ newline_char # r), l) = response_headers lg (istream_of r, l1)" for r
          using False y u1 line(1) full [of r] by simp
        show ?thesis
          using h e by (intro exI [of _ "m @ newline_char # hdr"]) (cases "fst s'"; simp)
      next
        case gd: False
        have "s' = (False, b1)" "l' = l1" using r gd by (simp_all add: in_headers_failed)
        moreover have "\<exists>is'. response_headers lg (istream_of m, l) = (Inr (), (is', l1)) \<and> ibuf is' = []"
          using response_headers_failed [of "\<lparr>ibuf = [], eofbit = True, failbit = False\<rparr>" lg l1]
            False y u1 line gd last by simp
        ultimately show ?thesis using m(2) gd by (intro exI [of _ m]) simp
      qed
    qed
  qed
qed

lemma in_copy_account:
  "sock.in_account fd consumed s \<Longrightarrow> in_copy fd out s = (Inr out', s') \<Longrightarrow>
     \<exists>body. out' = out @ body \<and> received_on fd (snd s') = consumed @ body"
proof (induction fd out s arbitrary: consumed rule: in_copy.induct)
  case (1 fd out s)
  obtain x s1 where b: "sbumpc (socket_read fd) s = (x, s1)" by (rule prod.exhaust)
  obtain o1 where x: "x = Inr o1"
    using "1.prems"(2) b by (cases x) (auto simp: in_copy.simps [of fd out s])
  note a = sock.sbumpc_account [OF "1.prems"(1) b [unfolded x]]
  show ?case
  proof (cases o1)
    case None
    then show ?thesis using "1.prems"(2) a b x by (simp add: in_copy.simps [of fd out s])
  next
    case (Some c)
    then have "in_copy fd (out @ [c]) s1 = (Inr out', s')"
      using "1.prems"(2) b x by (simp add: in_copy.simps [of fd out s])
    from "1.IH" [OF b [symmetric] x Some _ this, of "consumed @ [c]"] a Some show ?thesis by auto
  qed
qed

subsection \<open>What reading leaves alone\<close>

lemma getline_buf_keeps:
  assumes "read_keeps (socket_read fd) f"
  shows "f (snd (snd (getline_buf fd acc s))) = f (snd s)"
  using assms
proof (induction fd acc s rule: getline_buf.induct)
  case (1 fd acc s)
  obtain x s1 where b: "sbumpc (socket_read fd) s = (x, s1)" by (rule prod.exhaust)
  have k: "f (snd s1) = f (snd s)" by (rule sbumpc_keeps [OF "1.prems" b])
  show ?case
    using 1 b k by (auto simp: getline_buf.simps [of fd acc s] split: sum.splits option.splits)
qed

lemma in_getline_keeps:
  "read_keeps (socket_read fd) f \<Longrightarrow> in_getline fd s = (r, s') \<Longrightarrow> f (snd (snd s')) = f (snd (snd s))"
  using getline_buf_keeps [of fd f "[]" "snd s"]
  by (auto simp: in_getline_def split: prod.splits sum.splits if_splits)

lemma in_headers_keeps:
  "read_keeps (socket_read fd) f \<Longrightarrow> in_headers lg fd (s, l) = (r, (s', l')) \<Longrightarrow> f (snd (snd s')) = f (snd (snd s))"
proof (induction lg fd "(s, l)" arbitrary: s l rule: in_headers.induct)
  case (1 lg fd s l)
  obtain x s1 where b: "in_getline fd s = (x, s1)" by (rule prod.exhaust)
  have k: "f (snd (snd s1)) = f (snd (snd s))" by (rule in_getline_keeps [OF "1.prems"(1) b])
  show ?case
    using 1 b k by (auto simp: in_headers.simps [of lg fd s] split: prod.splits sum.splits option.splits if_splits)
qed

lemma in_copy_keeps:
  assumes "read_keeps (socket_read fd) f"
  shows "f (snd (snd (in_copy fd out s))) = f (snd s)"
  using assms
proof (induction fd out s rule: in_copy.induct)
  case (1 fd out s)
  obtain x s1 where b: "sbumpc (socket_read fd) s = (x, s1)" by (rule prod.exhaust)
  have k: "f (snd s1) = f (snd s)" by (rule sbumpc_keeps [OF "1.prems" b])
  show ?case
    using 1 b k by (auto simp: in_copy.simps [of fd out s] split: sum.splits option.splits)
qed

subsection \<open>The exchange\<close>

lemma response_loop_account:
  assumes "response_loop lg fd b out (w, l) = (Inr out', (w', l'))" "sock.in_account fd consumed (b, w)"
  shows "\<exists>hdr body. out' = out @ body \<and> received_on fd w' = consumed @ hdr @ body
    \<and> (response_headers lg (istream_of (hdr @ body), l) = (Inr (), (istream_of body, l'))
       \<or> (\<exists>is'. response_headers lg (istream_of hdr, l) = (Inr (), (is', l')) \<and> ibuf is' = []))"
proof -
  obtain u gd b1 w1 where h: "in_headers lg fd ((True, b, w), l) = (Inr u, ((gd, b1, w1), l'))"
    and c: "\<exists>b2. in_copy fd out (b1, w1) = (Inr out', (b2, w'))"
    using assms(1) by (auto simp: response_loop_def split: prod.splits sum.splits)
  obtain b2 where b2: "in_copy fd out (b1, w1) = (Inr out', (b2, w'))" using c by blast
  from in_headers_account [OF _ _ h, of consumed] assms(2) obtain hdr where hdr: "sock.in_account fd (consumed @ hdr) (b1, w1)"
    "if gd then \<forall>body. response_headers lg (istream_of (hdr @ body), l) = (Inr (), (istream_of body, l'))
     else \<exists>is'. response_headers lg (istream_of hdr, l) = (Inr (), (is', l')) \<and> ibuf is' = []"
    by (cases gd) auto
  from in_copy_account [OF hdr(1) b2] obtain body where "out' = out @ body" "received_on fd w' = consumed @ hdr @ body"
    by auto
  then show ?thesis using hdr(2) by (intro exI [of _ hdr] exI [of _ body]) (cases gd; simp)
qed

lemma response_loop_keeps:
  assumes "read_keeps (socket_read fd) f" "response_loop lg fd b out (w, l) = (r, (w', l'))"
  shows "f w' = f w"
proof -
  obtain x gd b1 w1 l1 where h: "in_headers lg fd ((True, b, w), l) = (x, ((gd, b1, w1), l1))"
    by (metis prod.exhaust)
  have "f w1 = f w" using in_headers_keeps [OF assms(1) h] by simp
  then show ?thesis
    using assms(2) h in_copy_keeps [OF assms(1), of out "(b1, w1)"]
    by (auto simp: response_loop_def split: sum.splits prod.splits)
qed

lemma read_response_account:
  assumes "read_response lg c out (w, l) = (Inr out', (w', l'))"
  shows "\<exists>hdr body. out' = out @ body \<and> received_on (con_fd c) w' = received_on (con_fd c) w @ hdr @ body
    \<and> (response_headers lg (istream_of (hdr @ body), l) = (Inr (), (istream_of body, l'))
       \<or> (\<exists>is'. response_headers lg (istream_of hdr, l) = (Inr (), (is', l')) \<and> ibuf is' = []))"
    and "sent_on (con_fd c) w' = sent_on (con_fd c) w"
proof -
  let ?b = "\<lparr>ib_size_pb = 4, ib_mem = replicate 1028 CHR 0x00, ib_eback = 4, ib_gptr = 4, ib_egptr = 4\<rparr>"
  obtain w1 where w1: "response_loop lg (con_fd c) ?b out (w, l) = (Inr out', (w1, l'))"
    "is_destroy (connection_shutdown_read c) \<lparr>is_rw = True, is_buf = ?b\<rparr> w1 = (Inr (), w')"
    by (rule sfinally_on_sys_Inr) (use assms in \<open>auto simp: read_response_def new_instream\<close>)
  have sd: "socket_shutdown_read (con_fd c) w1 = (Inr (), w')"
    using w1(2) by (simp add: is_destroy_def connection_shutdown_read_def)
  have "sock.in_account (con_fd c) (received_on (con_fd c) w) (?b, w)"
    by (simp add: sock.in_account_def ib_inv_def unread_def)
  from response_loop_account [OF w1(1) this] shutdown_keeps(3) [OF disjI1 [OF sd]]
  show "\<exists>hdr body. out' = out @ body \<and> received_on (con_fd c) w' = received_on (con_fd c) w @ hdr @ body
    \<and> (response_headers lg (istream_of (hdr @ body), l) = (Inr (), (istream_of body, l'))
       \<or> (\<exists>is'. response_headers lg (istream_of hdr, l) = (Inr (), (is', l')) \<and> ibuf is' = []))"
    by simp
  show "sent_on (con_fd c) w' = sent_on (con_fd c) w"
    using response_loop_keeps [OF socket_keeps(2) w1(1)] shutdown_keeps(2) [OF disjI1 [OF sd]] by simp
qed

lemma exchange_account:
  assumes "exchange lg c req out (w, l) = (Inr out', (w', l'))"
  shows "\<exists>hdr body. out' = out @ body \<and> received_on (con_fd c) w' = received_on (con_fd c) w @ hdr @ body
    \<and> (response_headers lg (istream_of (hdr @ body), l) = (Inr (), (istream_of body, l'))
       \<or> (\<exists>is'. response_headers lg (istream_of hdr, l) = (Inr (), (is', l')) \<and> ibuf is' = []))"
    and "\<exists>ons bad b w1. make_onstream c = Inr ons
      \<and> os_run (socket_write (con_fd c)) [Write req, Flush] (False, own_buf ons, w) = (Inr (), bad, b, w1)
      \<and> (bad \<or> sent_on (con_fd c) w' = sent_on (con_fd c) w @ req)"
proof -
  let ?b = "\<lparr>ob_rw = True, ob_size = 1024, ob_data = [], ob_live = True\<rparr>"
  let ?fd = "con_fd c"
  obtain r bad b w1 where run: "os_run (socket_write ?fd) [Write req, Flush] (False, ?b, w) = (r, bad, b, w1)"
    by (rule prod_cases4)
  obtain w2 where w2: "sbind (slift r) (\<lambda>_. read_response lg c out) (w1, l) = (Inr out', (w2, l'))"
    "destroy_onstream c b w2 = (Inr (), w')"
    by (rule sfinally_on_sys_Inr) (use assms run in \<open>auto simp: exchange_def new_onstream\<close>)
  obtain u where r: "r = Inr u" using w2(1) by (cases r) auto
  then have rr: "read_response lg c out (w1, l) = (Inr out', (w2, l'))" using w2(1) by simp
  have "received_on ?fd w1 = received_on ?fd w"
    using os_run_world [OF socket_keeps(4) run] by simp
  moreover have "received_on ?fd w' = received_on ?fd w2"
    by (rule destroy_onstream_keeps [OF socket_keeps(4) w2(2)]) (auto dest: shutdown_keeps(3) [OF disjI2])
  ultimately show "\<exists>hdr body. out' = out @ body \<and> received_on ?fd w' = received_on ?fd w @ hdr @ body
    \<and> (response_headers lg (istream_of (hdr @ body), l) = (Inr (), (istream_of body, l'))
       \<or> (\<exists>is'. response_headers lg (istream_of hdr, l) = (Inr (), (is', l')) \<and> ibuf is' = []))"
    using read_response_account(1) [OF rr] by simp
  have new: "new_ostreambuf True 1024 = Inr ?b" by (simp add: new_ostreambuf_def)
  have "sent_on ?fd w' = sent_on ?fd w @ req" if nb: "\<not> bad"
  proof -
    have run': "os_run (socket_write ?fd) ([Write req] @ [Flush]) (False, ?b, w) = (Inr (), False, b, w1)"
      using run r nb by simp
    have s1: "sent_on ?fd w1 = sent_on ?fd w @ req"
      using sock.os_run_flushed [OF sock.new_stream_ok [OF new] run'] by simp
    have "sock.stream_ok ?fd (sent_on ?fd w @ req) (False, b, w1)"
      using sock.os_run_ok [OF sock.new_stream_ok [OF new] run'] by simp
    then have "ob_data b = []" using s1 by (simp add: sock.stream_ok_def sock.account_def)
    from destroy_onstream_sent [OF this w2(2)] show ?thesis
      using read_response_account(2) [OF rr] s1 by simp
  qed
  then show "\<exists>ons bad b w1. make_onstream c = Inr ons
      \<and> os_run (socket_write ?fd) [Write req, Flush] (False, own_buf ons, w) = (Inr (), bad, b, w1)
      \<and> (bad \<or> sent_on ?fd w' = sent_on ?fd w @ req)"
    using run r by (auto simp: new_onstream)
qed

text \<open>The exchange opens and closes no descriptor.\<close>

lemma read_response_balance:
  assumes "read_response lg c out (w, l) = (r, (w', l'))"
  shows "balance f w' = balance f w"
proof -
  let ?b = "\<lparr>ib_size_pb = 4, ib_mem = replicate 1028 CHR 0x00, ib_eback = 4, ib_gptr = 4, ib_egptr = 4\<rparr>"
  have s: "sfinally (response_loop lg (con_fd c) ?b out)
      (on_sys (is_destroy (connection_shutdown_read c) \<lparr>is_rw = True, is_buf = ?b\<rparr>)) (w, l) = (r, (w', l'))"
    using assms by (simp add: read_response_def new_instream)
  have d: "balance f v' = balance f v" if "is_destroy (connection_shutdown_read c) \<lparr>is_rw = True, is_buf = ?b\<rparr> v = (x, v')" for v x v'
    using that shutdown_keeps(1) [of "con_fd c" v x v'] by (simp add: is_destroy_def connection_shutdown_read_def)
  show ?thesis
    by (rule sfinally_on_sys [OF s]) (auto dest!: response_loop_keeps [OF socket_keeps(1)] d)
qed

lemma exchange_balance:
  assumes "exchange lg c req out (w, l) = (r, (w', l'))"
  shows "balance f w' = balance f w"
proof -
  let ?b = "\<lparr>ob_rw = True, ob_size = 1024, ob_data = [], ob_live = True\<rparr>"
  obtain x bad b w1 where run: "os_run (socket_write (con_fd c)) [Write req, Flush] (False, ?b, w) = (x, bad, b, w1)"
    by (rule prod_cases4)
  have s: "sfinally (sbind (slift x) (\<lambda>_. read_response lg c out)) (on_sys (destroy_onstream c b)) (w1, l) = (r, (w', l'))"
    using assms run by (simp add: exchange_def new_onstream)
  have rr: "balance f v' = balance f w1" if "sbind (slift x) (\<lambda>_. read_response lg c out) (w1, l) = (y, (v', k))" for y v' k
    using that read_response_balance by (cases x) auto
  have d: "balance f v' = balance f v" if "destroy_onstream c b v = (y, v')" for v y v'
    by (rule destroy_onstream_keeps [OF socket_keeps(3) that]) (auto dest: shutdown_keeps(1) [OF disjI2])
  have b: "balance f w1 = balance f w" by (rule os_run_world [OF socket_keeps(3) run])
  show ?thesis
    by (rule sfinally_on_sys [OF s]) (use b in \<open>auto dest!: rr d\<close>)
qed

lemma quiet_getaddrinfo: "quiet (my_getaddrinfo type n s f)"
  unfolding my_getaddrinfo_def Let_def
  by (intro quiet_intros) (simp add: quiet_def)

lemma owns_new_connection_name: "owns (\<lambda>c. Some (con_fd c)) (new_connection_name n serv t)"
  unfolding new_connection_name_def resolve_def
  by (intro owns_bind quiet_intros quiet_getaddrinfo owns_new_connection)

lemma new_connection_name_valid: "new_connection_name n serv t st = (Inr c, st') \<Longrightarrow> socket_valid (con_fd c)"
  unfolding new_connection_name_def by (elim sbind_InrE) (rule new_connection_valid)

lemma quiet_set_timeout: "quiet (set_timeout c t)"
  unfolding set_timeout_def send_timeout_def receive_timeout_def by (intro quiet_intros)

lemma wget1_balance:
  assumes "wget1 lg out path timeout host port sender agent (w, l) = (r, (w', l'))"
    and "\<forall>e. r = Inl e \<longrightarrow> is_std_exception e"
  shows "balance f w' = balance f w"
proof -
  obtain x w1 where c: "new_connection_name host port (Fin (- 1)) w = (x, w1)" by (rule prod.exhaust)
  show ?thesis
  proof (cases x)
    case (Inl e)
    then show ?thesis
      using assms c ownsD(2) [OF owns_new_connection_name, of host port "Fin (- 1)" w e w1 f]
      by (simp add: wget1_def sbind_def on_sys_def)
  next
    case (Inr c1)
    let ?m = "sbind (on_sys (set_timeout c1 timeout)) (\<lambda>_. sbind (on_logger (lg INFO (''Requesting '' @ path @ '' from '' @ host)))
      (\<lambda>_. exchange lg c1 (wget_request path host port sender agent) out))"
    have s: "sfinally ?m (on_sys (socket_destroy (con_fd c1))) (w1, l) = (r, (w', l'))"
      using assms(1) c Inr by (simp add: wget1_def sbind_def on_sys_def)
    have b: "balance f w1 = balance f w + (if con_fd c1 = f then 1 else 0)"
      using ownsD(1) [OF owns_new_connection_name c [unfolded Inr], of f] by simp
    have v: "socket_valid (con_fd c1)" by (rule new_connection_name_valid [OF c [unfolded Inr]])
    have m: "balance f v' = balance f w1" if "?m (w1, l) = (y, (v', k))" for y v' k
    proof -
      obtain z w2 where z: "set_timeout c1 timeout w1 = (z, w2)" by (rule prod.exhaust)
      then have "balance f w2 = balance f w1" using quietD [OF quiet_set_timeout] by blast
      then show ?thesis
        using that z by (auto simp: sbind_def on_sys_def on_logger_def dest: exchange_balance [where f = f] split: sum.splits prod.splits)
    qed
    show ?thesis
    proof (rule sfinally_on_sys [OF s])
      fix r1 v1
      assume "?m (w1, l) = (r1, v1, l')" "socket_destroy (con_fd c1) v1 = (Inr (), w')"
      then show ?thesis using m destroy_balance [OF v, of v1 "Inr ()" w' f] b by auto
    next
      fix r1 v1 e
      assume "?m (w1, l) = (r1, v1, l')" "socket_destroy (con_fd c1) v1 = (Inl e, w')" "r = Inl e"
      then show ?thesis using m destroy_balance [OF v, of v1 "Inl e" w' f] b assms(2) by auto
    qed (use assms(2) in auto)
  qed
qed

section \<open>Properties\<close>


text \<open>A run in which the peer answers with an empty header and the body \<open>x\<close>. Of the state of the system
  only the answers that are left matter.\<close>

definition silent :: "unit logger" where
  "silent p m l = (Inr (), l)"

definition sample_connection :: connection where
  "sample_connection = \<lparr>con_fd = 5, con_local = Addr AF_INET 9 [2], con_peer = Addr AF_INET 80 [1]\<rparr>"

definition sample_fetch :: os where
  "sample_fetch = sample_os [Addrs [(SOCK_STREAM, Addr AF_INET 80 [1])], Ret 5, Ret 0, Name (Addr AF_INET 9 [2]),
     Name (Addr AF_INET 80 [1]), Ret 0, Ret 0, Ret 55, Data [newline_char, CHR ''x''], Data [], Ret 0, Ret 0, Ret 0]"

lemma sample_connected:
  "\<exists>w1. new_connection_name ''h'' ''80'' (Fin (- 1)) sample_fetch = (Inr sample_connection, w1)
     \<and> answers w1 = [Ret 0, Ret 0, Ret 55, Data [newline_char, CHR ''x''], Data [], Ret 0, Ret 0, Ret 0]"
  by (simp add: sample_fetch_def sample_connection_def new_connection_name_def resolve_def int_address_family_def
      my_getaddrinfo_def new_connection_def connection_initialize_def connect_one_def connection_of_def
      my_connect_timeout_def my_connect_def my_getpeername_def my_getsockname_def
      socket_new_def socket_adopt_def socket_setup_def check_family_def check_socktype_def
      on_exception_def scatch_def sbind_def sys_def eintr_answer sample_os_def Let_def
      socket_valid_def invalid_socket_def SOCK_DGRAM_def SOCK_STREAM_def AF_INET_def AF_INET6_def slift_def)

lemma sample_timeout:
  assumes "answers w = Ret 0 # Ret 0 # as"
  shows "\<exists>w'. set_timeout sample_connection (Fin 0) w = (Inr (), w') \<and> answers w' = as"
  using assms
  by (simp add: set_timeout_def send_timeout_def receive_timeout_def time_sockopt_def enable_sockopt_def to_timeval_0
      sbind_def c_assert_def slift_def sys_def SO_SNDTIMEO_def SO_RCVTIMEO_def)

text \<open>Reading the response.\<close>

lemma sample_response:
  assumes "answers w = Data [newline_char, CHR ''x''] # Data [] # as"
  shows "\<exists>w'. response_loop silent 5 \<lparr>ib_size_pb = 4, ib_mem = replicate 1028 CHR 0x00, ib_eback = 4, ib_gptr = 4, ib_egptr = 4\<rparr>
    [] (w, ()) = (Inr ''x'', (w', ())) \<and> answers w' = as"
proof -
  let ?b = "\<lambda>x g e. \<lparr>ib_size_pb = 4, ib_mem = x, ib_eback = 4, ib_gptr = g, ib_egptr = e\<rparr>"
  define m0 where "m0 = replicate 1028 CHR 0x00"
  obtain m w1 where l: "length m = 1028" and w1: "answers w1 = Data [] # as"
    and u1: "sbumpc (socket_read 5) (?b m0 4 4, w) = (Inr (Some newline_char), ?b m 5 6, w1)"
    and u2: "\<And>v. sbumpc (socket_read 5) (?b m 5 6, v) = (Inr (Some CHR ''x''), ?b m 6 6, v)"
    using read_two [OF assms, of 5] unfolding m0_def by blast
  obtain w2 where w2: "socket_read 5 1024 w1 = (Inr (Some []), w2)" "answers w2 = as"
    using read_step [OF w1, of 1024 5] by auto
  obtain m' where u3: "sbumpc (socket_read 5) (?b m 6 6, w1) = (Inr None, ?b m' 6 6, w2)"
    using w2(1) l by (simp add: sbumpc_def sbind_def underflow_def Let_def)
  have "getline_buf 5 [] (?b m0 4 4, w) = (Inr ([], True), ?b m 5 6, w1)"
    by (simp add: getline_buf.simps [of 5 "[]"] u1)
  then have "in_headers silent 5 ((True, ?b m0 4 4, w), ()) = (Inr (), ((True, ?b m 5 6, w1), ()))"
    by (simp add: in_headers.simps [of silent 5 "(True, ?b m0 4 4, w)"] in_getline_def blank_def find_first_not_of_def)
  moreover have "in_copy 5 [] (?b m 5 6, w1) = (Inr ''x'', ?b m' 6 6, w2)"
    by (simp add: in_copy.simps [of 5 "[]"] in_copy.simps [of 5 "''x''"] u2 u3)
  ultimately show ?thesis using w2(2) by (simp add: response_loop_def m0_def)
qed

lemma sample_fetched:
  "\<exists>w'. wget1 silent [] ''/'' (Fin 0) ''h'' ''80'' ''me'' ''a'' (sample_fetch, ()) = (Inr ''x'', (w', ()))"
proof -
  let ?req = "wget_request ''/'' ''h'' ''80'' ''me'' ''a''"
  have req: "length ?req = 55" "?req \<noteq> []" by (simp_all add: wget_request_def http_endl_def)
  obtain w1 where w1: "new_connection_name ''h'' ''80'' (Fin (- 1)) sample_fetch = (Inr sample_connection, w1)"
    "answers w1 = [Ret 0, Ret 0, Ret 55, Data [newline_char, CHR ''x''], Data [], Ret 0, Ret 0, Ret 0]"
    using sample_connected by blast
  obtain w2 where w2: "set_timeout sample_connection (Fin 0) w1 = (Inr (), w2)"
    "answers w2 = [Ret 55, Data [newline_char, CHR ''x''], Data [], Ret 0, Ret 0, Ret 0]"
    using sample_timeout [OF w1(2)] by blast
  let ?b = "\<lparr>ob_rw = True, ob_size = 1024, ob_data = [], ob_live = True\<rparr>"
  obtain w3 where w3: "os_run (socket_write 5) [Write ?req, Flush] (False, ?b, w2) = (Inr (), False, ?b, w3)"
    "answers w3 = [Data [newline_char, CHR ''x''], Data [], Ret 0, Ret 0, Ret 0]"
    using request_step [of w2 ?req _ 5] w2(2) req by auto
  obtain w4 where w4: "response_loop silent 5 \<lparr>ib_size_pb = 4, ib_mem = replicate 1028 CHR 0x00, ib_eback = 4, ib_gptr = 4, ib_egptr = 4\<rparr>
    [] (w3, ()) = (Inr ''x'', (w4, ()))" "answers w4 = [Ret 0, Ret 0, Ret 0]"
    using sample_response [OF w3(2)] by blast
  have fd: "con_fd sample_connection = 5" by (simp add: sample_connection_def)
  obtain w5 where w5: "socket_shutdown_read 5 w4 = (Inr (), w5)" "answers w5 = [Ret 0, Ret 0]"
    using answer_step(1) [OF w4(2), of "C_shutdown 5 False"] by (auto simp: socket_shutdown_read_def sbind_def)
  obtain w6 where w6: "socket_shutdown_write 5 w5 = (Inr (), w6)" "answers w6 = [Ret 0]"
    using answer_step(1) [OF w5(2), of "C_shutdown 5 True"] by (auto simp: socket_shutdown_write_def sbind_def)
  obtain w7 where w7: "socket_destroy 5 w6 = (Inr (), w7)"
    using answer_step(1) [OF w6(2), of "C_close 5"]
    by (auto simp: socket_destroy_def socket_dispose_def socket_valid_def invalid_socket_def sbind_def)
  have "read_response silent sample_connection [] (w3, ()) = (Inr ''x'', (w5, ()))"
    using w4(1) w5(1) by (simp add: read_response_def new_instream sfinally_def on_sys_def is_destroy_def
        connection_shutdown_read_def fd sbind_def)
  then have "exchange silent sample_connection ?req [] (w2, ()) = (Inr ''x'', (w6, ()))"
    using w3(1) w6(1) by (simp add: exchange_def new_onstream fd sfinally_def on_sys_def destroy_onstream_def ob_destroy_def
        ob_sync_def ob_flush_def connection_shutdown_write_def sbind_def del: os_run.simps)
  then show ?thesis
    using w1(1) w2(1) w7 by (simp add: wget1_def on_sys_def on_logger_def silent_def sfinally_def sbind_def fd)
qed


text \<open>C29: Fetching a document leaves no descriptor open: for every descriptor, the number of times it has been
  opened less the number of times it has been closed is the same before and after, whether \<open>wget\<close>
  returns or throws, whatever the URL, and whatever the system, the peer and the log do.\<close>

theorem wget_leaks_nothing:
  assumes "wget lg out url timeout (w, l) = (r, (w', l'))" "\<forall>e. r = Inl e \<longrightarrow> is_std_exception e"
  shows "balance f w' = balance f w"
proof (cases "parse_url url")
  case (Inl e)
  then show ?thesis using assms(1) by (simp add: wget_def)
next
  case (Inr p)
  obtain path host port where p: "p = (path, host, port)" by (rule prod_cases3)
  have run: "wget1 lg out path timeout host port ''ano@nymous.com'' default_user_agent (w, l) = (r, (w', l'))"
    using assms(1) Inr p by (simp add: wget_def)
  show ?thesis by (rule wget1_balance [OF run assms(2)])
qed

lemma wget_leaks_nothing_witness:
  "\<exists>w'. wget silent [] ''http://h/'' (Fin 0) (sample_os [Gai 2], ()) = (Inl (Runtime_error ''can't resolve h:80: ''), (w', ()))
     \<and> balance 5 w' = 0"
proof -
  have p: "parse_url ''http://h/'' = Inr (''/'', ''h'', ''80'')"
    using parse_url_no_port [of "''h''" "[]"] by simp
  obtain w' where w': "new_connection_name ''h'' ''80'' (Fin (- 1)) (sample_os [Gai 2]) = (Inl (Runtime_error ''can't resolve h:80: ''), w')"
    by (simp add: new_connection_name_def resolve_def int_address_family_def my_getaddrinfo_def sbind_def sys_def slift_def
        assertion_def resolve_error_def SOCK_STREAM_def SOCK_DGRAM_def sample_os_def)
  then have "wget silent [] ''http://h/'' (Fin 0) (sample_os [Gai 2], ()) = (Inl (Runtime_error ''can't resolve h:80: ''), (w', ()))"
    by (simp add: wget_def p wget1_def sbind_def on_sys_def)
  with wget_leaks_nothing [OF this, of 5] show ?thesis by (auto simp: balance_def)
qed

end
