(* ===== verification/Spec2Isabelle.thy ===== *)
theory Spec2Isabelle
  imports Registry_Props Calendar Utf8 Iterators Safe_Queue Pool_Moves Xdr Math_Util Windows Datagram Listener Wget
begin

text \<open>
  A verification development of the nanonet C++ library: networking, dispatching and configuration
  files. Each definition is a translation of the function or class whose name it has.

  \<^bold>\<open>The program.\<close> At the bottom are the exceptions, strings and time (\<^verbatim>\<open>src/util.cpp\<close>,
  \<^verbatim>\<open>src/error.cpp\<close>, \<^verbatim>\<open>src/assert.cpp\<close>) and the wrappers of the system (\<^verbatim>\<open>src/posix/wrappers.cpp\<close>,
  \<^verbatim>\<open>src/detail\<close>, and \<^verbatim>\<open>src/windows/wrappers.cpp\<close> for the other platform). On them rest the stream buffers and owners of \<^verbatim>\<open>nanonet/util.h\<close>, which the system
  log (\<^verbatim>\<open>src/sys/syslogger.cpp\<close>) and the TCP streams use; addresses, connections, acceptors and datagram
  sockets (\<^verbatim>\<open>src/network.cpp\<close>, \<^verbatim>\<open>nanonet/detail/net-address.h\<close>); the server (\<^verbatim>\<open>src/sys/server.cpp\<close>)
  and the HTTP helpers (\<^verbatim>\<open>src/http.cpp\<close>). Independent of these are the registry with its lexer and
  parser (\<^verbatim>\<open>src/registry.cpp\<close>), the queue and the thread pool (\<^verbatim>\<open>nanonet/safe_queue.h\<close>,
  \<^verbatim>\<open>src/dispatch.cpp\<close>), XDR, containers and the rate estimator.

  \<^bold>\<open>Conventions.\<close> An operation that can throw is a function from a state to a result and a state
  (\<open>sx\<close> of theory Base), so that what has been done before an exception stays done. Exceptions are
  values of \<open>exc\<close>; \<open>Abort\<close> is a failed \<^verbatim>\<open>assert\<close>, \<open>Undefined\<close> undefined behaviour, \<open>Hang\<close> a system call
  that does not return. Doubles are IEEE numbers computed over rationals (theory Doubles); integers
  have their width where it matters. The system is a list of answers to the calls the program makes
  and the trace of the calls (record \<open>os\<close> of theory Posix): theorems about it hold for all answers,
  interruptions and errors included. Concurrency is an inductive step relation per component.

  \<^bold>\<open>Theories.\<close>
  \<^item> Base: results, the state monad with its calculus of preconditions, characters, decimal numbers,
    assertions. Doubles: IEEE arithmetic, rounding, printing. Streams: input streams.
  \<^item> Lexer, Parser, Printer, Registry: \<^verbatim>\<open>nanonet/registry.h\<close> and \<^verbatim>\<open>src/registry.cpp\<close>: the tokens with line
    numbers, the parser, the values with their conversions, reading of files; Printer is the inverse
    of the parser. Lexer_Facts, Lexer_Tokens, Parser_Facts, Registry_Facts and Registry_Read hold
    their lemmas and the locale \<open>last_write_store\<close>; Registry_Props their properties: round trips,
    totality, line numbers, located errors, conversions.
  \<^item> Util: lines, splitting, trimming, time formatting. Calendar: the calendar functions and formats of the
    C library that the sources call, and dates and times on top of them. Utf8: the conversion to wide
    characters and back, and the functions on UTF-8 strings over a locale. Containers: checked vectors
    (locale \<open>bounded_stack\<close>) and sequence algorithms; Iterators: the rest of \<^verbatim>\<open>nanonet/container-util.h\<close>,
    random sequences, table statistics and type traits. Math_Util: moving average, rate estimator, rounding. Xdr:
    encoding and decoding. Errors: the functions that throw and those that expect an exception.
  \<^item> Safe_Queue: the queue, its mutex and its two condition variables (locale \<open>fifo\<close>); Dispatch: the
    thread pool on that queue, from construction to the end of the destructor; Pool_Moves: the
    ownership of queues and threads when pools are moved.
  \<^item> Streambuf: the output and input buffers over the locales \<open>writer\<close>, \<open>reader\<close> and \<open>reader_writer\<close>,
    which Posix (files) and Sockets (sockets) interpret. Resources: \<open>auto_resource\<close> over the locale
    \<open>resource_traits\<close>, interpreted for descriptors, sockets and counters. Syslogger: the system log.
  \<^item> Posix: system calls, errors, options. Sockets: the socket class and the calls with timeouts. Net:
    addresses, resolver, acceptors, connections; its sections on descriptors and on exceptions are the
    calculus with which leaks and kinds of exceptions are excluded. Datagram: datagram sockets.
  \<^item> Owning_Streams: the streams that own their buffer and what moving them does, with the locale
    \<open>closing_writer\<close>; Conn_Streams interprets it for the streams of a connection. Windows: the Windows
    layer over the answers of its API, with interpretations of \<open>resource_traits\<close> and \<open>reader_writer\<close>.
  \<^item> Http: headers, URLs, requests; Wget: \<open>wget\<close> as one operation, from the connection over both
    streams and their buffers to the destructors. Server: parameters, the loop and the thread of a connection,
    \<open>run_server\<close>. Server_Run: the listening thread and the connection threads together. Conn_Server: the
    loop of a connection again, over the buffers of the TCP streams, refining Server; Conn_Thread: its
    thread, with the destructors that shut the connection down. Listener: the listening thread over the
    sockets, taking the steps of Server_Run, and the life of a connection from \<^verbatim>\<open>accept\<close> to \<^verbatim>\<open>close\<close>.
    Conn_Facts: what Wget and these share, progress, accounts and frames of socket operations.

  \<^bold>\<open>Results.\<close> What is printed as a configuration is read back; the parsers are total and their errors
  carry the right line. Queue and pool lose, repeat and reorder nothing, and the pool's destructor
  ends. TCP streams send what is written and give what is received. Making
  connections and acceptors leaks no descriptor; accepting with a timeout does when restoring the mode of
  the socket fails. Moving streams and pools loses neither data nor threads, and closes nothing twice.
  What \<open>wget\<close> copies is the body of what has arrived, and it leaves nothing open. Dates are read back.
  What a handler reads and writes over TCP is what it would over a text, its loop ends, and its connection
  is shut down and closed. The listening thread returns only when all its connections have ended. A
  server that has stopped has no connection left, accepts at most one after a request to shut down, and
  can always stop; the exceptions are the flaws the lemmas at the end of the theories show: \<open>trim\<close>
  returns its argument, requests with CR LF are rejected, an interrupted \<open>sleep\<close> leaves a server with
  live connections, a documented timeout exception is never thrown.

  \<^bold>\<open>Bounds.\<close> \<open>parse_term_f\<close> and \<open>read_pairs\<close> carry a bound on the recursion that their callers derive
  from the length of the input; it is proved to be never reached. \<open>serve_lines\<close> and \<open>listen_loop\<close> take a
  number of turns: one more than the lines, or than the retries, is proved to be enough. For \<open>tcp_serve\<close>
  some number is proved to be enough for each run. \<open>accept_loop\<close> runs until the flag is found cleared and
  \<open>drain_loop\<close> until the connections have ended; any larger bound is proved not to matter. The loops of
  \<open>wget1\<close> read until the system says that the input has ended; they need no bound, because each
  character takes an answer of the system or shortens the buffer, and a run without answers hangs.

  \<^bold>\<open>Not modelled.\<close> The terminal of the Windows layer, which does not fit the buffers it is written for; the
  move assignment of the owning streams, which cannot be instantiated; preprocessor switches; the
  test programs. Third-party code and what depends on the machine are parameters: Boost's \<^verbatim>\<open>split\<close>,
  the case mapping of the locale, \<^verbatim>\<open>strerror_r\<close>, \<^verbatim>\<open>getaddrinfo\<close>, the byte order. Of the standard
  streams only the members that the sources call are modelled, input streams as finite sequences of
  characters but in Wget and Conn_Server, where they are buffers on a socket. What is left of the headers
  are declarations, whose definitions are modelled, and members that only return a field.
\<close>

end
